(* ===== verification/Prelude.thy ===== *)
theory Prelude
  imports
    Main
    "HOL-Library.AList"
    "HOL-Library.Char_ord"
    "HOL-Library.List_Lexorder"
    "HOL-Library.Word"
begin

text \<open>
  What every component shares: results with an error side, Rust strings as the bytes of
  their UTF-8 encoding with the standard library's string operations on them, and two
  interfaces as locales. \<open>kv_store\<close> is a key/value store (the JSON objects and the
  relay's hash maps both provide it); \<open>bounded_log\<close> is a log that keeps its newest
  entries (the daemon's three logs provide it).
\<close>

named_theorems str_defs \<open>the string operations, for evaluation\<close>

section \<open>Results\<close>

type_synonym 'a result = "string + 'a"

definition and_then :: "'e + 'a \<Rightarrow> ('a \<Rightarrow> 'e + 'b) \<Rightarrow> 'e + 'b" where
  "and_then r f = (case r of Inl e \<Rightarrow> Inl e | Inr x \<Rightarrow> f x)"

lemma and_then_simps [simp]:
  "and_then (Inl e) f = Inl e"
  "and_then (Inr x) f = f x"
  by (simp_all add: and_then_def)

lemma and_then_Inr_iff: "and_then r f = Inr y \<longleftrightarrow> (\<exists>x. r = Inr x \<and> f x = Inr y)"
  by (cases r) simp_all

lemma and_then_Inl_iff:
  "and_then r f = Inl e \<longleftrightarrow> r = Inl e \<or> (\<exists>x. r = Inr x \<and> f x = Inl e)"
  by (cases r) simp_all

definition ok_or :: "'e \<Rightarrow> 'a option \<Rightarrow> 'e + 'a" where
  "ok_or e x = (case x of None \<Rightarrow> Inl e | Some y \<Rightarrow> Inr y)"

lemma ok_or_simps [simp]: "ok_or e None = Inl e" "ok_or e (Some y) = Inr y"
  by (simp_all add: ok_or_def)

lemma ok_or_Inr_iff [simp]: "ok_or e x = Inr y \<longleftrightarrow> x = Some y"
  by (cases x) simp_all

definition filter_opt :: "('a \<Rightarrow> bool) \<Rightarrow> 'a option \<Rightarrow> 'a option" where
  "filter_opt P x = (case x of None \<Rightarrow> None | Some y \<Rightarrow> if P y then Some y else None)"

lemma filter_opt_simps [simp]:
  "filter_opt P None = None"
  "filter_opt P (Some y) = (if P y then Some y else None)"
  by (simp_all add: filter_opt_def)

lemma filter_opt_Some_iff: "filter_opt P x = Some y \<longleftrightarrow> x = Some y \<and> P y"
  by (cases x) auto

definition or_else :: "'a option \<Rightarrow> 'a option \<Rightarrow> 'a option" where
  "or_else x y = (case x of None \<Rightarrow> y | Some z \<Rightarrow> Some z)"

lemma or_else_simps [simp]: "or_else None y = y" "or_else (Some z) y = Some z"
  by (simp_all add: or_else_def)

definition unwrap_or :: "'a \<Rightarrow> 'a option \<Rightarrow> 'a" where
  "unwrap_or d x = (case x of None \<Rightarrow> d | Some z \<Rightarrow> z)"

lemma unwrap_or_simps [simp]: "unwrap_or d None = d" "unwrap_or d (Some z) = z"
  by (simp_all add: unwrap_or_def)

text \<open>\<open>xs.get(i)\<close>.\<close>

definition get_at :: "'a list \<Rightarrow> nat \<Rightarrow> 'a option" where
  "get_at xs n = (if n < length xs then Some (xs ! n) else None)"

lemma get_at_simps [simp]:
  "get_at [] n = None" "get_at (x # xs) 0 = Some x" "get_at (x # xs) (Suc n) = get_at xs n"
  by (simp_all add: get_at_def)

lemma get_at_Some_set: "get_at xs n = Some x \<Longrightarrow> x \<in> set xs"
  by (auto simp: get_at_def split: if_splits)

section \<open>Strings as UTF-8 bytes\<close>

text \<open>
  A Rust \<open>str\<close> is the list of its UTF-8 bytes; \<open>len\<close> is the list's length and the
  order of strings is the lexicographic order of the bytes. What depends on the Unicode
  character database (full lowercase mapping, the alphanumeric classes) is a parameter of
  the definitions that use it, a value of type \<open>unicode\<close>; \<open>ascii_tables\<close> is the
  instance that the witnesses evaluate.
\<close>

record unicode =
  lowercase :: "string \<Rightarrow> string"
  alphanumeric :: "string \<Rightarrow> bool"

definition starts_with :: "string \<Rightarrow> string \<Rightarrow> bool" where
  "starts_with s p \<longleftrightarrow> take (length p) s = p"

definition ends_with :: "string \<Rightarrow> string \<Rightarrow> bool" where
  "ends_with s p \<longleftrightarrow> length p \<le> length s \<and> drop (length s - length p) s = p"

fun contains :: "string \<Rightarrow> string \<Rightarrow> bool" where
  "contains [] p \<longleftrightarrow> p = []"
| "contains (c # s) p \<longleftrightarrow> starts_with (c # s) p \<or> contains s p"

declare starts_with_def [str_defs] ends_with_def [str_defs]

lemma starts_with_iff: "starts_with s p \<longleftrightarrow> (\<exists>t. s = p @ t)"
  unfolding starts_with_def by (metis append_eq_conv_conj append_take_drop_id)

lemma ends_with_iff: "ends_with s p \<longleftrightarrow> (\<exists>t. s = t @ p)"
proof
  assume "ends_with s p"
  then have "s = take (length s - length p) s @ p"
    unfolding ends_with_def by (metis append_take_drop_id)
  then show "\<exists>t. s = t @ p" by blast
qed (auto simp: ends_with_def)

lemma contains_iff: "contains s p \<longleftrightarrow> (\<exists>a b. s = a @ p @ b)"
proof (induction s)
  case Nil
  then show ?case by simp
next
  case (Cons c s)
  have "(\<exists>a b. c # s = a @ p @ b)
    \<longleftrightarrow> (\<exists>b. c # s = p @ b) \<or> (\<exists>a b. s = a @ p @ b)"
    by (metis append_Cons append_Nil list.exhaust list.inject)
  then show ?case
    by (simp add: Cons.IH starts_with_iff)
qed

lemma contains_refl [simp]: "contains s s"
  unfolding contains_iff by (metis append_Nil append_Nil2)

text \<open>\<open>s.split(sep)\<close> for one separator byte: always at least one piece.\<close>

fun split_on :: "char \<Rightarrow> string \<Rightarrow> string list" where
  "split_on sep [] = [[]]"
| "split_on sep (c # s) =
     (if c = sep then [] # split_on sep s
      else (case split_on sep s of [] \<Rightarrow> [[c]] | p # ps \<Rightarrow> (c # p) # ps))"

lemma split_on_nonempty [simp]: "split_on sep s \<noteq> []"
  by (induction s) (auto split: list.splits)

lemma split_on_no_sep: "sep \<notin> set s \<Longrightarrow> split_on sep s = [s]"
  by (induction s) auto

text \<open>The first piece of a split is what precedes the first separator.\<close>

lemma hd_split_on: "hd (split_on sep s) = takeWhile (\<lambda>c. c \<noteq> sep) s"
proof (induction s)
  case Nil
  then show ?case by simp
next
  case (Cons c s)
  obtain p ps where "split_on sep s = p # ps"
    using split_on_nonempty [of sep s] by (cases "split_on sep s") auto
  with Cons show ?case by auto
qed

lemma hd_split_on_no_sep: "sep \<notin> set (hd (split_on sep s))"
  by (simp add: hd_split_on) (metis (mono_tags) set_takeWhileD)

section \<open>White space\<close>

text \<open>The UTF-8 encodings of the characters with the \<open>White_Space\<close> property.\<close>

definition ws_encodings :: "string list" where
  "ws_encodings =
     [[CHR 0x20], [CHR 0x09], [CHR 0x0A], [CHR 0x0B], [CHR 0x0C], [CHR 0x0D],
      [CHR 0xC2, CHR 0x85], [CHR 0xC2, CHR 0xA0], [CHR 0xE1, CHR 0x9A, CHR 0x80],
      [CHR 0xE2, CHR 0x80, CHR 0x80], [CHR 0xE2, CHR 0x80, CHR 0x81],
      [CHR 0xE2, CHR 0x80, CHR 0x82], [CHR 0xE2, CHR 0x80, CHR 0x83],
      [CHR 0xE2, CHR 0x80, CHR 0x84], [CHR 0xE2, CHR 0x80, CHR 0x85],
      [CHR 0xE2, CHR 0x80, CHR 0x86], [CHR 0xE2, CHR 0x80, CHR 0x87],
      [CHR 0xE2, CHR 0x80, CHR 0x88], [CHR 0xE2, CHR 0x80, CHR 0x89],
      [CHR 0xE2, CHR 0x80, CHR 0x8A], [CHR 0xE2, CHR 0x80, CHR 0xA8],
      [CHR 0xE2, CHR 0x80, CHR 0xA9], [CHR 0xE2, CHR 0x80, CHR 0xAF],
      [CHR 0xE2, CHR 0x81, CHR 0x9F], [CHR 0xE3, CHR 0x80, CHR 0x80]]"

lemma ws_encoding_nonempty: "w \<in> set ws_encodings \<Longrightarrow> w \<noteq> []"
  by (auto simp: ws_encodings_def)

lemma find_SomeD: "find P xs = Some x \<Longrightarrow> x \<in> set xs \<and> P x"
  by (induction xs) (auto split: if_splits)

function trim_start :: "string \<Rightarrow> string" where
  "trim_start s =
     (case find (starts_with s) ws_encodings of
        None \<Rightarrow> s
      | Some w \<Rightarrow> trim_start (drop (length w) s))"
  by pat_completeness auto
termination
proof (relation "measure length", simp)
  fix s w
  assume f: "find (starts_with s) ws_encodings = Some w"
  then have "w \<noteq> []" "starts_with s w"
    using find_SomeD [OF f] ws_encoding_nonempty by auto
  then show "(drop (length w) s, s) \<in> measure length"
    by (auto simp: starts_with_iff)
qed

function trim_end :: "string \<Rightarrow> string" where
  "trim_end s =
     (case find (ends_with s) ws_encodings of
        None \<Rightarrow> s
      | Some w \<Rightarrow> trim_end (take (length s - length w) s))"
  by pat_completeness auto
termination
proof (relation "measure length", simp)
  fix s w
  assume f: "find (ends_with s) ws_encodings = Some w"
  then have "w \<noteq> []" "ends_with s w"
    using find_SomeD [OF f] ws_encoding_nonempty by auto
  then show "(take (length s - length w) s, s) \<in> measure length"
    by (auto simp: ends_with_iff)
qed

declare trim_start.simps [simp del] trim_end.simps [simp del]

definition trim :: "string \<Rightarrow> string" where
  "trim s = trim_end (trim_start s)"

declare trim_start.simps [str_defs] trim_end.simps [str_defs]
declare trim_def [str_defs] ws_encodings_def [str_defs]

lemma trim_Nil [simp]: "trim [] = []"
  by (simp add: str_defs)


text \<open>\<open>parts.join(sep)\<close>.\<close>

fun join :: "string \<Rightarrow> string list \<Rightarrow> string" where
  "join sep [] = []"
| "join sep [s] = s"
| "join sep (s # t # ts) = s @ sep @ join sep (t # ts)"

section \<open>Splitting and stripping\<close>

text \<open>\<open>s.split(sep)\<close> for a non-empty separator string.\<close>

function split_str :: "string \<Rightarrow> string \<Rightarrow> string list" where
  "split_str sep [] = [[]]"
| "split_str sep (c # s) =
     (if sep \<noteq> [] \<and> starts_with (c # s) sep
      then [] # split_str sep (drop (length sep) (c # s))
      else (case split_str sep s of [] \<Rightarrow> [[c]] | p # ps \<Rightarrow> (c # p) # ps))"
  by pat_completeness auto
termination
  by (relation "measure (\<lambda>(sep, s). length s)") auto

lemma split_str_nonempty [simp]: "split_str sep s \<noteq> []"
  by (induction sep s rule: split_str.induct) (auto split: list.splits)

lemma join_split_str: "join sep (split_str sep s) = s"
proof (induction sep s rule: split_str.induct)
  case (1 sep)
  then show ?case by simp
next
  case (2 sep c s)
  show ?case
  proof (cases "sep \<noteq> [] \<and> starts_with (c # s) sep")
    case True
    let ?r = "drop (length sep) (c # s)"
    obtain p ps where r: "split_str sep ?r = p # ps"
      using split_str_nonempty [of sep ?r] by (cases "split_str sep ?r") auto
    have "join sep (p # ps) = ?r"
      using 2(1) [OF True] r by simp
    then have "join sep (split_str sep (c # s)) = sep @ ?r"
      using True r by simp
    also have "\<dots> = c # s"
      using True by (metis append_take_drop_id starts_with_def)
    finally show ?thesis .
  next
    case False
    obtain p ps where r: "split_str sep s = p # ps"
      using split_str_nonempty [of sep s] by (cases "split_str sep s") auto
    have "join sep (p # ps) = s"
      using 2(2) [OF False] r by simp
    then show ?thesis
      using False r by (cases ps) auto
  qed
qed

text \<open>\<open>s.split_whitespace()\<close>; \<open>w\<close> is the word read so far.\<close>

function split_ws :: "string \<Rightarrow> string \<Rightarrow> string list" where
  "split_ws w [] = (if w = [] then [] else [w])"
| "split_ws w (c # s) =
     (case find (starts_with (c # s)) ws_encodings of
        None \<Rightarrow> split_ws (w @ [c]) s
      | Some sp \<Rightarrow> (if w = [] then [] else [w]) @ split_ws [] (drop (length sp) (c # s)))"
  by pat_completeness auto
termination
proof (relation "measure (\<lambda>(w, s). length s)", simp, simp)
  fix w c s sp
  assume f: "find (starts_with (c # s)) ws_encodings = Some sp"
  then have "sp \<noteq> []"
    using find_SomeD [OF f] ws_encoding_nonempty by blast
  then show "(([], drop (length sp) (c # s)), w, c # s) \<in> measure (\<lambda>(w, s). length s)"
    by simp
qed

definition split_whitespace :: "string \<Rightarrow> string list" where
  "split_whitespace s = split_ws [] s"

text \<open>\<open>s.trim_start_matches(p)\<close> for a string and \<open>s.trim_end_matches(c)\<close> for a
  character.\<close>

function strip_prefixes :: "string \<Rightarrow> string \<Rightarrow> string" where
  "strip_prefixes p s =
     (if p \<noteq> [] \<and> starts_with s p then strip_prefixes p (drop (length p) s) else s)"
  by pat_completeness auto
termination
  by (relation "measure (\<lambda>(p, s). length s)") (auto simp: starts_with_iff)

declare strip_prefixes.simps [simp del]

definition strip_end_char :: "char \<Rightarrow> string \<Rightarrow> string" where
  "strip_end_char c s = rev (dropWhile (\<lambda>d. d = c) (rev s))"

lemma strip_prefixes_not: "p \<noteq> [] \<Longrightarrow> \<not> starts_with (strip_prefixes p s) p"
proof (induction p s rule: strip_prefixes.induct)
  case (1 p s)
  then show ?case
    by (cases "p \<noteq> [] \<and> starts_with s p") (auto simp: strip_prefixes.simps [of p s])
qed

lemma strip_end_char_last: "strip_end_char c s \<noteq> [] \<Longrightarrow> last (strip_end_char c s) \<noteq> c"
proof -
  let ?r = "dropWhile (\<lambda>d. d = c) (rev s)"
  assume "strip_end_char c s \<noteq> []"
  then have r: "?r \<noteq> []" by (simp add: strip_end_char_def)
  then have "hd ?r \<noteq> c" by (rule hd_dropWhile)
  then show ?thesis using r by (simp add: strip_end_char_def last_rev)
qed

section \<open>Characters of a UTF-8 string\<close>

definition is_cont :: "char \<Rightarrow> bool" where
  "is_cont c \<longleftrightarrow> 128 \<le> (of_char c :: nat) \<and> (of_char c :: nat) < 192"

text \<open>\<open>s.is_char_boundary(i)\<close> and the cut at the last boundary not past \<open>max\<close>.\<close>

definition is_char_boundary :: "string \<Rightarrow> nat \<Rightarrow> bool" where
  "is_char_boundary s i \<longleftrightarrow>
     i = 0 \<or> i = length s \<or> (i < length s \<and> \<not> is_cont (s ! i))"

text \<open>\<open>s.chars()\<close>: each character is a byte that is no continuation byte and the
  continuation bytes after it.\<close>

function utf8_chars :: "string \<Rightarrow> string list" where
  "utf8_chars [] = []"
| "utf8_chars (c # s) = (c # takeWhile is_cont s) # utf8_chars (dropWhile is_cont s)"
  by pat_completeness auto
termination
  by (relation "measure length") (auto simp: length_dropWhile_le le_imp_less_Suc)

definition char_count :: "string \<Rightarrow> nat" where
  "char_count s = length (utf8_chars s)"

definition take_chars :: "nat \<Rightarrow> string \<Rightarrow> string" where
  "take_chars n s = concat (take n (utf8_chars s))"

lemma concat_utf8_chars: "concat (utf8_chars s) = s"
  by (induction s rule: utf8_chars.induct) simp_all

lemma char_count_le: "char_count s \<le> length s"
  unfolding char_count_def
  by (induction s rule: utf8_chars.induct)
    (auto intro: order_trans [OF _ length_dropWhile_le])

lemma hd_concat_take_utf8:
  "concat (take n (utf8_chars s)) \<noteq> [] \<Longrightarrow> hd (concat (take n (utf8_chars s))) = hd s"
  by (cases s; cases n) auto

lemma utf8_chars_take: "utf8_chars (concat (take n (utf8_chars s))) = take n (utf8_chars s)"
proof (induction s arbitrary: n rule: utf8_chars.induct)
  case 1
  then show ?case by simp
next
  case (2 c s)
  show ?case
  proof (cases n)
    case 0
    then show ?thesis by simp
  next
    case (Suc m)
    let ?w = "takeWhile is_cont s" and ?x = "concat (take m (utf8_chars (dropWhile is_cont s)))"
    have nc: "\<not> is_cont (hd ?x)" if "?x \<noteq> []"
    proof -
      have "dropWhile is_cont s \<noteq> []" using that by (cases "dropWhile is_cont s") simp_all
      then show ?thesis
        using hd_concat_take_utf8 [OF that] hd_dropWhile by metis
    qed
    have "takeWhile is_cont ?x = [] \<and> dropWhile is_cont ?x = ?x"
      using nc by (cases "?x") (simp_all del: concat_eq_Nil_conv)
    then have "takeWhile is_cont (?w @ ?x) = ?w" "dropWhile is_cont (?w @ ?x) = ?x"
      by (metis append_Nil2 set_takeWhileD takeWhile_append2, metis dropWhile_append2 set_takeWhileD)
    then show ?thesis
      using Suc 2 [of m] by simp
  qed
qed

lemma char_count_take_chars: "char_count (take_chars n s) \<le> n"
  by (simp add: char_count_def take_chars_def utf8_chars_take)

section \<open>ASCII case, decimal numbers\<close>

definition ascii_lower_char :: "char \<Rightarrow> char" where
  "ascii_lower_char c =
     (if 65 \<le> (of_char c :: nat) \<and> (of_char c :: nat) \<le> 90
      then char_of ((of_char c :: nat) + 32) else c)"

definition to_ascii_lowercase :: "string \<Rightarrow> string" where
  "to_ascii_lowercase s = map ascii_lower_char s"

definition eq_ignore_ascii_case :: "string \<Rightarrow> string \<Rightarrow> bool" where
  "eq_ignore_ascii_case s t \<longleftrightarrow> to_ascii_lowercase s = to_ascii_lowercase t"

lemma ascii_lower_char_idem [simp]: "ascii_lower_char (ascii_lower_char c) = ascii_lower_char c"
  by (simp add: ascii_lower_char_def)

lemma to_ascii_lowercase_idem [simp]:
  "to_ascii_lowercase (to_ascii_lowercase s) = to_ascii_lowercase s"
  by (simp add: to_ascii_lowercase_def)

lemma to_ascii_lowercase_append [simp]:
  "to_ascii_lowercase (s @ t) = to_ascii_lowercase s @ to_ascii_lowercase t"
  by (simp add: to_ascii_lowercase_def)

definition is_ascii_digit :: "char \<Rightarrow> bool" where
  "is_ascii_digit c \<longleftrightarrow> 48 \<le> (of_char c :: nat) \<and> (of_char c :: nat) \<le> 57"

definition is_ascii_alphanumeric :: "char \<Rightarrow> bool" where
  "is_ascii_alphanumeric c \<longleftrightarrow> is_ascii_digit c
     \<or> (65 \<le> (of_char c :: nat) \<and> (of_char c :: nat) \<le> 90)
     \<or> (97 \<le> (of_char c :: nat) \<and> (of_char c :: nat) \<le> 122)"

definition ascii_tables :: unicode where
  "ascii_tables = \<lparr> lowercase = to_ascii_lowercase,
     alphanumeric = (\<lambda>s. case s of [c] \<Rightarrow> is_ascii_alphanumeric c | _ \<Rightarrow> False) \<rparr>"

lemma ascii_tables_sel [simp]: "lowercase ascii_tables = to_ascii_lowercase"
  by (simp add: ascii_tables_def)

fun show_nat :: "nat \<Rightarrow> string" where
  "show_nat n = (if n < 10 then [char_of (48 + n)]
     else show_nat (n div 10) @ [char_of (48 + n mod 10)])"

declare show_nat.simps [simp del]

definition show_int :: "int \<Rightarrow> string" where
  "show_int i = (if i < 0 then ''-'' @ show_nat (nat (- i)) else show_nat (nat i))"

lemma show_nat_nonempty [simp]: "show_nat n \<noteq> []"
  by (subst show_nat.simps) simp

text \<open>\<open>s.parse::<u64>()\<close>: an optional plus sign and at least one decimal digit, and the
  value must fit.\<close>

definition digit_value :: "char \<Rightarrow> nat" where
  "digit_value c = (of_char c :: nat) - 48"

definition decimal_value :: "string \<Rightarrow> nat" where
  "decimal_value s = foldl (\<lambda>n c. 10 * n + digit_value c) 0 s"

definition parse_u64 :: "string \<Rightarrow> nat option" where
  "parse_u64 s =
     (let d = (case s of c # r \<Rightarrow> if c = CHR 0x2B then r else s | [] \<Rightarrow> [])
      in if d \<noteq> [] \<and> list_all is_ascii_digit d \<and> decimal_value d < 2 ^ 64
         then Some (decimal_value d) else None)"

lemma digit_char:
  assumes "d < 10"
  shows "is_ascii_digit (char_of (48 + d))" "digit_value (char_of (48 + d)) = d"
    "(char_of (48 + d) :: char) \<noteq> CHR 0x2B"
proof -
  have o: "(of_char (char_of (48 + d) :: char) :: nat) = 48 + d"
    using assms by simp
  show "is_ascii_digit (char_of (48 + d))" "digit_value (char_of (48 + d)) = d"
    using assms unfolding is_ascii_digit_def digit_value_def o by auto
  show "(char_of (48 + d) :: char) \<noteq> CHR 0x2B"
  proof
    assume "(char_of (48 + d) :: char) = CHR 0x2B"
    then have "(48 + d :: nat) = of_char CHR 0x2B" using o by simp
    then show False by simp
  qed
qed

lemma show_nat_digits:
  "list_all is_ascii_digit (show_nat n) \<and> decimal_value (show_nat n) = n
    \<and> hd (show_nat n) \<noteq> CHR 0x2B"
proof (induction n rule: show_nat.induct)
  case (1 n)
  show ?case
  proof (cases "n < 10")
    case True
    then show ?thesis
      using digit_char [of n] by (simp add: show_nat.simps [of n] decimal_value_def)
  next
    case False
    have m: "n mod 10 < 10" by simp
    show ?thesis
      using 1 [OF False] False digit_char [OF m]
      by (simp add: show_nat.simps [of n] decimal_value_def)
  qed
qed

lemma parse_u64_show_nat: "n < 2 ^ 64 \<Longrightarrow> parse_u64 (show_nat n) = Some n"
  using show_nat_digits [of n] show_nat_nonempty [of n]
  by (cases "show_nat n") (auto simp: parse_u64_def Let_def)

text \<open>\<open>s.parse::<i64>()\<close>: an optional sign and at least one digit, in range.\<close>

definition parse_i64 :: "string \<Rightarrow> int option" where
  "parse_i64 s =
     (let neg = (s \<noteq> [] \<and> hd s = CHR 0x2D);
          d = (if s \<noteq> [] \<and> (hd s = CHR 0x2B \<or> hd s = CHR 0x2D) then tl s else s);
          v = (if neg then - int (decimal_value d) else int (decimal_value d))
      in if d \<noteq> [] \<and> list_all is_ascii_digit d \<and> - (2 ^ 63) \<le> v \<and> v < 2 ^ 63
         then Some v else None)"

lemma decimal_value_show_nat [simp]: "decimal_value (show_nat n) = n"
  using show_nat_digits [of n] by simp

lemma show_nat_list_digits [simp]: "list_all is_ascii_digit (show_nat n)"
  using show_nat_digits [of n] by simp

lemma digit_not_sign: "is_ascii_digit c \<Longrightarrow> c \<noteq> CHR 0x2B \<and> c \<noteq> CHR 0x2D \<and> c \<noteq> CHR 0x78"
  by (auto simp: is_ascii_digit_def)

lemma show_nat_hd: "is_ascii_digit (hd (show_nat n))"
  using show_nat_list_digits [of n] show_nat_nonempty [of n]
  by (cases "show_nat n") (simp_all del: show_nat_list_digits)

lemma parse_i64_show_nat:
  assumes "n < 2 ^ 63"
  shows "parse_i64 (show_nat n) = Some (int n)"
proof -
  have "int n < 2 ^ 63" using assms by (metis of_nat_less_iff of_nat_numeral of_nat_power)
  then show ?thesis
    using digit_not_sign [OF show_nat_hd [of n]] by (simp add: parse_i64_def Let_def)
qed

lemma parse_i64_not_digits:
  assumes "x \<in> set (tl s)" "\<not> is_ascii_digit x"
  shows "parse_i64 s = None"
  using assms by (cases s) (auto simp: parse_i64_def Let_def list_all_iff)

text \<open>\<open>s.split_once(c)\<close> at the first \<open>c\<close>.\<close>

definition split_once :: "char \<Rightarrow> string \<Rightarrow> (string \<times> string) option" where
  "split_once c s =
     (if c \<in> set s
      then Some (takeWhile (\<lambda>d. d \<noteq> c) s, tl (dropWhile (\<lambda>d. d \<noteq> c) s)) else None)"

lemma split_once_Some: "split_once c s = Some (a, b) \<longleftrightarrow> s = a @ c # b \<and> c \<notin> set a"
proof (induction s arbitrary: a)
  case Nil
  then show ?case by (simp add: split_once_def)
next
  case (Cons x s)
  show ?case
  proof (cases "x = c")
    case True
    then show ?thesis by (cases a) (auto simp: split_once_def)
  next
    case False
    then show ?thesis
      using Cons [of "tl a"] by (cases a) (auto simp: split_once_def)
  qed
qed

text \<open>\<open>s.strip_suffix(p)\<close>.\<close>

definition strip_suffix :: "string \<Rightarrow> string \<Rightarrow> string option" where
  "strip_suffix s p = (if ends_with s p then Some (take (length s - length p) s) else None)"

lemma strip_suffix_Some: "strip_suffix s p = Some t \<longleftrightarrow> s = t @ p"
  by (auto simp: strip_suffix_def ends_with_iff)

section \<open>Key/value stores\<close>

text \<open>What a client of a map relies on: reading after writing and after deleting.\<close>

locale kv_store =
  fixes lookup :: "'m \<Rightarrow> 'k \<Rightarrow> 'v option"
    and put :: "'k \<Rightarrow> 'v \<Rightarrow> 'm \<Rightarrow> 'm"
    and del :: "'k \<Rightarrow> 'm \<Rightarrow> 'm"
  assumes lookup_put: "lookup (put k v m) k' = (if k' = k then Some v else lookup m k')"
    and lookup_del: "lookup (del k m) k' = (if k' = k then None else lookup m k')"
begin

lemma put_same: "lookup (put k v m) k = Some v"
  by (simp add: lookup_put)

lemma put_other: "k' \<noteq> k \<Longrightarrow> lookup (put k v m) k' = lookup m k'"
  by (simp add: lookup_put)

lemma del_all: "lookup (fold del ks m) k = (if k \<in> set ks then None else lookup m k)"
  by (induction ks arbitrary: m) (auto simp: lookup_del)

lemma put_all_other:
  "k \<notin> fst ` set kvs \<Longrightarrow> lookup (fold (\<lambda>(k, v). put k v) kvs m) k = lookup m k"
  by (induction kvs arbitrary: m) (auto simp: lookup_put)

lemma put_all:
  "distinct (map fst kvs) \<Longrightarrow> lookup (fold (\<lambda>(k, v). put k v) kvs m) k =
     (case map_of kvs k of None \<Rightarrow> lookup m k | Some v \<Rightarrow> Some v)"
proof (induction kvs arbitrary: m)
  case Nil
  then show ?case by simp
next
  case (Cons kv kvs)
  obtain k' v where kv: "kv = (k', v)" by force
  with Cons have "k' \<notin> fst ` set kvs" by simp
  then have "map_of kvs k' = None" by (simp add: map_of_eq_None_iff)
  with Cons kv show ?case by (auto simp: lookup_put split: option.splits)
qed

end

text \<open>
  The relay's \<open>HashMap\<close>s are association lists: \<open>insert\<close> is \<open>AList.update\<close>,
  \<open>remove\<close> is \<open>AList.delete\<close>. The order of the pairs stands for the map's unspecified
  iteration order; no theorem depends on it.
\<close>

interpretation al: kv_store map_of AList.update AList.delete
  by unfold_locales (simp_all add: update_conv' delete_conv')

section \<open>Bounded logs\<close>

text \<open>
  \<open>lastn n xs\<close> is the newest \<open>n\<close> entries. A bounded log drops its oldest entry when it
  is full and then appends; \<open>admit\<close> says whether a record is taken at all, \<open>norm\<close> what
  is stored of it.
\<close>

definition lastn :: "nat \<Rightarrow> 'a list \<Rightarrow> 'a list" where
  "lastn n xs = drop (length xs - n) xs"

lemma length_lastn [simp]: "length (lastn n xs) = min n (length xs)"
  by (simp add: lastn_def)

lemma lastn_all: "length xs \<le> n \<Longrightarrow> lastn n xs = xs"
  by (simp add: lastn_def)

lemma lastn_lastn_append: "lastn n (lastn n xs @ ys) = lastn n (xs @ ys)"
proof (cases "length xs \<le> n")
  case True
  then show ?thesis by (simp add: lastn_all)
next
  case False
  then show ?thesis
    by (simp add: lastn_def) (metis (no_types, opaque_lifting) False Nat.diff_diff_right add.commute
        diff_diff_cancel diff_le_mono2 drop_append drop_drop linorder_le_cases
        length_drop add_diff_inverse_nat nat_le_linear)
qed

locale bounded_log =
  fixes entries :: "'s \<Rightarrow> 'e list"
    and push :: "'r \<Rightarrow> 's \<Rightarrow> 's"
    and admit :: "'r \<Rightarrow> 's \<Rightarrow> bool"
    and norm :: "'r \<Rightarrow> 'e"
    and cap :: nat
  assumes push_admitted: "admit r s \<Longrightarrow> entries (push r s) =
      (if cap \<le> length (entries s) then tl (entries s) else entries s) @ [norm r]"
    and push_refused: "\<not> admit r s \<Longrightarrow> entries (push r s) = entries s"
    and cap_pos: "0 < cap"
begin

lemma push_bound: "length (entries s) \<le> cap \<Longrightarrow> length (entries (push r s)) \<le> cap"
  using cap_pos by (cases "admit r s") (auto simp: push_admitted push_refused)

lemma run_bound: "length (entries s) \<le> cap \<Longrightarrow> length (entries (fold push rs s)) \<le> cap"
  by (induction rs arbitrary: s) (auto simp: push_bound)

lemma push_lastn:
  assumes "length (entries s) \<le> cap" "admit r s"
  shows "entries (push r s) = lastn cap (entries s @ [norm r])"
proof (cases "cap \<le> length (entries s)")
  case True
  with assms have "length (entries s) = cap" by simp
  with assms True cap_pos show ?thesis
    by (cases "entries s") (auto simp: push_admitted lastn_def)
next
  case False
  with assms show ?thesis by (simp add: push_admitted lastn_all)
qed

end

text \<open>A log that takes every record holds exactly the newest \<open>cap\<close> of what it was given.\<close>

locale total_log = bounded_log +
  assumes admit_all: "admit r s"
begin

lemma run_lastn:
  "length (entries s) \<le> cap \<Longrightarrow>
     entries (fold push rs s) = lastn cap (entries s @ map norm rs)"
proof (induction rs arbitrary: s)
  case Nil
  then show ?case by (simp add: lastn_all)
next
  case (Cons r rs)
  then show ?case
    by (simp add: push_bound push_lastn admit_all lastn_lastn_append)
qed

end

end
