(* ===== verification/Json.thy ===== *)
theory Json
  imports Prelude
begin

text \<open>
  JSON values as the code sees them through \<open>serde_json::Value\<close>. A number is an integer
  or a float, and a float is its literal, which nothing here computes with. An object is the
  list of its entries in key order (the crate's default map is ordered by key), built only
  by \<open>obj_insert\<close> and \<open>obj_remove\<close>, which keep the keys sorted and distinct
  (\<open>wf_obj\<close>), so that equal objects are equal lists.
\<close>

datatype jnum = JInt int | JFloat string

datatype json =
    JNull
  | JBool bool
  | JNum jnum
  | JStr string
  | JArr "json list"
  | JObj "(string \<times> json) list"

type_synonym obj = "(string \<times> json) list"

section \<open>Objects\<close>

fun obj_insert :: "string \<Rightarrow> 'v \<Rightarrow> (string \<times> 'v) list \<Rightarrow> (string \<times> 'v) list" where
  "obj_insert k v [] = [(k, v)]"
| "obj_insert k v ((k', v') # m) =
     (if k = k' then (k, v) # m
      else if k < k' then (k, v) # (k', v') # m
      else (k', v') # obj_insert k v m)"

definition obj_remove :: "string \<Rightarrow> (string \<times> 'v) list \<Rightarrow> (string \<times> 'v) list" where
  "obj_remove k m = filter (\<lambda>(k', v). k' \<noteq> k) m"

lemma map_of_obj_insert: "map_of (obj_insert k v m) k' = (if k' = k then Some v else map_of m k')"
  by (induction k v m rule: obj_insert.induct) auto

lemma map_of_obj_remove: "map_of (obj_remove k m) k' = (if k' = k then None else map_of m k')"
  by (induction m) (auto simp: obj_remove_def)

interpretation jo: kv_store map_of obj_insert obj_remove
  by unfold_locales (simp_all add: map_of_obj_insert map_of_obj_remove)

definition obj_keys :: "(string \<times> 'v) list \<Rightarrow> string set" where
  "obj_keys m = dom (map_of m)"

lemma obj_keys_Nil [simp]: "obj_keys [] = {}"
  by (simp add: obj_keys_def)

lemma obj_keys_Cons [simp]: "obj_keys ((k, v) # m) = insert k (obj_keys m)"
  by (simp add: obj_keys_def dom_fun_upd)

lemma obj_keys_set: "obj_keys m = set (map fst m)"
  by (simp add: obj_keys_def dom_map_of_conv_image_fst)

lemma obj_keys_insert [simp]: "obj_keys (obj_insert k v m) = insert k (obj_keys m)"
  by (auto simp: obj_keys_def map_of_obj_insert dom_def)

lemma obj_keys_remove [simp]: "obj_keys (obj_remove k m) = obj_keys m - {k}"
  by (auto simp: obj_keys_def map_of_obj_remove dom_def split: if_splits)

lemma find_key_None: "find P (map fst m) = None \<longleftrightarrow> (\<forall>k \<in> obj_keys m. \<not> P k)"
  by (auto simp: find_None_iff obj_keys_set)

definition wf_obj :: "(string \<times> 'v) list \<Rightarrow> bool" where
  "wf_obj m \<longleftrightarrow> sorted_wrt (<) (map fst m)"

lemma wf_obj_insert: "wf_obj m \<Longrightarrow> wf_obj (obj_insert k v m)"
proof (induction k v m rule: obj_insert.induct)
  case (1 k v)
  then show ?case by (simp add: wf_obj_def)
next
  case (2 k v k' v' m)
  show ?case
  proof (cases "k = k' \<or> k < k'")
    case True
    with "2.prems" show ?thesis by (auto simp: wf_obj_def)
  next
    case False
    then have "k' < k" by auto
    moreover have "wf_obj (obj_insert k v m)"
      using "2.IH" "2.prems" False by (simp add: wf_obj_def)
    ultimately show ?thesis
      using False "2.prems" obj_keys_insert [of k v m, unfolded obj_keys_set] by (auto simp: wf_obj_def)
  qed
qed

lemma wf_obj_remove: "wf_obj m \<Longrightarrow> wf_obj (obj_remove k m)"
  by (auto simp: wf_obj_def obj_remove_def sorted_wrt_map intro: sorted_wrt_filter)

text \<open>Two well-formed objects with the same entries are the same value.\<close>

lemma obj_of_keys:
  assumes "distinct (map fst m)"
  shows "map (\<lambda>k. (k, the (map_of m k))) (map fst m) = m"
  unfolding map_map
proof (rule map_idI)
  fix x assume "x \<in> set m"
  with assms show "((\<lambda>k. (k, the (map_of m k))) \<circ> fst) x = x"
    by (cases x) simp
qed

lemma wf_obj_ext:
  assumes "wf_obj m" "wf_obj m'" "map_of m = map_of m'"
  shows "m = m'"
proof -
  have d: "distinct (map fst m)" "distinct (map fst m')"
    using assms by (auto simp: wf_obj_def strict_sorted_iff)
  have "set (map fst m) = set (map fst m')"
    using assms(3) by (metis dom_map_of_conv_image_fst list.set_map)
  then have "map fst m = map fst m'"
    using assms by (simp add: strict_sorted_equal wf_obj_def)
  then show "m = m'"
    using obj_of_keys [OF d(1)] obj_of_keys [OF d(2)] assms(3) by simp
qed

section \<open>Reading values\<close>

fun as_str :: "json \<Rightarrow> string option" where
  "as_str (JStr s) = Some s"
| "as_str _ = None"

fun as_bool :: "json \<Rightarrow> bool option" where
  "as_bool (JBool b) = Some b"
| "as_bool _ = None"

fun as_u64 :: "json \<Rightarrow> nat option" where
  "as_u64 (JNum (JInt i)) = (if 0 \<le> i \<and> i < 2 ^ 64 then Some (nat i) else None)"
| "as_u64 _ = None"

fun as_i64 :: "json \<Rightarrow> int option" where
  "as_i64 (JNum (JInt i)) = (if - (2 ^ 63) \<le> i \<and> i < 2 ^ 63 then Some i else None)"
| "as_i64 _ = None"

fun as_array :: "json \<Rightarrow> json list option" where
  "as_array (JArr xs) = Some xs"
| "as_array _ = None"

fun as_object :: "json \<Rightarrow> obj option" where
  "as_object (JObj m) = Some m"
| "as_object _ = None"

definition is_null :: "json \<Rightarrow> bool" where
  "is_null v \<longleftrightarrow> v = JNull"

definition is_string :: "json \<Rightarrow> bool" where
  "is_string v \<longleftrightarrow> as_str v \<noteq> None"

definition is_object :: "json \<Rightarrow> bool" where
  "is_object v \<longleftrightarrow> as_object v \<noteq> None"

text \<open>\<open>v.get(k)\<close>, \<open>v[k]\<close> (null where the key is missing) and \<open>v.pointer("/a/b")\<close>
  for names that are not array indices.\<close>

fun jget :: "json \<Rightarrow> string \<Rightarrow> json option" where
  "jget (JObj m) k = map_of m k"
| "jget _ k = None"

definition jidx :: "json \<Rightarrow> string \<Rightarrow> json" where
  "jidx v k = unwrap_or JNull (jget v k)"

fun jpointer :: "json \<Rightarrow> string list \<Rightarrow> json option" where
  "jpointer v [] = Some v"
| "jpointer v (k # ks) = (case jget v k of None \<Rightarrow> None | Some w \<Rightarrow> jpointer w ks)"

definition get_str :: "json \<Rightarrow> string \<Rightarrow> string option" where
  "get_str v k = Option.bind (jget v k) as_str"

lemma as_str_Some_iff [simp]: "as_str v = Some s \<longleftrightarrow> v = JStr s"
  by (cases v) auto

lemma as_bool_Some_iff [simp]: "as_bool v = Some b \<longleftrightarrow> v = JBool b"
  by (cases v) auto

lemma as_object_Some_iff [simp]: "as_object v = Some m \<longleftrightarrow> v = JObj m"
  by (cases v) auto

lemma as_array_Some_iff [simp]: "as_array v = Some xs \<longleftrightarrow> v = JArr xs"
  by (cases v) auto

lemma get_str_Some_iff: "get_str v k = Some s \<longleftrightarrow> jget v k = Some (JStr s)"
  by (auto simp: get_str_def bind_eq_Some_conv)

section \<open>Building values\<close>

definition obj_of :: "(string \<times> 'v) list \<Rightarrow> (string \<times> 'v) list" where
  "obj_of kvs = fold (\<lambda>(k, v). obj_insert k v) kvs []"

text \<open>\<open>json!({...})\<close>, \<open>v[k] = x\<close> on an object, and a string or integer literal.\<close>

definition jobj :: "(string \<times> json) list \<Rightarrow> json" where
  "jobj kvs = JObj (obj_of kvs)"

fun jset :: "string \<Rightarrow> json \<Rightarrow> json \<Rightarrow> json" where
  "jset k x (JObj m) = JObj (obj_insert k x m)"
| "jset k x v = v"

definition jstr_opt :: "string option \<Rightarrow> json" where
  "jstr_opt s = (case s of None \<Rightarrow> JNull | Some t \<Rightarrow> JStr t)"

lemma map_of_obj_of: "map_of (obj_of kvs) k = map_of (rev kvs) k"
  unfolding obj_of_def
  by (induction kvs rule: rev_induct) (auto simp: map_of_obj_insert)

lemma wf_obj_of: "wf_obj (obj_of kvs)"
  unfolding obj_of_def
  by (induction kvs rule: rev_induct) (auto simp: wf_obj_insert, simp add: wf_obj_def)

lemma obj_keys_of [simp]: "obj_keys (obj_of kvs) = fst ` set kvs"
  unfolding obj_of_def
proof (induction kvs rule: rev_induct)
  case Nil
  then show ?case by simp
next
  case (snoc kv kvs)
  then show ?case by (cases kv) auto
qed

lemma jget_jobj [simp]: "jget (jobj kvs) k = map_of (rev kvs) k"
  by (simp add: jobj_def map_of_obj_of)

lemma jget_jset_jobj: "jget (jset k x (JObj m)) k' = (if k' = k then Some x else map_of m k')"
  by (simp add: map_of_obj_insert)

lemma jget_JNull [simp]: "jget JNull k = None"
  by simp

lemma is_object_jobj [simp]: "is_object (jobj kvs)"
  by (simp add: is_object_def jobj_def)

end
