(* ===== verification/Url.thy ===== *)
theory Url
  imports Prelude
begin

text \<open>
  What the code reads of a URL. The parser itself (the \<open>url\<close> crate) is a parameter of the
  definitions that use it, a value of type \<open>url_parser\<close>; a parsed URL is a record of the
  parts that the crate's accessors return.
\<close>

datatype url_host = Domain string | IpAddress string

record parsed_url =
  u_scheme :: string
  u_host :: "url_host option"
  u_path :: string
  u_cannot_be_a_base :: bool
  u_username :: string
  u_password :: "string option"
  u_port :: "nat option"

type_synonym url_parser = "string \<Rightarrow> parsed_url option"

fun host_text :: "url_host \<Rightarrow> string" where
  "host_text (Domain d) = d"
| "host_text (IpAddress a) = a"

definition host_str :: "parsed_url \<Rightarrow> string option" where
  "host_str u = map_option host_text (u_host u)"

definition is_web :: "parsed_url \<Rightarrow> bool" where
  "is_web u \<longleftrightarrow> u_scheme u = ''http'' \<or> u_scheme u = ''https''"

text \<open>A parser for the witnesses: \<open>scheme://host/path\<close> with a domain as host.\<close>

definition simple_parser :: url_parser where
  "simple_parser s =
     (case split_str ''://'' s of
        [sch, rest] \<Rightarrow>
          Some \<lparr> u_scheme = sch, u_host = Some (Domain (takeWhile (\<lambda>c. c \<noteq> CHR 0x2F) rest)),
                 u_path = dropWhile (\<lambda>c. c \<noteq> CHR 0x2F) rest, u_cannot_be_a_base = False,
                 u_username = [], u_password = None, u_port = None \<rparr>
      | _ \<Rightarrow> None)"

end
