(* ===== verification/SitePolicy.thy ===== *)
theory SitePolicy
  imports Json Url
begin

text \<open>
  Per-site permissions, \<open>cli/src/native/site_policy.rs\<close>: what kind of field or control an
  action touches, which site a URL or a pattern names, and the layered decision
  \<open>decide\<close> (managed policy, the person's decisions, the policy file, the defaults).
  The parsed contents of \<open>sensitive_sites.json\<close>, the environment variable
  \<open>CHROME_USE_SENSITIVE_SITES\<close> and the Unicode tables are in a \<open>site_env\<close>.
\<close>

section \<open>Word lists\<close>

definition DEFAULT_ASK :: "string list" where
  "DEFAULT_ASK = [''payment_input'', ''purchase'']"

definition KINDS :: "string list" where
  "KINDS = [''payment_input'', ''purchase'', ''password_input'', ''download'']"

definition PAYMENT_IDENTIFIERS :: "string list" where
  "PAYMENT_IDENTIFIERS =
     [''cardnumber'', ''card-number'', ''card_number'', ''ccnumber'', ''cc-number'', ''cc_number'',
      ''cvc'', ''cvv'', ''exp-date'', ''expdate'', ''expiry'', ''expiration'', ''cc-exp'', ''cc_exp'']"

definition PAYMENT_NAMES :: "string list" where
  "PAYMENT_NAMES =
     [''card number'', ''credit card'', ''debit card'', ''card verification'', ''cvc'', ''cvv'',
      ''expiration'', ''expiry'', [CHR 0xE5, CHR 0x8D, CHR 0xA1, CHR 0xE5, CHR 0x8F, CHR 0xB7], [CHR 0xE4, CHR 0xBF, CHR 0xA1, CHR 0xE7, CHR 0x94, CHR 0xA8, CHR 0xE5, CHR 0x8D, CHR 0xA1], [CHR 0xE6, CHR 0x9C, CHR 0x89, CHR 0xE6, CHR 0x95, CHR 0x88, CHR 0xE6, CHR 0x9C, CHR 0x9F]]"

definition PAYMENT_AMBIGUOUS :: "string list" where
  "PAYMENT_AMBIGUOUS =
     [''securitycode'', ''security-code'', ''security_code'', ''security code'', ''csc'', [CHR 0xE5, CHR 0xAE, CHR 0x89, CHR 0xE5, CHR 0x85, CHR 0xA8, CHR 0xE7, CHR 0xA0, CHR 0x81]]"

definition ONE_TIME_CODE_MARKERS :: "string list" where
  "ONE_TIME_CODE_MARKERS =
     [''one-time-code'', ''one-time'', ''one time'', ''otp'', ''totp'', ''mfa'', ''2fa'', ''two-factor'',
      ''two factor'', ''2-step'', ''authenticator'', ''verification'', ''6-digit'', ''6 digit'',
      ''six-digit'', ''six digit'', [CHR 0xE9, CHR 0xAA, CHR 0x8C, CHR 0xE8, CHR 0xAF, CHR 0x81, CHR 0xE7, CHR 0xA0, CHR 0x81], [CHR 0xE5, CHR 0x8A, CHR 0xA8, CHR 0xE6, CHR 0x80, CHR 0x81, CHR 0xE7, CHR 0xA0, CHR 0x81], [CHR 0xE5, CHR 0x8A, CHR 0xA8, CHR 0xE6, CHR 0x80, CHR 0x81, CHR 0xE5, CHR 0x8F, CHR 0xA3, CHR 0xE4, CHR 0xBB, CHR 0xA4], [CHR 0xE6, CHR 0xA0, CHR 0xA1, CHR 0xE9, CHR 0xAA, CHR 0x8C, CHR 0xE7, CHR 0xA0, CHR 0x81], [CHR 0xE6, CHR 0x95, CHR 0xB0, CHR 0xE5, CHR 0xAD, CHR 0x97, CHR 0xE5, CHR 0xAE, CHR 0x89, CHR 0xE5, CHR 0x85, CHR 0xA8, CHR 0xE7, CHR 0xA0, CHR 0x81],
      (''6 '' @ [CHR 0xE4, CHR 0xBD, CHR 0x8D]), (''6'' @ [CHR 0xE4, CHR 0xBD, CHR 0x8D]), [CHR 0xE5, CHR 0x85, CHR 0xAD, CHR 0xE4, CHR 0xBD, CHR 0x8D]]"

definition PASSWORD_IDENTIFIERS :: "string list" where
  "PASSWORD_IDENTIFIERS = [''password'', ''passwd'', ''passcode'', ''otp'', ''one-time-code'']"

definition PASSWORD_NAMES :: "string list" where
  "PASSWORD_NAMES =
     [''password'', ''passcode'', ''one-time code'', ''one time code'', ''verification code'',
      [CHR 0xE5, CHR 0xAF, CHR 0x86, CHR 0xE7, CHR 0xA0, CHR 0x81], [CHR 0xE9, CHR 0xAA, CHR 0x8C, CHR 0xE8, CHR 0xAF, CHR 0x81, CHR 0xE7, CHR 0xA0, CHR 0x81], [CHR 0xE5, CHR 0x8F, CHR 0xA3, CHR 0xE4, CHR 0xBB, CHR 0xA4]]"

definition PURCHASE_PHRASES :: "string list" where
  "PURCHASE_PHRASES =
     [''buy now'', ''place order'', ''place your order'', ''complete purchase'', ''complete order'',
      ''confirm purchase'', ''confirm order'', ''confirm payment'', ''submit order'',
      ''submit payment'', ''pay now'', ''make payment'', ''proceed to pay'', [CHR 0xE7, CHR 0xAB, CHR 0x8B, CHR 0xE5, CHR 0x8D, CHR 0xB3, CHR 0xE8, CHR 0xB4, CHR 0xAD, CHR 0xE4, CHR 0xB9, CHR 0xB0], [CHR 0xE7, CHR 0xAB, CHR 0x8B, CHR 0xE5, CHR 0x8D, CHR 0xB3, CHR 0xE6, CHR 0x94, CHR 0xAF, CHR 0xE4, CHR 0xBB, CHR 0x98],
      [CHR 0xE6, CHR 0x8F, CHR 0x90, CHR 0xE4, CHR 0xBA, CHR 0xA4, CHR 0xE8, CHR 0xAE, CHR 0xA2, CHR 0xE5, CHR 0x8D, CHR 0x95], [CHR 0xE7, CHR 0xA1, CHR 0xAE, CHR 0xE8, CHR 0xAE, CHR 0xA4, CHR 0xE6, CHR 0x94, CHR 0xAF, CHR 0xE4, CHR 0xBB, CHR 0x98], [CHR 0xE7, CHR 0xA1, CHR 0xAE, CHR 0xE8, CHR 0xAE, CHR 0xA4, CHR 0xE4, CHR 0xBB, CHR 0x98, CHR 0xE6, CHR 0xAC, CHR 0xBE], [CHR 0xE5, CHR 0x8E, CHR 0xBB, CHR 0xE6, CHR 0x94, CHR 0xAF, CHR 0xE4, CHR 0xBB, CHR 0x98], [CHR 0xE5, CHR 0x8E, CHR 0xBB, CHR 0xE4, CHR 0xBB, CHR 0x98, CHR 0xE6, CHR 0xAC, CHR 0xBE], [CHR 0xE4, CHR 0xBB, CHR 0x98, CHR 0xE6, CHR 0xAC, CHR 0xBE], [CHR 0xE4, CHR 0xB8, CHR 0x8B, CHR 0xE5, CHR 0x8D, CHR 0x95], [CHR 0xE8, CHR 0xB3, CHR 0xBC, CHR 0xE5, CHR 0x85, CHR 0xA5, CHR 0xE3, CHR 0x81, CHR 0x99, CHR 0xE3, CHR 0x82, CHR 0x8B],
      [CHR 0xE6, CHR 0xB3, CHR 0xA8, CHR 0xE6, CHR 0x96, CHR 0x87, CHR 0xE3, CHR 0x82, CHR 0x92, CHR 0xE7, CHR 0xA2, CHR 0xBA, CHR 0xE5, CHR 0xAE, CHR 0x9A], [CHR 0xE6, CHR 0xB3, CHR 0xA8, CHR 0xE6, CHR 0x96, CHR 0x87, CHR 0xE7, CHR 0xA2, CHR 0xBA, CHR 0xE5, CHR 0xAE, CHR 0x9A], [CHR 0xE6, CHR 0x94, CHR 0xAF, CHR 0xE6, CHR 0x89, CHR 0x95, CHR 0xE3, CHR 0x81, CHR 0x86]]"

definition PURCHASE_WORDS :: "string list" where
  "PURCHASE_WORDS =
     [''buy'', ''pay'', ''purchase'', ''subscribe'', [CHR 0xE8, CHR 0xB4, CHR 0xAD, CHR 0xE4, CHR 0xB9, CHR 0xB0], [CHR 0xE6, CHR 0x94, CHR 0xAF, CHR 0xE4, CHR 0xBB, CHR 0x98], [CHR 0xE8, CHR 0xB3, CHR 0xBC, CHR 0xE5, CHR 0x85, CHR 0xA5]]"

section \<open>Kinds of fields and controls\<close>

text \<open>\<open>split(|c| !c.is_alphanumeric())\<close>; \<open>w\<close> is the word read so far.\<close>

fun words_of :: "unicode \<Rightarrow> string \<Rightarrow> string list \<Rightarrow> string list" where
  "words_of U w [] = [w]"
| "words_of U w (c # cs) =
     (if alphanumeric U c then words_of U (w @ c) cs else w # words_of U [] cs)"

definition has_word :: "unicode \<Rightarrow> string \<Rightarrow> string \<Rightarrow> bool" where
  "has_word U haystack word \<longleftrightarrow> word \<in> set (words_of U [] (utf8_chars haystack))"

definition mentions :: "string list \<Rightarrow> string \<Rightarrow> bool" where
  "mentions ps t \<longleftrightarrow> list_ex (contains t) ps"

definition field_kind_from_text :: "unicode \<Rightarrow> string \<Rightarrow> string option" where
  "field_kind_from_text U text =
     (let t = lowercase U text;
          one_time_code = mentions ONE_TIME_CODE_MARKERS t
      in if trim t = [] then None
         else if mentions (PAYMENT_IDENTIFIERS @ PAYMENT_NAMES) t
              \<or> (\<not> one_time_code \<and> mentions PAYMENT_AMBIGUOUS t)
           then Some ''payment_input''
         else if one_time_code then Some ''password_input''
         else if contains t ''type=password'' \<or> contains t (''type='' @ [CHR 0x22] @ ''password'' @ [CHR 0x22])
              \<or> mentions (PASSWORD_IDENTIFIERS @ PASSWORD_NAMES) t \<or> has_word U t ''pin''
           then Some ''password_input''
         else None)"

text \<open>
  The loop of \<open>field_kind\<close> over the \<open>[name, value, ...]\<close> list. Its state is whether a
  password mark was seen and the text gathered; \<open>Inl\<close> is the early return for a
  \<open>cc-*\<close> token. A name without a value ends the list.
\<close>

fun autocomplete_tokens ::
  "string list \<Rightarrow> bool \<times> string list \<Rightarrow> string + bool \<times> string list" where
  "autocomplete_tokens [] st = Inr st"
| "autocomplete_tokens (token # ts) (password, text) =
     (if starts_with token ''cc-'' then Inl ''payment_input''
      else autocomplete_tokens ts
        (password \<or> token \<in> {''current-password'', ''new-password'', ''one-time-code''},
         if token = ''one-time-code'' then text @ [''one-time-code''] else text))"

definition field_attribute ::
  "unicode \<Rightarrow> string \<Rightarrow> string \<Rightarrow> bool \<times> string list \<Rightarrow> string + bool \<times> string list" where
  "field_attribute U key raw st =
     (let value = lowercase U raw; (password, text) = st
      in if key = ''autocomplete'' then autocomplete_tokens (split_whitespace value) st
         else if key = ''type'' \<and> value = ''password'' then Inr (True, text)
         else if key = ''maxlength'' \<and> trim value = ''6'' then Inr (password, text @ [''6-digit''])
         else if key \<in> {''name'', ''id'', ''data-elements-stable-field-name'', ''aria-label'',
                         ''placeholder'', ''title''}
           then Inr (password, text @ [value])
         else Inr st)"

fun field_attributes ::
  "unicode \<Rightarrow> string list \<Rightarrow> bool \<times> string list \<Rightarrow> string + bool \<times> string list" where
  "field_attributes U (key # value # rest) st =
     and_then (field_attribute U key value st) (field_attributes U rest)"
| "field_attributes U _ st = Inr st"

definition field_kind :: "unicode \<Rightarrow> string list \<Rightarrow> string list \<Rightarrow> string option" where
  "field_kind U attrs names =
     (case field_attributes U attrs (False, map (lowercase U) names) of
        Inl kind \<Rightarrow> Some kind
      | Inr (password, text) \<Rightarrow>
          (case field_kind_from_text U (join [CHR 0x0A] text) of
             Some kind \<Rightarrow>
               if kind = ''payment_input'' then Some ''payment_input'' else Some ''password_input''
           | None \<Rightarrow> if password then Some ''password_input'' else None))"

definition is_purchase_name :: "unicode \<Rightarrow> string \<Rightarrow> bool" where
  "is_purchase_name U name \<longleftrightarrow>
     (let n = lowercase U (trim name)
      in n \<noteq> [] \<and> char_count n \<le> 80
         \<and> (mentions PURCHASE_PHRASES n
            \<or> list_ex (\<lambda>w. n = w \<or> starts_with n (w @ '' '')) PURCHASE_WORDS))"

section \<open>Categories, targets and sites\<close>

definition category_of :: "string \<Rightarrow> json \<Rightarrow> string option" where
  "category_of action cmd =
     (let has_url = (case get_str cmd ''url'' of None \<Rightarrow> False | Some u \<Rightarrow> trim u \<noteq> [])
      in if action = ''navigate'' then Some ''navigation''
         else if action \<in> {''tab_new'', ''window_new'', ''a11y''} \<and> has_url then Some ''navigation''
         else if action \<in> {''click'', ''dblclick'', ''tap'', ''check'', ''uncheck'', ''select'',
                           ''multiselect'', ''drag'', ''do'', ''pick''} then Some ''click''
         else if action \<in> {''fill'', ''type'', ''inserttext'', ''keyboard'', ''press'', ''form_fill'',
                           ''setvalue'', ''paste'', ''select_text''} then Some ''typing''
         else if action = ''upload'' then Some ''upload''
         else if action \<in> {''download'', ''download_url''} then Some ''download''
         else None)"

definition target_url :: "string \<Rightarrow> json \<Rightarrow> string option" where
  "target_url action cmd =
     (if action \<in> {''navigate'', ''tab_new'', ''window_new'', ''a11y'', ''download_url'', ''read''}
      then filter_opt (\<lambda>u. u \<noteq> []) (map_option trim (get_str cmd ''url''))
      else None)"

definition host_of :: "unicode \<Rightarrow> url_parser \<Rightarrow> string \<Rightarrow> string option" where
  "host_of U parse raw =
     (let url = trim raw;
          candidate = (if contains url ''://'' then Some url
                       else if list_ex (starts_with url)
                          [''about:'', ''data:'', ''javascript:'', ''chrome:'', ''file:''] then None
                       else Some (''https://'' @ url))
      in Option.bind candidate (\<lambda>c.
         Option.bind (parse c) (\<lambda>parsed.
           if \<not> is_web parsed then None
           else Option.bind (host_str parsed) (\<lambda>h.
             let host = lowercase U (strip_end_char (CHR 0x2E) h)
             in if host \<noteq> [] then Some host else None))))"

definition normalize_pattern :: "unicode \<Rightarrow> string \<Rightarrow> string" where
  "normalize_pattern U pattern =
     (let p = lowercase U (trim pattern);
          p = last (split_str ''://'' p);
          p = takeWhile (\<lambda>c. c \<noteq> CHR 0x2F \<and> c \<noteq> CHR 0x3F \<and> c \<noteq> CHR 0x23) p;
          p = takeWhile (\<lambda>c. c \<noteq> CHR 0x3A) p
      in strip_end_char (CHR 0x2E) (strip_prefixes ''.'' (strip_prefixes ''*.'' p)))"

definition host_matches :: "unicode \<Rightarrow> string \<Rightarrow> string \<Rightarrow> bool" where
  "host_matches U pattern host \<longleftrightarrow>
     (if trim pattern = ''*'' then True
      else let p = normalize_pattern U pattern
           in if p = [] then False else host = p \<or> ends_with host (''.'' @ p))"

definition any_match :: "unicode \<Rightarrow> string list \<Rightarrow> string \<Rightarrow> bool" where
  "any_match U patterns host \<longleftrightarrow> list_ex (\<lambda>p. host_matches U p host) patterns"

text \<open>The list read from the parsed JSON, and the category of a host in it.\<close>

definition sensitive_list :: "json \<Rightarrow> (string \<times> string list) list" where
  "sensitive_list parsed =
     (case Option.bind (jget parsed ''categories'') as_object of
        None \<Rightarrow> []
      | Some categories \<Rightarrow>
          List.map_filter (\<lambda>(name, domains).
            if name \<in> {''banking'', ''brokerage'', ''crypto'', ''government_id''}
            then Some (name, List.map_filter as_str (unwrap_or [] (as_array domains)))
            else None) categories)"

definition sensitive_site_category :: "unicode \<Rightarrow> json \<Rightarrow> string \<Rightarrow> string option" where
  "sensitive_site_category U parsed host =
     map_option fst (find (\<lambda>(_, domains). any_match U domains host) (sensitive_list parsed))"

section \<open>Layers\<close>

record site_layer =
  sl_allow :: "string list"
  sl_block :: "string list"
  sl_confirm :: "string list"
  sl_sensitive_sites :: "bool option"
  sl_first_visit :: "string list option"
  sl_ask :: "string list option"
  sl_allow_kinds :: "(string \<times> string list) list"

record managed_layer =
  ml_allowed_domains :: "string list"
  ml_blocked_domains :: "string list"
  ml_confirm_domains :: "string list"
  ml_sensitive_sites :: "bool option"
  ml_first_visit :: "string list option"
  ml_ask :: "string list option"
  ml_action_policy :: "json option"

record extension_site_policy =
  ep_user :: site_layer
  ep_managed :: managed_layer

datatype site_gate =
    SiteAllow
  | SiteDeny string
  | SiteAsk (ask_reason: string) (ask_detail: string)

record site_policy =
  sp_managed :: managed_layer
  sp_user :: site_layer
  sp_file :: site_layer
  sp_defaults :: bool
  sp_session_allow :: "string list"
  sp_session_allow_kinds :: "(string \<times> string) list"

record site_env =
  se_unicode :: unicode
  se_sensitive_json :: json
  se_sensitive_var :: "string option"

definition default_site_layer :: site_layer where
  "default_site_layer = \<lparr> sl_allow = [], sl_block = [], sl_confirm = [],
     sl_sensitive_sites = None, sl_first_visit = None, sl_ask = None, sl_allow_kinds = [] \<rparr>"

definition default_managed_layer :: managed_layer where
  "default_managed_layer = \<lparr> ml_allowed_domains = [], ml_blocked_domains = [],
     ml_confirm_domains = [], ml_sensitive_sites = None, ml_first_visit = None, ml_ask = None,
     ml_action_policy = None \<rparr>"

definition env_off :: "unicode \<Rightarrow> string option \<Rightarrow> bool" where
  "env_off U var =
     (case var of None \<Rightarrow> False
      | Some v \<Rightarrow> lowercase U (trim v) \<in> {''0'', ''false'', ''off'', ''no''})"

definition sensitive_sites :: "site_env \<Rightarrow> site_policy \<Rightarrow> bool" where
  "sensitive_sites E sp =
     (case ml_sensitive_sites (sp_managed sp) of
        Some v \<Rightarrow> v
      | None \<Rightarrow>
          if env_off (se_unicode E) (se_sensitive_var E) then False
          else unwrap_or (sp_defaults sp)
            (or_else (sl_sensitive_sites (sp_user sp)) (sl_sensitive_sites (sp_file sp))))"

definition ask :: "site_policy \<Rightarrow> string list" where
  "ask sp = unwrap_or (if sp_defaults sp then DEFAULT_ASK else [])
     (or_else (or_else (ml_ask (sp_managed sp)) (sl_ask (sp_user sp))) (sl_ask (sp_file sp)))"

definition first_visit :: "site_policy \<Rightarrow> string list" where
  "first_visit sp = unwrap_or []
     (or_else (or_else (ml_first_visit (sp_managed sp)) (sl_first_visit (sp_user sp)))
       (sl_first_visit (sp_file sp)))"

definition is_inert :: "site_policy \<Rightarrow> bool" where
  "is_inert sp \<longleftrightarrow> sp_managed sp = default_managed_layer \<and> sp_user sp = default_site_layer
     \<and> sp_file sp = default_site_layer \<and> \<not> sp_defaults sp"

definition layer_allows_kind :: "unicode \<Rightarrow> site_layer \<Rightarrow> string \<Rightarrow> string \<Rightarrow> bool" where
  "layer_allows_kind U l host kind \<longleftrightarrow>
     list_ex (\<lambda>(site, kinds). host_matches U site host \<and> kind \<in> set kinds) (sl_allow_kinds l)"

definition kind_allowed :: "unicode \<Rightarrow> site_policy \<Rightarrow> string \<Rightarrow> string \<Rightarrow> bool" where
  "kind_allowed U sp host kind \<longleftrightarrow>
     layer_allows_kind U (sp_user sp) host kind \<or> layer_allows_kind U (sp_file sp) host kind
     \<or> list_ex (\<lambda>(site, k). k = kind \<and> host_matches U site host) (sp_session_allow_kinds sp)"

section \<open>The decision\<close>

definition kind_phrase :: "string \<Rightarrow> string" where
  "kind_phrase kind =
     (if kind = ''download'' then ''download a file''
      else if kind = ''payment_input'' then ''type into a payment card field''
      else if kind = ''password_input'' then ''type into a password or one-time-code field''
      else if kind = ''purchase'' then ''press what looks like a purchase button''
      else ''act'')"

definition kind_reason :: "string \<Rightarrow> string" where
  "kind_reason kind =
     (if kind \<in> {''download'', ''payment_input'', ''password_input''} then kind else ''purchase'')"

definition site_label :: "string \<Rightarrow> string" where
  "site_label cat =
     (if cat = ''banking'' then ''a banking or payments site''
      else if cat = ''brokerage'' then ''a brokerage site''
      else if cat = ''crypto'' then ''a crypto exchange''
      else ''a government ID site'')"

definition decide :: "site_env \<Rightarrow> site_policy \<Rightarrow> string \<Rightarrow> string \<Rightarrow> string option \<Rightarrow> site_gate" where
  "decide E sp host category kind =
     (let U = se_unicode E; m = sp_managed sp; user = sp_user sp; file = sp_file sp in
      if any_match U (ml_blocked_domains m) host then
        SiteDeny (host @ '' is blocked by your organization's chrome-use policy'')
      else if ml_allowed_domains m \<noteq> [] \<and> \<not> any_match U (ml_allowed_domains m) host then
        SiteDeny (host @ '' is not on your organization's list of sites chrome-use may act on'')
      else if any_match U (sl_block user) host \<or> any_match U (sl_block file) host then
        SiteDeny (''you blocked chrome-use on '' @ host @
          '' (unblock it in the chrome-use options page or the policy file)'')
      else if any_match U (ml_confirm_domains m) host then
        SiteAsk ''managed_site''
          (''your organization asks for approval before chrome-use acts on '' @ host)
      else case filter_opt (\<lambda>k. k \<in> set (ask sp) \<and> \<not> kind_allowed U sp host k) kind of
        Some k \<Rightarrow>
          SiteAsk (kind_reason k) (''chrome-use wants to '' @ kind_phrase k @ '' on '' @ host)
      | None \<Rightarrow>
      if any_match U (sl_allow user) host \<or> any_match U (sl_allow file) host
         \<or> any_match U (sp_session_allow sp) host then SiteAllow
      else if any_match U (sl_confirm user) host \<or> any_match U (sl_confirm file) host then
        SiteAsk ''confirm_site'' (host @ '' is on your ask-first list'')
      else case (if sensitive_sites E sp
                 then sensitive_site_category U (se_sensitive_json E) host else None) of
        Some cat \<Rightarrow>
          SiteAsk ''sensitive_site''
            (host @ '' is '' @ site_label cat @ ''; chrome-use asks before an agent acts there (''
             @ category @ '')'')
      | None \<Rightarrow>
      if category \<in> set (first_visit sp) then
        SiteAsk ''first_visit''
          (''first time chrome-use acts on '' @ host @ '' ('' @ category @ '')'')
      else SiteAllow)"

definition confirmation_payload ::
  "string \<Rightarrow> string \<Rightarrow> string \<Rightarrow> string \<Rightarrow> string \<Rightarrow> string \<Rightarrow> string \<Rightarrow> json" where
  "confirmation_payload confirmation_id action host category reason detail approval =
     jobj [(''confirmation_required'', JBool True), (''confirmation_id'', JStr confirmation_id),
       (''action'', JStr action), (''category'', JStr category), (''description'', JStr detail),
       (''site'', JStr host), (''reason'', JStr reason), (''approval'', JStr approval),
       (''choices'', JArr [JStr ''once'', JStr ''always'', JStr ''decline''])]"


section \<open>Host patterns\<close>

text \<open>A pattern covers a host exactly when the host is the normalised domain or ends in a
  dot and that domain.\<close>

lemma host_matches_iff:
  "host_matches U p h \<longleftrightarrow> trim p = ''*''
     \<or> (normalize_pattern U p \<noteq> []
        \<and> (h = normalize_pattern U p \<or> (\<exists>pre. h = pre @ ''.'' @ normalize_pattern U p)))"
  by (auto simp: host_matches_def Let_def ends_with_iff)

lemma host_matches_sub: "host_matches U p h \<Longrightarrow> host_matches U p (sub @ ''.'' @ h)"
  by (auto simp: host_matches_iff)

lemma any_match_sub: "any_match U ps h \<Longrightarrow> any_match U ps (sub @ ''.'' @ h)"
  by (auto simp: any_match_def list_ex_iff intro: host_matches_sub [simplified])





section \<open>The decision\<close>

definition denied_host :: "unicode \<Rightarrow> site_policy \<Rightarrow> string \<Rightarrow> bool" where
  "denied_host U sp host \<longleftrightarrow>
     any_match U (ml_blocked_domains (sp_managed sp)) host
     \<or> (ml_allowed_domains (sp_managed sp) \<noteq> []
        \<and> \<not> any_match U (ml_allowed_domains (sp_managed sp)) host)
     \<or> any_match U (sl_block (sp_user sp)) host \<or> any_match U (sl_block (sp_file sp)) host"

definition kind_asks :: "unicode \<Rightarrow> site_policy \<Rightarrow> string \<Rightarrow> string option \<Rightarrow> bool" where
  "kind_asks U sp host kind \<longleftrightarrow>
     (\<exists>k. kind = Some k \<and> k \<in> set (ask sp) \<and> \<not> kind_allowed U sp host k)"

definition allow_listed :: "unicode \<Rightarrow> site_policy \<Rightarrow> string \<Rightarrow> bool" where
  "allow_listed U sp host \<longleftrightarrow> any_match U (sl_allow (sp_user sp)) host
     \<or> any_match U (sl_allow (sp_file sp)) host \<or> any_match U (sp_session_allow sp) host"

lemma filter_opt_kind:
  "filter_opt (\<lambda>k. k \<in> set (ask sp) \<and> \<not> kind_allowed U sp host k) kind = None
   \<longleftrightarrow> \<not> kind_asks U sp host kind"
  by (cases kind) (auto simp: kind_asks_def)


text \<open>
  C7: The site gate refuses an action exactly when the managed policy blocks the host or
  lists allowed sites without it, or the person or the policy file blocks it; no allow rule,
  kind or session decision of any layer lifts such a refusal.
\<close>
theorem decide_deny_iff:
  "(\<exists>why. decide E sp host category kind = SiteDeny why)
     \<longleftrightarrow> denied_host (se_unicode E) sp host"
  by (auto simp: decide_def denied_host_def Let_def split: option.splits)

lemma decide_not_denied:
  assumes "\<not> denied_host (se_unicode E) sp host"
  shows "decide E sp host category kind = SiteAllow \<longleftrightarrow>
     \<not> any_match (se_unicode E) (ml_confirm_domains (sp_managed sp)) host
     \<and> \<not> kind_asks (se_unicode E) sp host kind
     \<and> (allow_listed (se_unicode E) sp host
        \<or> (\<not> any_match (se_unicode E) (sl_confirm (sp_user sp)) host
           \<and> \<not> any_match (se_unicode E) (sl_confirm (sp_file sp)) host
           \<and> (\<not> sensitive_sites E sp
              \<or> sensitive_site_category (se_unicode E) (se_sensitive_json E) host = None)
           \<and> category \<notin> set (first_visit sp)))"
proof (cases "filter_opt (\<lambda>k. k \<in> set (ask sp) \<and> \<not> kind_allowed (se_unicode E) sp host k) kind")
  case None
  let ?sens = "if sensitive_sites E sp
    then sensitive_site_category (se_unicode E) (se_sensitive_json E) host else None"
  have "\<not> kind_asks (se_unicode E) sp host kind"
    using None by (simp add: filter_opt_kind)
  moreover have "?sens = None \<longleftrightarrow> \<not> sensitive_sites E sp
      \<or> sensitive_site_category (se_unicode E) (se_sensitive_json E) host = None"
    by simp
  ultimately show ?thesis
    using assms None
    by (cases ?sens) (simp_all only: decide_def denied_host_def allow_listed_def Let_def
        option.case if_False if_True de_Morgan_disj not_not site_gate.distinct simp_thms
        split: if_split; blast)+
next
  case (Some k)
  then have "kind_asks (se_unicode E) sp host kind"
    using filter_opt_kind [of sp "se_unicode E" host kind] by simp
  with assms Some show ?thesis
    by (simp add: decide_def denied_host_def Let_def)
qed


theorem decide_inert:
  assumes "is_inert sp"
  shows "decide E sp host category kind = SiteAllow"
proof -
  have "\<not> denied_host (se_unicode E) sp host" "\<not> kind_asks (se_unicode E) sp host kind"
    "\<not> sensitive_sites E sp" "first_visit sp = []"
    using assms
    by (auto simp: is_inert_def denied_host_def kind_asks_def ask_def sensitive_sites_def
        first_visit_def any_match_def default_managed_layer_def default_site_layer_def)
  then show ?thesis
    using assms
    by (simp add: decide_not_denied is_inert_def any_match_def default_managed_layer_def
        default_site_layer_def)
qed

definition example_env :: site_env where
  "example_env = \<lparr> se_unicode = ascii_tables,
     se_sensitive_json = jobj [(''categories'', jobj [(''banking'', JArr [JStr ''bank.com''])])],
     se_sensitive_var = None \<rparr>"





definition inert_policy :: site_policy where
  "inert_policy = \<lparr> sp_managed = default_managed_layer, sp_user = default_site_layer,
     sp_file = default_site_layer, sp_defaults = False, sp_session_allow = [],
     sp_session_allow_kinds = [] \<rparr>"

lemma decide_inert_witness:
  "is_inert inert_policy
   \<and> decide example_env inert_policy ''bank.com'' ''click'' (Some ''purchase'') = SiteAllow"
proof -
  have "is_inert inert_policy" by (simp add: is_inert_def inert_policy_def)
  then show ?thesis by (simp add: decide_inert)
qed

section \<open>Payment fields\<close>

fun attribute_pairs :: "string list \<Rightarrow> (string \<times> string) list" where
  "attribute_pairs (k # v # rest) = (k, v) # attribute_pairs rest"
| "attribute_pairs _ = []"

definition cc_token :: "unicode \<Rightarrow> string \<Rightarrow> bool" where
  "cc_token U v \<longleftrightarrow> list_ex (\<lambda>t. starts_with t ''cc-'') (split_whitespace (lowercase U v))"

lemma autocomplete_cc:
  "list_ex (\<lambda>t. starts_with t ''cc-'') ts \<Longrightarrow> autocomplete_tokens ts st = Inl ''payment_input''"
  by (induction ts st rule: autocomplete_tokens.induct) auto

lemma autocomplete_Inl: "autocomplete_tokens ts st = Inl r \<Longrightarrow> r = ''payment_input''"
  by (induction ts st rule: autocomplete_tokens.induct) (auto split: if_splits)

lemma field_attribute_Inl: "field_attribute U k v st = Inl r \<Longrightarrow> r = ''payment_input''"
  by (auto simp: field_attribute_def Let_def split: if_splits prod.splits
      dest: autocomplete_Inl)

lemma field_attributes_cc:
  "(''autocomplete'', v) \<in> set (attribute_pairs attrs) \<Longrightarrow> cc_token U v \<Longrightarrow>
     field_attributes U attrs st = Inl ''payment_input''"
proof (induction U attrs st rule: field_attributes.induct)
  case (1 U key val rest st)
  show ?case
  proof (cases "field_attribute U key val st")
    case (Inl r)
    then show ?thesis using field_attribute_Inl by fastforce
  next
    case (Inr st')
    have "(key, val) \<noteq> (''autocomplete'', v)"
      using Inr "1.prems"(2) autocomplete_cc
      by (auto simp: field_attribute_def cc_token_def Let_def split: prod.splits)
    with "1.prems" have "(''autocomplete'', v) \<in> set (attribute_pairs rest)" by auto
    with "1.IH" Inr "1.prems"(2) show ?thesis by simp
  qed
qed auto

theorem field_kind_cc:
  assumes "(''autocomplete'', v) \<in> set (attribute_pairs attrs)" "cc_token U v"
  shows "field_kind U attrs names = Some ''payment_input''"
  by (simp add: field_kind_def field_attributes_cc [OF assms])

lemma field_kind_cc_witness:
  "field_kind ascii_tables
     [''type'', ''password'', ''autocomplete'', ''section-a CC-CSC''] [''one-time code'']
   = Some ''payment_input''"
proof (rule field_kind_cc)
  show "(''autocomplete'', ''section-a CC-CSC'')
    \<in> set (attribute_pairs [''type'', ''password'', ''autocomplete'', ''section-a CC-CSC''])" by simp
  show "cc_token ascii_tables ''section-a CC-CSC''" by code_simp
qed

end
