(* ===== verification/ActionPolicy.thy ===== *)
theory ActionPolicy
  imports SitePolicy
begin

text \<open>
  The action policy by name, \<open>cli/src/native/policy.rs\<close>: the deny, confirm and allow lists
  of \<open>--action-policy\<close>, and the confirmation categories of
  \<open>AGENT_BROWSER_CONFIRM_ACTIONS\<close>. Reading a file and the JSON deserialiser are
  parameters.
\<close>

datatype policy_result = PolicyAllow | PolicyDeny string | RequiresConfirmation

record action_policy =
  ap_path :: string
  ap_default :: "string option"
  ap_allow :: "string list option"
  ap_deny :: "string list option"
  ap_confirm :: "string list option"
  ap_sites :: "site_layer option"

section \<open>Confirmation categories\<close>

text \<open>The argument is the variable's value, \<open>None\<close> where it is not set.\<close>

definition confirm_actions_from_env :: "unicode \<Rightarrow> string option \<Rightarrow> string set option" where
  "confirm_actions_from_env U var =
     Option.bind var (\<lambda>val.
       if val = [] then None
       else let categories =
              filter (\<lambda>s. s \<noteq> []) (map (\<lambda>s. lowercase U (trim s)) (split_on (CHR 0x2C) val))
            in if categories = [] then None else Some (set categories))"

definition requires_confirmation :: "string set \<Rightarrow> string \<Rightarrow> bool" where
  "requires_confirmation categories action \<longleftrightarrow> action \<in> categories"

section \<open>Loading\<close>

text \<open>\<open>read\<close> is \<open>fs::read_to_string\<close>, \<open>parse\<close> the deserialiser; both give their error's
  text. The deserialiser skips \<open>path\<close>, which \<open>load\<close> sets.\<close>

definition policy_load ::
  "(string \<Rightarrow> string result) \<Rightarrow> (string \<Rightarrow> action_policy result) \<Rightarrow> string \<Rightarrow> action_policy result"
where
  "policy_load read parse path =
     (case read path of
        Inl e \<Rightarrow> Inl (''Failed to read policy file: '' @ e)
      | Inr contents \<Rightarrow>
          (case parse contents of
             Inl e \<Rightarrow> Inl (''Invalid policy JSON: '' @ e)
           | Inr policy \<Rightarrow> Inr (policy\<lparr>ap_path := path\<rparr>)))"

definition policy_from_value ::
  "(json \<Rightarrow> action_policy result) \<Rightarrow> json \<Rightarrow> action_policy result" where
  "policy_from_value from v =
     (case from v of Inl e \<Rightarrow> Inl (''Invalid policy JSON: '' @ e) | Inr p \<Rightarrow> Inr p)"

definition policy_load_if_exists ::
  "(string \<Rightarrow> string result) \<Rightarrow> (string \<Rightarrow> action_policy result) \<Rightarrow> string option \<Rightarrow>
   string option \<Rightarrow> action_policy option" where
  "policy_load_if_exists read parse action_policy_var policy_var =
     Option.bind (or_else action_policy_var policy_var) (\<lambda>path.
       case policy_load read parse path of Inl _ \<Rightarrow> None | Inr p \<Rightarrow> Some p)"

text \<open>The result and the policy afterwards: it changes only when the file was read.\<close>

definition policy_reload ::
  "(string \<Rightarrow> string result) \<Rightarrow> (string \<Rightarrow> action_policy result) \<Rightarrow> action_policy \<Rightarrow>
   unit result \<times> action_policy" where
  "policy_reload read parse policy =
     (case read (ap_path policy) of
        Inl e \<Rightarrow> (Inl (''Failed to read policy file: '' @ e), policy)
      | Inr contents \<Rightarrow>
          (case parse contents of
             Inl e \<Rightarrow> (Inl (''Invalid policy JSON: '' @ e), policy)
           | Inr p \<Rightarrow> (Inr (), p\<lparr>ap_path := ap_path policy\<rparr>)))"

section \<open>The check\<close>

definition is_deny :: "string \<Rightarrow> bool" where
  "is_deny d \<longleftrightarrow> eq_ignore_ascii_case d ''deny''"

definition check :: "action_policy \<Rightarrow> string \<Rightarrow> policy_result" where
  "check p action =
     (if action \<in> set (unwrap_or [] (ap_deny p)) then
        PolicyDeny ((''Action '' @ [CHR 0x27]) @ action @ ([CHR 0x27] @ '' is denied by policy''))
      else if action \<in> set (unwrap_or [] (ap_confirm p)) then RequiresConfirmation
      else case ap_allow p of
        Some allow \<Rightarrow>
          if allow \<noteq> [] \<and> action \<notin> set allow
             \<and> unwrap_or True (map_option is_deny (ap_default p))
          then PolicyDeny ((''Action '' @ [CHR 0x27]) @ action @ ([CHR 0x27] @ '' is not in the allow list''))
          else PolicyAllow
      | None \<Rightarrow>
          if unwrap_or False (map_option is_deny (ap_default p))
          then PolicyDeny ((''Action '' @ [CHR 0x27]) @ action @ ([CHR 0x27] @ '' denied: default policy is deny''))
          else PolicyAllow)"

section \<open>Properties\<close>


definition example_policy :: action_policy where
  "example_policy = \<lparr> ap_path = [], ap_default = None, ap_allow = Some [''click''],
     ap_deny = Some [''upload''], ap_confirm = Some [''submit''], ap_sites = None \<rparr>"


text \<open>An empty allow list hides \<open>"default": "deny"\<close>: every action is allowed.\<close>

lemma empty_allow_list_hides_default:
  "check (example_policy\<lparr>ap_default := Some ''deny'', ap_allow := Some []\<rparr>) ''evaluate'' = PolicyAllow
   \<and> check (example_policy\<lparr>ap_default := Some ''deny'', ap_allow := None\<rparr>) ''evaluate'' \<noteq> PolicyAllow"
  by code_simp

theorem reload_check_stable:
  "(case policy_reload read parse p of
      (Inl _, p') \<Rightarrow> p' = p
    | (Inr _, p') \<Rightarrow> ap_path p' = ap_path p
        \<and> policy_load read parse (ap_path p) = Inr p')"
  by (auto simp: policy_reload_def policy_load_def split: sum.splits)

end
