(* ===== verification/MobilePolicy.thy ===== *)
theory MobilePolicy
  imports Json
begin

text \<open>
  What a phone may ask for, \<open>cli/src/mobile/policy.rs\<close>: each operation checks its
  parameters field by field and gives the action to take or a refusal. Parsing a UUID
  (the \<open>uuid\<close> crate) is the parameter \<open>uuid\<close>.
\<close>

section \<open>Actions and refusals\<close>

datatype phone_action =
    Panel string json
  | SetOptions string obj
  | ScheduleToggle string bool
  | Subscribe string nat
  | Unsubscribe string
  | PushRegister string
  | PushUnregister
  | Hello
  | PushMute string bool
  | Inspect string
  | Screenshot string

datatype refusal = Refusal (refusal_code: string) (refusal_message: string)

definition denied :: "string \<Rightarrow> refusal" where
  "denied message = Refusal ''denied'' message"

definition invalid :: "string \<Rightarrow> refusal" where
  "invalid message = Refusal ''invalidParams'' message"

section \<open>Tool access\<close>

definition access_rank :: "string \<Rightarrow> nat option" where
  "access_rank access =
     (if access = ''browserOnly'' then Some 0
      else if access = ''readFiles'' then Some 1
      else if access = ''writeFiles'' then Some 2
      else if access = ''runCommands'' then Some 3
      else None)"

definition effective_rank :: "string \<Rightarrow> string option \<Rightarrow> bool \<Rightarrow> nat" where
  "effective_rank agent tool_access full_access =
     (case Option.bind tool_access access_rank of
        Some rank \<Rightarrow> rank
      | None \<Rightarrow>
          if full_access \<or> agent = ''opencode'' then 3
          else if agent = ''codex'' then 1
          else 0)"

definition PHONE_CREATE_MAX_RANK :: nat where
  "PHONE_CREATE_MAX_RANK = 2"

definition elevated :: "string \<Rightarrow> string option \<Rightarrow> bool \<Rightarrow> bool" where
  "elevated agent tool_access full_access \<longleftrightarrow>
     (let rank = effective_rank agent tool_access full_access
      in full_access \<or> PHONE_CREATE_MAX_RANK < rank \<or> (agent = ''pi'' \<and> 0 < rank))"

definition declines :: "json \<Rightarrow> bool" where
  "declines decision \<longleftrightarrow>
     as_str decision \<in> {Some ''deny'', Some ''decline'', Some ''cancel''}"

section \<open>Field checks\<close>

definition MAX_IMAGES :: nat where
  "MAX_IMAGES = 5"

definition MAX_BYTES :: nat where
  "MAX_BYTES = 512 * 1024"

definition fields :: "json \<Rightarrow> string list \<Rightarrow> string list \<Rightarrow> string \<Rightarrow> refusal + obj" where
  "fields params allowed required op =
     (case as_object params of
        None \<Rightarrow> Inl (invalid (op @ '' params must be an object''))
      | Some m \<Rightarrow>
          (case find (\<lambda>k. k \<notin> set allowed) (map fst m) of
             Some key \<Rightarrow> Inl (denied (op @ '' does not accept `'' @ key @ ''` from the phone''))
           | None \<Rightarrow>
               (case find (\<lambda>k. map_of m k = None) required of
                  Some key \<Rightarrow> Inl (invalid (op @ '' requires `'' @ key @ ''`''))
                | None \<Rightarrow> Inr m)))"

definition conversation_id :: "(string \<Rightarrow> bool) \<Rightarrow> obj \<Rightarrow> refusal + string" where
  "conversation_id uuid m =
     ok_or (invalid ''conversationId must be a conversation UUID'')
       (filter_opt uuid (Option.bind (map_of m ''conversationId'') as_str))"

definition schedule_id :: "(string \<Rightarrow> bool) \<Rightarrow> obj \<Rightarrow> refusal + string" where
  "schedule_id uuid m =
     ok_or (invalid ''id must be a schedule UUID'')
       (filter_opt uuid (Option.bind (map_of m ''id'') as_str))"

definition check_options :: "json \<Rightarrow> refusal + obj" where
  "check_options options =
     (case as_object options of
        None \<Rightarrow> Inl (invalid ''options must be an object'')
      | Some m \<Rightarrow>
          (case find (\<lambda>k. k \<notin> {''effort'', ''serviceTier'', ''toolAccess''}) (map fst m) of
             Some key \<Rightarrow> Inl (invalid (''Unknown conversation option `'' @ key @ ''`''))
           | None \<Rightarrow>
               (case filter_opt (\<lambda>v. v \<noteq> JNull) (map_of m ''toolAccess'') of
                  None \<Rightarrow> Inr m
                | Some access \<Rightarrow>
                    (case Option.bind (as_str access) access_rank of
                       None \<Rightarrow> Inl (invalid ''Unknown toolAccess value'')
                     | Some _ \<Rightarrow> Inr m))))"

text \<open>Reading a required field, which \<open>fields\<close> has found.\<close>

definition field :: "obj \<Rightarrow> string \<Rightarrow> json" where
  "field m k = unwrap_or JNull (map_of m k)"

section \<open>The operations\<close>

definition check_list :: "string \<Rightarrow> json \<Rightarrow> refusal + phone_action" where
  "check_list op params = and_then (fields params [] [] op) (\<lambda>_. Inr (Panel op (JObj [])))"

text \<open>The optional model of a new conversation, added to what is forwarded.\<close>

definition create_model :: "obj \<Rightarrow> obj \<Rightarrow> refusal + obj" where
  "create_model m out =
     (case filter_opt (\<lambda>v. v \<noteq> JNull) (map_of m ''model'') of
        None \<Rightarrow> Inr out
      | Some v \<Rightarrow> and_then (ok_or (invalid ''model must be a string'') (as_str v)) (\<lambda>model.
          if starts_with model ''-'' then Inl (invalid (''model must not start with '-'' @ [CHR 0x27]))
          else Inr (obj_insert ''model'' (JStr model) out)))"

text \<open>The last step of a creation: the access the phone cannot give.\<close>

definition create_finish :: "string \<Rightarrow> obj \<Rightarrow> obj \<Rightarrow> refusal + phone_action" where
  "create_finish agent out options =
     (let rank = effective_rank agent (Option.bind (map_of options ''toolAccess'') as_str) False
      in if PHONE_CREATE_MAX_RANK < rank then
           Inl (denied ''A conversation created from the phone cannot run commands; choose writeFiles or less'')
         else if agent = ''pi'' \<and> 0 < rank then
           Inl (denied ''Pi runs tools without asking, so from the phone it gets browser tools only (browserOnly)'')
         else Inr (Panel ''conversationCreate''
                (JObj (obj_insert ''fullAccess'' (JBool False)
                  (obj_insert ''options'' (JObj options) out)))))"

definition check_create :: "string \<Rightarrow> json \<Rightarrow> refusal + phone_action" where
  "check_create op params =
     and_then (fields params [''agentId'', ''model'', ''options'', ''fullAccess''] [''agentId''] op) (\<lambda>m.
     if map_of m ''fullAccess'' \<notin> {None, Some (JBool False)}
     then Inl (denied ''Full access cannot be granted from the phone'')
     else and_then (ok_or (invalid ''agentId must be a string'') (as_str (field m ''agentId'')))
       (\<lambda>agent.
     and_then (create_model m (obj_insert ''agentId'' (JStr agent) [])) (\<lambda>out.
     and_then (case map_of m ''options'' of Some v \<Rightarrow> check_options v | None \<Rightarrow> Inr []) (\<lambda>options.
     create_finish agent out options))))"

definition check_attachments :: "obj \<Rightarrow> refusal + unit" where
  "check_attachments m =
     (case map_of m ''attachments'' of
        None \<Rightarrow> Inr ()
      | Some v \<Rightarrow> and_then (ok_or (invalid ''attachments must be a list'') (as_array v)) (\<lambda>items.
          if MAX_IMAGES < length items then
            Inl (invalid (''A message supports up to '' @ show_nat MAX_IMAGES @ '' images''))
          else if list_ex (\<lambda>item. MAX_BYTES <
                 unwrap_or (2 ^ 64 - 1) (as_u64 (jidx item ''bytes''))) items
          then Inl (invalid ''An attachment exceeds 512 KiB'')
          else Inr ()))"

definition check_send :: "(string \<Rightarrow> bool) \<Rightarrow> string \<Rightarrow> json \<Rightarrow> refusal + phone_action" where
  "check_send uuid op params =
     and_then (fields params [''conversationId'', ''messageId'', ''text'', ''attachments'', ''record'']
       [''conversationId'', ''messageId'', ''text''] op) (\<lambda>m.
     and_then (conversation_id uuid m) (\<lambda>_.
     if map_of m ''record'' \<notin> {None, Some (JBool False)}
     then Inl (denied ''Recording cannot be allowed from the phone'')
     else and_then (check_attachments m) (\<lambda>_.
       Inr (Panel (if op = ''conversationSend'' then ''conversationSend''
                   else ''conversationSendDirect'')
             (JObj (obj_remove ''record'' m))))))"

definition check_stop :: "(string \<Rightarrow> bool) \<Rightarrow> string \<Rightarrow> json \<Rightarrow> refusal + phone_action" where
  "check_stop uuid op params =
     and_then (fields params [''conversationId''] [''conversationId''] op) (\<lambda>m.
     and_then (conversation_id uuid m) (\<lambda>id.
       Inr (Panel ''conversationStop'' (jobj [(''conversationId'', JStr id)]))))"

definition check_respond :: "(string \<Rightarrow> bool) \<Rightarrow> string \<Rightarrow> json \<Rightarrow> refusal + phone_action" where
  "check_respond uuid op params =
     (let keys = [''conversationId'', ''requestId'', ''generation'', ''requestRevision'', ''decision'']
      in and_then (fields params keys keys op) (\<lambda>m.
         and_then (conversation_id uuid m) (\<lambda>_. Inr (Panel ''conversationRespond'' (JObj m)))))"

definition cursor :: "obj \<Rightarrow> refusal + nat" where
  "cursor m =
     (case map_of m ''after'' of
        Some v \<Rightarrow> ok_or (invalid ''after must be a cursor number'') (as_u64 v)
      | None \<Rightarrow> Inr 0)"

definition check_read :: "(string \<Rightarrow> bool) \<Rightarrow> string \<Rightarrow> json \<Rightarrow> refusal + phone_action" where
  "check_read uuid op params =
     and_then (fields params [''conversationId'', ''after''] [''conversationId''] op) (\<lambda>m.
     and_then (conversation_id uuid m) (\<lambda>id.
     and_then (cursor m) (\<lambda>after.
       Inr (Panel ''conversationRead''
         (jobj [(''conversationId'', JStr id), (''after'', JNum (JInt (int after)))])))))"

definition check_attachment_put ::
  "(string \<Rightarrow> bool) \<Rightarrow> string \<Rightarrow> json \<Rightarrow> refusal + phone_action" where
  "check_attachment_put uuid op params =
     and_then (fields params [''conversationId'', ''data''] [''conversationId'', ''data''] op) (\<lambda>m.
     and_then (conversation_id uuid m) (\<lambda>id.
     and_then (ok_or (invalid ''data must be base64 image bytes'') (as_str (field m ''data'')))
       (\<lambda>data.
     if (MAX_BYTES + 2) div 3 * 4 < length data
     then Inl (invalid ''Image exceeds 512 KiB; resize it before attaching'')
     else Inr (Panel ''conversationAttachmentPut''
            (jobj [(''conversationId'', JStr id), (''data'', JStr data)])))))"

definition check_delete :: "(string \<Rightarrow> bool) \<Rightarrow> string \<Rightarrow> json \<Rightarrow> refusal + phone_action" where
  "check_delete uuid op params =
     and_then (fields params [''conversationId'', ''confirm''] [''conversationId'', ''confirm''] op)
       (\<lambda>m.
     if field m ''confirm'' \<noteq> JBool True
     then Inl (invalid ''Deleting a conversation requires confirm: true'')
     else and_then (conversation_id uuid m) (\<lambda>id.
       Inr (Panel ''conversationDelete'' (jobj [(''conversationId'', JStr id)]))))"

definition check_set_options ::
  "(string \<Rightarrow> bool) \<Rightarrow> string \<Rightarrow> json \<Rightarrow> refusal + phone_action" where
  "check_set_options uuid op params =
     and_then (fields params [''conversationId'', ''options''] [''conversationId'', ''options''] op)
       (\<lambda>m.
     and_then (conversation_id uuid m) (\<lambda>id.
     and_then (check_options (field m ''options'')) (\<lambda>options.
       Inr (SetOptions id options))))"

definition check_schedule_run ::
  "(string \<Rightarrow> bool) \<Rightarrow> string \<Rightarrow> json \<Rightarrow> refusal + phone_action" where
  "check_schedule_run uuid op params =
     and_then (fields params [''id''] [''id''] op) (\<lambda>m.
     and_then (schedule_id uuid m) (\<lambda>id. Inr (Panel ''scheduleRun'' (jobj [(''id'', JStr id)]))))"

definition bool_field :: "obj \<Rightarrow> string \<Rightarrow> refusal + bool" where
  "bool_field m k = ok_or (invalid (k @ '' must be true or false'')) (as_bool (field m k))"

definition check_schedule_save ::
  "(string \<Rightarrow> bool) \<Rightarrow> string \<Rightarrow> json \<Rightarrow> refusal + phone_action" where
  "check_schedule_save uuid op params =
     and_then (fields params [''id'', ''enabled''] [''id'', ''enabled''] op) (\<lambda>m.
     and_then (schedule_id uuid m) (\<lambda>id.
     and_then (bool_field m ''enabled'') (\<lambda>enabled. Inr (ScheduleToggle id enabled))))"

definition check_subscribe ::
  "(string \<Rightarrow> bool) \<Rightarrow> string \<Rightarrow> json \<Rightarrow> refusal + phone_action" where
  "check_subscribe uuid op params =
     and_then (fields params [''conversationId'', ''after''] [''conversationId''] op) (\<lambda>m.
     and_then (conversation_id uuid m) (\<lambda>id.
     and_then (cursor m) (\<lambda>after. Inr (Subscribe id after))))"

definition check_unsubscribe ::
  "(string \<Rightarrow> bool) \<Rightarrow> string \<Rightarrow> json \<Rightarrow> refusal + phone_action" where
  "check_unsubscribe uuid op params =
     and_then (fields params [''conversationId''] [''conversationId''] op) (\<lambda>m.
     and_then (conversation_id uuid m) (\<lambda>id. Inr (Unsubscribe id)))"

definition relay_token_ok :: "string \<Rightarrow> bool" where
  "relay_token_ok t \<longleftrightarrow> t \<noteq> [] \<and> length t \<le> 8192
     \<and> list_all (\<lambda>b. is_ascii_alphanumeric b \<or> b \<in> set ''-_.='') t"

definition check_push_register :: "string \<Rightarrow> json \<Rightarrow> refusal + phone_action" where
  "check_push_register op params =
     and_then (fields params [''relayToken''] [''relayToken''] op) (\<lambda>m.
     and_then (ok_or (invalid ''relayToken is not a relay token'')
         (filter_opt relay_token_ok (as_str (field m ''relayToken'')))) (\<lambda>token.
       Inr (PushRegister token)))"

definition check_push_mute ::
  "(string \<Rightarrow> bool) \<Rightarrow> string \<Rightarrow> json \<Rightarrow> refusal + phone_action" where
  "check_push_mute uuid op params =
     and_then (fields params [''conversationId'', ''muted''] [''conversationId'', ''muted''] op) (\<lambda>m.
     and_then (conversation_id uuid m) (\<lambda>id.
     and_then (bool_field m ''muted'') (\<lambda>muted. Inr (PushMute id muted))))"

definition check_inspect :: "string \<Rightarrow> json \<Rightarrow> refusal + phone_action" where
  "check_inspect op params =
     and_then (fields params [''agentId''] [''agentId''] op) (\<lambda>m.
     and_then (ok_or (invalid ''agentId must be codex, claude, opencode or pi'')
         (filter_opt (\<lambda>a. a \<in> {''codex'', ''claude'', ''opencode'', ''pi''})
           (as_str (field m ''agentId'')))) (\<lambda>agent.
       Inr (Inspect agent)))"

definition check_screenshot ::
  "(string \<Rightarrow> bool) \<Rightarrow> string \<Rightarrow> json \<Rightarrow> refusal + phone_action" where
  "check_screenshot uuid op params =
     and_then (fields params [''conversationId''] [''conversationId''] op) (\<lambda>m.
     and_then (conversation_id uuid m) (\<lambda>id. Inr (Screenshot id)))"

definition phone_check ::
  "(string \<Rightarrow> bool) \<Rightarrow> string \<Rightarrow> json \<Rightarrow> refusal + phone_action" where
  "phone_check uuid op params =
     (if op \<in> {''discover'', ''conversationList'', ''scheduleList''} then check_list op params
      else if op = ''conversationCreate'' then check_create op params
      else if op \<in> {''conversationSend'', ''conversationSendDirect''} then check_send uuid op params
      else if op = ''conversationStop'' then check_stop uuid op params
      else if op = ''conversationRespond'' then check_respond uuid op params
      else if op = ''conversationRead'' then check_read uuid op params
      else if op = ''conversationAttachmentPut'' then check_attachment_put uuid op params
      else if op = ''conversationDelete'' then check_delete uuid op params
      else if op = ''conversationSetOptions'' then check_set_options uuid op params
      else if op = ''scheduleRun'' then check_schedule_run uuid op params
      else if op = ''scheduleSave'' then check_schedule_save uuid op params
      else if op = ''subscribe'' then check_subscribe uuid op params
      else if op = ''unsubscribe'' then check_unsubscribe uuid op params
      else if op = ''pushRegister'' then check_push_register op params
      else if op = ''pushUnregister'' then and_then (fields params [] [] op) (\<lambda>_. Inr PushUnregister)
      else if op = ''hello'' then and_then (fields params [] [] op) (\<lambda>_. Inr Hello)
      else if op = ''pushMute'' then check_push_mute uuid op params
      else if op = ''agentInspect'' then check_inspect op params
      else if op = ''screenshot'' then check_screenshot uuid op params
      else Inl (denied (op @ '' is not available from the phone'')))"

section \<open>What an accepted request can contain\<close>

lemma find_missing: "find (\<lambda>k. map_of m k = None) ks = None \<longleftrightarrow> set ks \<subseteq> obj_keys m"
  by (auto simp: find_None_iff obj_keys_def)

lemma fields_Inr:
  "fields params allowed required op = Inr m \<longleftrightarrow>
     params = JObj m \<and> obj_keys m \<subseteq> set allowed \<and> set required \<subseteq> obj_keys m"
proof (cases "as_object params")
  case None
  then show ?thesis by (auto simp: fields_def)
next
  case (Some m')
  have "find (\<lambda>k. k \<notin> set allowed) (map fst m') = None \<longleftrightarrow> obj_keys m' \<subseteq> set allowed"
    by (auto simp: find_key_None)
  moreover have "find (\<lambda>k. map_of m' k = None) required = None \<longleftrightarrow> set required \<subseteq> obj_keys m'"
    by (rule find_missing)
  ultimately show ?thesis
    using Some
    by (cases "find (\<lambda>k. k \<notin> set allowed) (map fst m')";
        cases "find (\<lambda>k. map_of m' k = None) required")
      (auto simp: fields_def)
qed

lemma conversation_id_Inr:
  "conversation_id uuid m = Inr i \<longleftrightarrow> map_of m ''conversationId'' = Some (JStr i) \<and> uuid i"
  by (auto simp: conversation_id_def filter_opt_Some_iff bind_eq_Some_conv)

lemma schedule_id_Inr:
  "schedule_id uuid m = Inr i \<longleftrightarrow> map_of m ''id'' = Some (JStr i) \<and> uuid i"
  by (auto simp: schedule_id_def filter_opt_Some_iff bind_eq_Some_conv)

lemma check_options_Inr:
  "check_options options = Inr m \<Longrightarrow> options = JObj m
     \<and> obj_keys m \<subseteq> {''effort'', ''serviceTier'', ''toolAccess''}"
  by (auto simp: check_options_def find_key_None split: option.splits)

lemmas accept_simps = and_then_Inr_iff fields_Inr conversation_id_Inr schedule_id_Inr

text \<open>The fields an operation may forward to the panel service.\<close>

definition panel_fields :: "string \<Rightarrow> string set" where
  "panel_fields operation =
     (if operation \<in> {''discover'', ''conversationList'', ''scheduleList''} then {}
      else if operation = ''conversationCreate''
        then {''agentId'', ''model'', ''options'', ''fullAccess''}
      else if operation \<in> {''conversationSend'', ''conversationSendDirect''}
        then {''conversationId'', ''messageId'', ''text'', ''attachments''}
      else if operation = ''conversationRespond''
        then {''conversationId'', ''requestId'', ''generation'', ''requestRevision'', ''decision''}
      else if operation = ''conversationRead'' then {''conversationId'', ''after''}
      else if operation = ''conversationAttachmentPut'' then {''conversationId'', ''data''}
      else if operation \<in> {''conversationStop'', ''conversationDelete''} then {''conversationId''}
      else if operation = ''scheduleRun'' then {''id''}
      else {})"

definition closed_panel :: "string \<Rightarrow> phone_action \<Rightarrow> bool" where
  "closed_panel op a \<longleftrightarrow>
     (case a of
        Panel operation out \<Rightarrow> operation = op
          \<and> (\<exists>m. out = JObj m \<and> obj_keys m \<subseteq> panel_fields operation)
      | _ \<Rightarrow> True)"

lemma closed_jobj:
  "fst ` set kvs \<subseteq> panel_fields op \<Longrightarrow> closed_panel op (Panel op (jobj kvs))"
  by (simp add: closed_panel_def jobj_def)

lemma closed_obj: "obj_keys m \<subseteq> panel_fields op \<Longrightarrow> closed_panel op (Panel op (JObj m))"
  by (auto simp: closed_panel_def)

lemma closed_other [simp]:
  "closed_panel op (SetOptions s m)" "closed_panel op (ScheduleToggle s b)"
  "closed_panel op (Subscribe s n)" "closed_panel op (Unsubscribe s)"
  "closed_panel op (PushRegister s)" "closed_panel op PushUnregister" "closed_panel op Hello"
  "closed_panel op (PushMute s b)" "closed_panel op (Inspect s)" "closed_panel op (Screenshot s)"
  by (simp_all add: closed_panel_def)

lemma closed_list:
  "check_list op params = Inr a \<Longrightarrow> closed_panel op a"
  by (auto simp: check_list_def accept_simps intro: closed_obj)

lemma create_model_keys:
  "create_model m out = Inr out' \<Longrightarrow> obj_keys out' \<subseteq> insert ''model'' (obj_keys out)"
  by (auto simp: create_model_def accept_simps split: option.splits if_splits)

lemma create_finish_Inr:
  "create_finish agent out options = Inr a \<longleftrightarrow>
     effective_rank agent (Option.bind (map_of options ''toolAccess'') as_str) False
       \<le> PHONE_CREATE_MAX_RANK
     \<and> (agent = ''pi'' \<longrightarrow>
          effective_rank agent (Option.bind (map_of options ''toolAccess'') as_str) False = 0)
     \<and> a = Panel ''conversationCreate'' (JObj (obj_insert ''fullAccess'' (JBool False)
           (obj_insert ''options'' (JObj options) out)))"
  by (simp add: create_finish_def Let_def not_less del: obj_insert.simps) blast

lemma if_Inr_iff: "(if b then Inl e else r) = Inr y \<longleftrightarrow> \<not> b \<and> r = Inr y"
  by simp

lemma check_create_Inr:
  assumes "check_create op params = Inr a"
  obtains m agent out options where
    "create_model m (obj_insert ''agentId'' (JStr agent) []) = Inr out"
    "create_finish agent out options = Inr a"
  using assms unfolding check_create_def
  by (simp only: and_then_Inr_iff if_Inr_iff) (use that in blast)

lemma closed_create:
  assumes "check_create op params = Inr a"
  shows "closed_panel ''conversationCreate'' a"
  using assms
proof (rule check_create_Inr)
  fix m agent out options
  assume out: "create_model m (obj_insert ''agentId'' (JStr agent) []) = Inr out"
    and fin: "create_finish agent out options = Inr a"
  have "obj_keys out \<subseteq> {''model'', ''agentId''}"
    using create_model_keys [OF out] by simp
  then show "closed_panel ''conversationCreate'' a"
    using fin unfolding create_finish_Inr
    by (auto intro!: closed_obj simp: panel_fields_def simp del: obj_insert.simps)
qed

lemma closed_send:
  assumes "check_send uuid op params = Inr a"
    and "op \<in> {''conversationSend'', ''conversationSendDirect''}"
  shows "closed_panel op a"
  using assms
  by (auto simp: check_send_def accept_simps panel_fields_def intro!: closed_obj split: if_splits)

lemmas check_defs = check_stop_def check_respond_def check_read_def check_attachment_put_def
  check_delete_def check_set_options_def check_schedule_run_def check_schedule_save_def
  check_subscribe_def check_unsubscribe_def check_push_register_def check_push_mute_def
  check_inspect_def check_screenshot_def

lemma panel_fields_simps [simp]:
  "panel_fields ''conversationStop'' = {''conversationId''}"
  "panel_fields ''conversationDelete'' = {''conversationId''}"
  "panel_fields ''conversationRespond''
     = {''conversationId'', ''requestId'', ''generation'', ''requestRevision'', ''decision''}"
  "panel_fields ''conversationRead'' = {''conversationId'', ''after''}"
  "panel_fields ''conversationAttachmentPut'' = {''conversationId'', ''data''}"
  "panel_fields ''scheduleRun'' = {''id''}"
  by (simp_all add: panel_fields_def)

lemma closed_rest:
  "check_stop uuid ''conversationStop'' params = Inr a \<Longrightarrow> closed_panel ''conversationStop'' a"
  "check_respond uuid ''conversationRespond'' params = Inr a \<Longrightarrow> closed_panel ''conversationRespond'' a"
  "check_read uuid ''conversationRead'' params = Inr a \<Longrightarrow> closed_panel ''conversationRead'' a"
  "check_attachment_put uuid ''conversationAttachmentPut'' params = Inr a \<Longrightarrow>
     closed_panel ''conversationAttachmentPut'' a"
  "check_delete uuid ''conversationDelete'' params = Inr a \<Longrightarrow> closed_panel ''conversationDelete'' a"
  "check_schedule_run uuid ''scheduleRun'' params = Inr a \<Longrightarrow> closed_panel ''scheduleRun'' a"
       apply (fastforce simp: check_stop_def accept_simps intro!: closed_jobj)
      apply (clarsimp simp: check_respond_def accept_simps Let_def)
      apply (rule closed_obj, simp)
     apply (fastforce simp: check_read_def accept_simps intro!: closed_jobj)
    apply (fastforce simp: check_attachment_put_def accept_simps if_Inr_iff intro!: closed_jobj)
   apply (fastforce simp: check_delete_def accept_simps if_Inr_iff intro!: closed_jobj)
  apply (fastforce simp: check_schedule_run_def accept_simps intro!: closed_jobj)
  done

lemma closed_no_panel:
  "check_set_options uuid op params = Inr a \<Longrightarrow> closed_panel op' a"
  "check_schedule_save uuid op params = Inr a \<Longrightarrow> closed_panel op' a"
  "check_subscribe uuid op params = Inr a \<Longrightarrow> closed_panel op' a"
  "check_unsubscribe uuid op params = Inr a \<Longrightarrow> closed_panel op' a"
  "check_push_register op params = Inr a \<Longrightarrow> closed_panel op' a"
  "check_push_mute uuid op params = Inr a \<Longrightarrow> closed_panel op' a"
  "check_inspect op params = Inr a \<Longrightarrow> closed_panel op' a"
  "check_screenshot uuid op params = Inr a \<Longrightarrow> closed_panel op' a"
  by (auto simp: check_defs and_then_Inr_iff)

text \<open>What holds of the action of every branch holds of the action of the operation.\<close>

definition accepts_only :: "(phone_action \<Rightarrow> bool) \<Rightarrow> refusal + phone_action \<Rightarrow> bool" where
  "accepts_only Q r \<longleftrightarrow> (case r of Inl e \<Rightarrow> True | Inr a \<Rightarrow> Q a)"

lemma accepts_onlyI: "(\<And>a. r = Inr a \<Longrightarrow> Q a) \<Longrightarrow> accepts_only Q r"
  by (simp add: accepts_only_def split: sum.split)

lemma accepts_only_if:
  "(b \<Longrightarrow> accepts_only Q r) \<Longrightarrow> accepts_only Q s \<Longrightarrow> accepts_only Q (if b then r else s)"
  by simp

lemma accepts_onlyD: "accepts_only Q r \<Longrightarrow> r = Inr a \<Longrightarrow> Q a"
  by (simp add: accepts_only_def)

lemma closed_plain:
  "op \<in> {''discover'', ''conversationList'', ''scheduleList''} \<Longrightarrow>
     accepts_only (closed_panel op) (check_list op params)"
  "op = ''conversationCreate'' \<Longrightarrow> accepts_only (closed_panel op) (check_create op params)"
  "op \<in> {''conversationSend'', ''conversationSendDirect''} \<Longrightarrow>
     accepts_only (closed_panel op) (check_send uuid op params)"
  "accepts_only (closed_panel op) (and_then r (\<lambda>_. Inr PushUnregister))"
  "accepts_only (closed_panel op) (and_then r (\<lambda>_. Inr Hello))"
  "accepts_only (closed_panel op) (Inl e)"
  by (rule accepts_onlyI, use closed_list closed_create closed_send in
      \<open>force simp: and_then_Inr_iff\<close>)+

lemma phone_check_closed: "accepts_only (closed_panel op) (phone_check uuid op params)"
  unfolding phone_check_def
  apply (intro accepts_only_if closed_plain; (assumption | rule accepts_onlyI)?)
  apply (simp_all only: closed_rest closed_no_panel)
  done

text \<open>
  C30: Whatever a phone sends, a request forwarded to the panel service is the operation it
  asked for and its parameters hold only the fields listed for that operation: no
  executable, no record flag and no unknown field ever reaches the service.
\<close>
theorem phone_panel_closed:
  assumes "phone_check uuid op params = Inr (Panel operation out)"
  shows "operation = op \<and> (\<exists>m. out = JObj m \<and> obj_keys m \<subseteq> panel_fields op)"
  using accepts_onlyD [OF phone_check_closed assms] by (auto simp: closed_panel_def)

definition example_stop :: json where
  "example_stop = jobj [(''conversationId'', JStr ''u1'')]"

lemma example_stop_check:
  "phone_check (\<lambda>s. s = ''u1'') ''conversationStop'' example_stop
   = Inr (Panel ''conversationStop'' (jobj [(''conversationId'', JStr ''u1'')]))"
  by code_simp

lemma phone_panel_closed_witness:
  "\<exists>m. jobj [(''conversationId'', JStr ''u1'')] = JObj m
     \<and> obj_keys m \<subseteq> panel_fields ''conversationStop''"
  using phone_panel_closed [OF example_stop_check] by blast

text \<open>
  C18: A conversation that a phone creates never has full access and is never elevated: it
  cannot run commands, Pi gets browser tools only, and its model is no command-line option.
\<close>
theorem phone_create_bounded:
  assumes "phone_check uuid ''conversationCreate'' params = Inr a"
  shows "\<exists>m agent options. a = Panel ''conversationCreate'' (JObj m)
     \<and> map_of m ''agentId'' = Some (JStr agent) \<and> map_of m ''options'' = Some (JObj options)
     \<and> map_of m ''fullAccess'' = Some (JBool False)
     \<and> \<not> elevated agent (Option.bind (map_of options ''toolAccess'') as_str) False
     \<and> (\<forall>model. map_of m ''model'' = Some (JStr model) \<longrightarrow> \<not> starts_with model ''-'')"
proof -
  have "check_create ''conversationCreate'' params = Inr a"
    using assms by (simp add: phone_check_def)
  then show ?thesis
  proof (rule check_create_Inr)
    fix m agent out options
    assume out: "create_model m (obj_insert ''agentId'' (JStr agent) []) = Inr out"
      and fin: "create_finish agent out options = Inr a"
    have "map_of out ''agentId'' = Some (JStr agent)"
      "\<forall>model. map_of out ''model'' = Some (JStr model) \<longrightarrow> \<not> starts_with model ''-''"
      using out by (auto simp: create_model_def and_then_Inr_iff map_of_obj_insert
          simp del: obj_insert.simps split: option.splits if_splits)
    moreover have "\<not> elevated agent (Option.bind (map_of options ''toolAccess'') as_str) False"
      using fin by (auto simp: create_finish_Inr elevated_def Let_def simp del: obj_insert.simps)
    ultimately show ?thesis
      using fin unfolding create_finish_Inr
      by (auto simp: map_of_obj_insert simp del: obj_insert.simps)
  qed
qed

definition example_create :: json where
  "example_create = jobj [(''agentId'', JStr ''claude''),
     (''options'', jobj [(''toolAccess'', JStr ''writeFiles'')])]"

lemma example_create_check:
  "phone_check (\<lambda>_. False) ''conversationCreate'' example_create
   = Inr (Panel ''conversationCreate'' (jobj [(''agentId'', JStr ''claude''),
       (''fullAccess'', JBool False), (''options'', jobj [(''toolAccess'', JStr ''writeFiles'')])]))"
  by code_simp

lemma phone_create_bounded_witness:
  "\<exists>m agent options. jobj [(''agentId'', JStr ''claude''), (''fullAccess'', JBool False),
       (''options'', jobj [(''toolAccess'', JStr ''writeFiles'')])] = JObj m
     \<and> map_of m ''agentId'' = Some (JStr agent) \<and> map_of m ''options'' = Some (JObj options)
     \<and> \<not> elevated agent (Option.bind (map_of options ''toolAccess'') as_str) False"
  using phone_create_bounded [OF example_create_check] by blast

section \<open>Conversation ids\<close>

definition action_conversation :: "phone_action \<Rightarrow> string option" where
  "action_conversation a =
     (case a of
        Panel operation out \<Rightarrow>
          if operation = ''conversationCreate'' then None else get_str out ''conversationId''
      | SetOptions c _ \<Rightarrow> Some c | Subscribe c _ \<Rightarrow> Some c | Unsubscribe c \<Rightarrow> Some c
      | PushMute c _ \<Rightarrow> Some c | Screenshot c \<Rightarrow> Some c | _ \<Rightarrow> None)"

lemma action_conversation_jobj:
  "action_conversation (Panel operation (JObj m)) = Some c \<Longrightarrow>
     map_of m ''conversationId'' = Some (JStr c)"
  by (auto simp: action_conversation_def get_str_Some_iff split: if_split_asm)

lemma action_conversation_simps [simp]:
  "action_conversation (SetOptions c m) = Some c" "action_conversation (Subscribe c n) = Some c"
  "action_conversation (Unsubscribe c) = Some c" "action_conversation (PushMute c b) = Some c"
  "action_conversation (Screenshot c) = Some c" "action_conversation (PushRegister t) = None"
  "action_conversation (ScheduleToggle t b) = None" "action_conversation (Inspect t) = None"
  "action_conversation PushUnregister = None" "action_conversation Hello = None"
  "action_conversation (Panel ''conversationCreate'' out) = None"
  by (simp_all add: action_conversation_def)

definition names_uuid :: "(string \<Rightarrow> bool) \<Rightarrow> phone_action \<Rightarrow> bool" where
  "names_uuid uuid a \<longleftrightarrow> (case action_conversation a of None \<Rightarrow> True | Some c \<Rightarrow> uuid c)"

lemma names_uuid_Panel:
  "(\<And>c. map_of m ''conversationId'' = Some (JStr c) \<Longrightarrow> uuid c) \<Longrightarrow>
     names_uuid uuid (Panel operation (JObj m))"
  by (auto simp: names_uuid_def split: option.split dest: action_conversation_jobj)

lemma names_uuid_jobj:
  "(\<And>c. (case map_of (rev kvs) ''conversationId'' of Some v \<Rightarrow> v = JStr c | None \<Rightarrow> False) \<Longrightarrow> uuid c) \<Longrightarrow>
     names_uuid uuid (Panel operation (jobj kvs))"
  unfolding jobj_def
  by (rule names_uuid_Panel) (auto simp: map_of_obj_of split: option.splits)

lemma names_uuid_other [simp]:
  "names_uuid uuid (SetOptions c m) = uuid c" "names_uuid uuid (Subscribe c n) = uuid c"
  "names_uuid uuid (Unsubscribe c) = uuid c" "names_uuid uuid (PushMute c b) = uuid c"
  "names_uuid uuid (Screenshot c) = uuid c" "names_uuid uuid (PushRegister t)"
  "names_uuid uuid (ScheduleToggle t b)" "names_uuid uuid (Inspect t)"
  "names_uuid uuid PushUnregister" "names_uuid uuid Hello"
  "names_uuid uuid (Panel ''conversationCreate'' out)"
  by (simp_all add: names_uuid_def)

lemma names_send: "check_send uuid op params = Inr a \<Longrightarrow> names_uuid uuid a"
  by (auto simp: check_send_def accept_simps if_Inr_iff map_of_obj_remove intro!: names_uuid_Panel)

lemma names_panel:
  "check_stop uuid op params = Inr a \<Longrightarrow> names_uuid uuid a"
  "check_respond uuid op params = Inr a \<Longrightarrow> names_uuid uuid a"
  "check_read uuid op params = Inr a \<Longrightarrow> names_uuid uuid a"
  "check_attachment_put uuid op params = Inr a \<Longrightarrow> names_uuid uuid a"
  "check_delete uuid op params = Inr a \<Longrightarrow> names_uuid uuid a"
  "check_schedule_run uuid op params = Inr a \<Longrightarrow> names_uuid uuid a"
  "check_list op params = Inr a \<Longrightarrow> names_uuid uuid a"
        apply (fastforce simp: check_stop_def accept_simps intro!: names_uuid_jobj)
       apply (fastforce simp: check_respond_def accept_simps Let_def intro!: names_uuid_Panel)
      apply (fastforce simp: check_read_def accept_simps intro!: names_uuid_jobj)
     apply (fastforce simp: check_attachment_put_def accept_simps if_Inr_iff
      intro!: names_uuid_jobj)
    apply (fastforce simp: check_delete_def accept_simps if_Inr_iff intro!: names_uuid_jobj)
   apply (fastforce simp: check_schedule_run_def accept_simps intro!: names_uuid_jobj)
  apply (fastforce simp: check_list_def accept_simps intro!: names_uuid_Panel)
  done

lemma names_create: "check_create op params = Inr a \<Longrightarrow> names_uuid uuid a"
  by (erule check_create_Inr) (simp add: create_finish_Inr del: obj_insert.simps)

lemma names_other:
  "check_set_options uuid op params = Inr a \<Longrightarrow> names_uuid uuid a"
  "check_schedule_save uuid op params = Inr a \<Longrightarrow> names_uuid uuid a"
  "check_subscribe uuid op params = Inr a \<Longrightarrow> names_uuid uuid a"
  "check_unsubscribe uuid op params = Inr a \<Longrightarrow> names_uuid uuid a"
  "check_push_register op params = Inr a \<Longrightarrow> names_uuid uuid a"
  "check_push_mute uuid op params = Inr a \<Longrightarrow> names_uuid uuid a"
  "check_inspect op params = Inr a \<Longrightarrow> names_uuid uuid a"
  "check_screenshot uuid op params = Inr a \<Longrightarrow> names_uuid uuid a"
  by (auto simp: check_defs and_then_Inr_iff conversation_id_Inr)

lemma names_plain:
  "accepts_only (names_uuid uuid) (and_then r (\<lambda>_. Inr PushUnregister))"
  "accepts_only (names_uuid uuid) (and_then r (\<lambda>_. Inr Hello))"
  "accepts_only (names_uuid uuid) (Inl e)"
  by (auto simp: accepts_only_def and_then_def split: sum.split)

lemma phone_check_names: "accepts_only (names_uuid uuid) (phone_check uuid op params)"
  unfolding phone_check_def
  apply (intro accepts_only_if names_plain; (rule accepts_onlyI)?)
  apply (simp_all only: names_send names_create names_panel names_other)
  done

theorem phone_conversation_uuid:
  assumes "phone_check uuid op params = Inr a" "action_conversation a = Some c"
  shows "uuid c"
  using accepts_onlyD [OF phone_check_names assms(1)] assms(2) by (simp add: names_uuid_def)

lemma phone_conversation_uuid_witness: "(\<lambda>s. s = ''u1'') ''u1''"
  by (rule phone_conversation_uuid [OF example_stop_check])
    (simp add: action_conversation_def get_str_def)

end
