(* ===== verification/Ownership.thy ===== *)
theory Ownership
  imports Prelude
begin

text \<open>
  Who drives a session, \<open>cli/src/ownership.rs\<close>, and the sidecar files of a handoff
  (\<open>handoff_wait.rs\<close>). The socket directory is the association list \<open>files\<close> from
  file names to contents; an operation on it takes the outcome of its system calls as a
  value of type \<open>io\<close>.
\<close>


section \<open>Owners and sidecars\<close>

datatype owner = Agent | User

definition owner_as_str :: "owner \<Rightarrow> string" where
  "owner_as_str w = (case w of Agent \<Rightarrow> ''agent'' | User \<Rightarrow> ''user'')"

definition owner_parse :: "unicode \<Rightarrow> string \<Rightarrow> owner" where
  "owner_parse uc s = (if lowercase uc (trim s) = ''user'' then User else Agent)"

type_synonym files = "(string \<times> string) list"

text \<open>
  The outcome of the system calls of one operation: the error each of them gives, what a
  failed write leaves in its file, whether a left-over temporary file, the baseline record and
  the done marker cannot be removed (failures the code ignores).
\<close>

record io =
  mkdir_err :: "string option"
  write_err :: "string option"
  torn :: "string option"
  rename_err :: "string option"
  tmp_stuck :: bool
  remove_err :: "string option"
  baseline_stuck :: bool
  done_stuck :: bool
  pid :: nat

definition owner_path :: "string \<Rightarrow> string" where
  "owner_path session = session @ ''.owner''"

definition owner_tmp :: "nat \<Rightarrow> string \<Rightarrow> string" where
  "owner_tmp p session = session @ ''.owner.'' @ show_nat p @ ''.tmp''"

definition baseline_path :: "string \<Rightarrow> string" where
  "baseline_path session = session @ ''.handoff.json''"

definition done_path :: "string \<Rightarrow> string" where
  "done_path session = session @ ''.handoff-done''"

text \<open>\<open>unreadable\<close>: reading the file fails (no permission, not UTF-8, an input error).\<close>

definition owner_of :: "unicode \<Rightarrow> bool \<Rightarrow> files \<Rightarrow> string \<Rightarrow> owner" where
  "owner_of uc unreadable fs session =
     (if unreadable then Agent
      else (case map_of fs (owner_path session) of
              Some s \<Rightarrow> owner_parse uc s
            | None \<Rightarrow> Agent))"

section \<open>Handing off and resuming\<close>

text \<open>The temporary file is written first and renamed over the sidecar.\<close>

definition hand_off :: "io \<Rightarrow> string \<Rightarrow> files \<Rightarrow> unit result \<times> files" where
  "hand_off io session fs =
     (case mkdir_err io of
        Some e \<Rightarrow> (Inl e, fs)
      | None \<Rightarrow>
          (let tmp = owner_tmp (pid io) session
           in case write_err io of
                Some e \<Rightarrow> (Inl e, case torn io of None \<Rightarrow> fs | Some t \<Rightarrow> AList.update tmp t fs)
              | None \<Rightarrow>
                  (let fs1 = AList.update tmp (''user'' @ [CHR 0x0A]) fs
                   in case rename_err io of
                        Some e \<Rightarrow> (Inl e, if tmp_stuck io then fs1 else AList.delete tmp fs1)
                      | None \<Rightarrow>
                          (Inr (), AList.update (owner_path session) (''user'' @ [CHR 0x0A])
                             (AList.delete tmp fs1)))))"

definition remove_file :: "bool \<Rightarrow> string \<Rightarrow> files \<Rightarrow> files" where
  "remove_file stuck path fs = (if stuck then fs else AList.delete path fs)"

definition clear_sidecars :: "io \<Rightarrow> string \<Rightarrow> files \<Rightarrow> files" where
  "clear_sidecars io session fs =
     remove_file (done_stuck io) (done_path session)
       (remove_file (baseline_stuck io) (baseline_path session) fs)"

definition resume :: "io \<Rightarrow> string \<Rightarrow> files \<Rightarrow> unit result \<times> files" where
  "resume io session fs =
     (case remove_err io of
        Some e \<Rightarrow> (Inl e, fs)
      | None \<Rightarrow>
          if map_of fs (owner_path session) = None then (Inr (), fs)
          else (Inr (), clear_sidecars io session (AList.delete (owner_path session) fs)))"

text \<open>
  What \<open>connection.rs\<close> does to these files when it finds the daemon of a session dead: the
  handoff ends with the daemon.
\<close>

definition cleanup_stale_runtime_files :: "bool \<Rightarrow> io \<Rightarrow> string \<Rightarrow> files \<Rightarrow> files" where
  "cleanup_stale_runtime_files owner_stuck io session fs =
     clear_sidecars io session (remove_file owner_stuck (owner_path session) fs)"

section \<open>The guard\<close>

definition HANDOFF_EXEMPT_ACTIONS :: "string list" where
  "HANDOFF_EXEMPT_ACTIONS = [''status'', ''ping'', ''version'']"

definition HANDOFF_WATCH_ACTIONS :: "string list" where
  "HANDOFF_WATCH_ACTIONS = [''url'', ''title'', ''wait'', ''snapshot'']"

definition session_flag_suffix :: "string \<Rightarrow> string" where
  "session_flag_suffix session =
     (if session = ''default'' \<or> session = [] then [] else '' --session '' @ session)"

definition guard_with :: "string \<Rightarrow> owner \<Rightarrow> string option \<Rightarrow> bool \<Rightarrow> unit result" where
  "guard_with session owner action watching =
     (if owner \<noteq> User then Inr ()
      else (case action of
              None \<Rightarrow> Inr ()
            | Some a \<Rightarrow>
                if a \<in> set HANDOFF_EXEMPT_ACTIONS then Inr ()
                else if watching \<and> a \<in> set HANDOFF_WATCH_ACTIONS then Inr ()
                else Inl ((''session '' @ [CHR 0x27]) @ session
                  @ ([CHR 0x27] @ '' is handed off to the user '' @ [CHR 0xE2, CHR 0x80, CHR 0x94] @ '' the agent must not drive it. Wait for them with `chrome-use session handoff --wait'')
                  @ session_flag_suffix session
                  @ ''` (run it in the background), or run `chrome-use session resume''
                  @ session_flag_suffix session @ ''` once they confirm they're done.'')))"

section \<open>Files of different kinds and sessions\<close>

lemma path_ends [simp]:
  "owner_path s \<noteq> owner_tmp p t" "owner_tmp p t \<noteq> owner_path s"
  "owner_path s \<noteq> baseline_path t" "baseline_path t \<noteq> owner_path s"
  "owner_path s \<noteq> done_path t" "done_path t \<noteq> owner_path s"
proof -
  have l: "last (owner_path s) = CHR ''r''" "last (owner_tmp p t) = CHR ''p''"
    "last (baseline_path t) = CHR ''n''" "last (done_path t) = CHR ''e''"
    by (simp_all add: owner_path_def owner_tmp_def baseline_path_def done_path_def)
  show "owner_path s \<noteq> owner_tmp p t" using l by auto
  then show "owner_tmp p t \<noteq> owner_path s" by simp
  show "owner_path s \<noteq> baseline_path t" using l by auto
  then show "baseline_path t \<noteq> owner_path s" by simp
  show "owner_path s \<noteq> done_path t" using l by auto
  then show "done_path t \<noteq> owner_path s" by simp
qed

lemma owner_path_inj [simp]: "owner_path s = owner_path t \<longleftrightarrow> s = t"
  by (simp add: owner_path_def)

lemma owner_of_irrelevant:
  "map_of fs' (owner_path s) = map_of fs (owner_path s) \<Longrightarrow> owner_of uc x fs' s = owner_of uc x fs s"
  by (simp add: owner_of_def)

lemma remove_file_lookup:
  "map_of (remove_file stuck p fs) q = (if q = p \<and> \<not> stuck then None else map_of fs q)"
  by (simp add: remove_file_def al.lookup_del)

lemma clear_sidecars_owner [simp]:
  "map_of (clear_sidecars io t fs) (owner_path s) = map_of fs (owner_path s)"
  by (simp add: clear_sidecars_def remove_file_lookup)

lemma cleanup_owner:
  "map_of (cleanup_stale_runtime_files stuck io t fs) (owner_path s) =
     (if s = t \<and> \<not> stuck then None else map_of fs (owner_path s))"
  by (simp add: cleanup_stale_runtime_files_def remove_file_lookup)

lemma hand_off_sidecar:
  "map_of (snd (hand_off io t fs)) (owner_path s) =
     (if fst (hand_off io t fs) = Inr () \<and> s = t then Some (''user'' @ [CHR 0x0A]) else map_of fs (owner_path s))"
  by (auto simp: hand_off_def Let_def al.lookup_put al.lookup_del split: option.splits)

lemma resume_sidecar:
  "map_of (snd (resume io t fs)) (owner_path s) =
     (if fst (resume io t fs) = Inr () \<and> s = t then None else map_of fs (owner_path s))"
  by (auto simp: resume_def al.lookup_del split: option.splits)

section \<open>What other commands do to the directory\<close>

text \<open>
  What the program does to these files while a session is handed off: further handoffs,
  resumes, \<open>session done\<close> markers and baselines of any session, a handoff's sidecars forgotten,
  and the removal of a dead daemon's files.
\<close>

datatype fs_event =
    HandOff io string
  | Resume io string
  | MarkDone string string
  | Baseline string string
  | Forget io string
  | CleanUp bool io string

fun fs_step :: "fs_event \<Rightarrow> files \<Rightarrow> files" where
  "fs_step (HandOff io t) fs = snd (hand_off io t fs)"
| "fs_step (Resume io t) fs = snd (resume io t fs)"
| "fs_step (MarkDone t content) fs = AList.update (done_path t) content fs"
| "fs_step (Baseline t content) fs = AList.update (baseline_path t) content fs"
| "fs_step (Forget io t) fs = clear_sidecars io t fs"
| "fs_step (CleanUp stuck io t) fs = cleanup_stale_runtime_files stuck io t fs"

text \<open>The only steps that may end a handoff.\<close>

fun ends_handoff :: "string \<Rightarrow> fs_event \<Rightarrow> bool" where
  "ends_handoff s (Resume io t) \<longleftrightarrow> t = s"
| "ends_handoff s (CleanUp stuck io t) \<longleftrightarrow> t = s"
| "ends_handoff s _ \<longleftrightarrow> False"

lemma fs_step_owned:
  "map_of fs (owner_path s) = Some (''user'' @ [CHR 0x0A]) \<Longrightarrow> \<not> ends_handoff s e \<Longrightarrow>
     map_of (fs_step e fs) (owner_path s) = Some (''user'' @ [CHR 0x0A])"
  by (cases e) (auto simp: hand_off_sidecar resume_sidecar cleanup_owner al.lookup_put)

lemma fs_run_owned:
  "map_of fs (owner_path s) = Some (''user'' @ [CHR 0x0A]) \<Longrightarrow> list_all (\<lambda>e. \<not> ends_handoff s e) es \<Longrightarrow>
     map_of (fold fs_step es fs) (owner_path s) = Some (''user'' @ [CHR 0x0A])"
  by (induction es arbitrary: fs) (auto simp: fs_step_owned)

lemma trim_user: "trim (''user'' @ [CHR 0x0A]) = ''user''"
  by code_simp

lemma owner_of_user:
  "lowercase uc ''user'' = ''user'' \<Longrightarrow> map_of fs (owner_path s) = Some (''user'' @ [CHR 0x0A]) \<Longrightarrow>
     owner_of uc unreadable fs s = (if unreadable then Agent else User)"
  by (simp only: owner_of_def owner_parse_def option.case trim_user if_True refl)

lemma hand_off_owned:
  "fst (hand_off io s fs) = Inr () \<Longrightarrow>
     map_of (snd (hand_off io s fs)) (owner_path s) = Some (''user'' @ [CHR 0x0A])"
  by (simp only: hand_off_sidecar simp_thms if_True)

lemma guard_with_User:
  "guard_with s User (Some a) w = Inr () \<longleftrightarrow>
     a \<in> set HANDOFF_EXEMPT_ACTIONS \<or> (w \<and> a \<in> set HANDOFF_WATCH_ACTIONS)"
  by (simp add: guard_with_def)

text \<open>
  C19: Once a handoff has succeeded the session stays with the user until that session is
  resumed or the files of its dead daemon are cleaned up: whatever handoffs, done markers,
  baselines, forgotten sidecars, and resumes and cleanups of other sessions happen in
  between, with whatever failures, a reader that can read the owner file refuses every
  action except status, ping and version (and, while a watcher runs, the four read-only
  ones). A read that fails counts as the agent's, so the guard then lets everything through.
\<close>
theorem handoff_holds:
  assumes "lowercase uc ''user'' = ''user''"
    and "fst (hand_off io s fs) = Inr ()"
    and "list_all (\<lambda>e. \<not> ends_handoff s e) es"
  shows "let now = fold fs_step es (snd (hand_off io s fs))
    in owner_of uc unreadable now s = (if unreadable then Agent else User)
     \<and> (guard_with s (owner_of uc unreadable now s) (Some a) w = Inr ()
        \<longleftrightarrow> unreadable \<or> a \<in> {''status'', ''ping'', ''version''}
          \<or> (w \<and> a \<in> {''url'', ''title'', ''wait'', ''snapshot''}))"
proof -
  let ?now = "fold fs_step es (snd (hand_off io s fs))"
  have "owner_of uc unreadable ?now s = (if unreadable then Agent else User)"
    by (rule owner_of_user [OF assms(1) fs_run_owned [OF hand_off_owned [OF assms(2)] assms(3)]])
  then show ?thesis
    by (simp add: Let_def guard_with_User HANDOFF_EXEMPT_ACTIONS_def HANDOFF_WATCH_ACTIONS_def)
      (simp add: guard_with_def)
qed

definition good_io :: io where
  "good_io = \<lparr> mkdir_err = None, write_err = None, torn = None, rename_err = None,
     tmp_stuck = False, remove_err = None, baseline_stuck = False, done_stuck = False, pid = 41 \<rparr>"

lemma handoff_holds_witness:
  "let now = fold fs_step [Resume good_io ''other'', CleanUp False good_io ''other'', MarkDone ''work'' ''1'']
       (snd (hand_off good_io ''work'' []))
   in owner_of ascii_tables False now ''work'' = (if False then Agent else User)
     \<and> (guard_with ''work'' (owner_of ascii_tables False now ''work'') (Some ''click'') False = Inr ()
        \<longleftrightarrow> False \<or> ''click'' \<in> {''status'', ''ping'', ''version''}
          \<or> (False \<and> ''click'' \<in> {''url'', ''title'', ''wait'', ''snapshot''}))"
  by (rule handoff_holds) (code_simp+)

lemma handoff_failure_inert:
  "(if s = t \<and> fst (hand_off io t fs) = Inr () then True
    else owner_of uc x (snd (hand_off io t fs)) s = owner_of uc x fs s)
   \<and> (if s = t \<and> fst (resume io t fs) = Inr () then owner_of uc x (snd (resume io t fs)) s = Agent
      else owner_of uc x (snd (resume io t fs)) s = owner_of uc x fs s)"
  by (auto simp: owner_of_def hand_off_sidecar resume_sidecar)

end
