(* ===== verification/HandoffWait.thy ===== *)
theory HandoffWait
  imports Ownership Json
begin

text \<open>
  \<open>session handoff --wait\<close>, \<open>cli/src/handoff_wait.rs\<close>: its options, the conditions it
  waits for and the polling loop. What the loop sees each time round is a \<open>tick\<close>: the
  sidecar directory as other processes have left it, the time, and the daemon's answers.
  The regular-expression crate and the JSON parser are parameters.
\<close>


section \<open>What is waited for\<close>

datatype wait_until = UntilUrl string | UntilText string | UntilGone string | UntilChange

definition describe :: "wait_until \<Rightarrow> json" where
  "describe u =
     (case u of
        UntilUrl v \<Rightarrow> jobj [(''kind'', JStr ''url''), (''value'', JStr v)]
      | UntilText v \<Rightarrow> jobj [(''kind'', JStr ''text''), (''value'', JStr v)]
      | UntilGone v \<Rightarrow> jobj [(''kind'', JStr ''gone''), (''value'', JStr v)]
      | UntilChange \<Rightarrow> jobj [(''kind'', JStr ''change'')])"

text \<open>Durations are milliseconds.\<close>

record wait_spec =
  until :: "wait_until option"
  timeout :: nat
  poll :: nat
  settle :: nat
  ask_note :: "string option"

definition MAX_NOTE_CHARS :: nat where "MAX_NOTE_CHARS = 300"
definition DEFAULT_TIMEOUT :: nat where "DEFAULT_TIMEOUT = 30 * 60 * 1000"
definition DEFAULT_POLL :: nat where "DEFAULT_POLL = 1500"
definition DEFAULT_SETTLE :: nat where "DEFAULT_SETTLE = 3000"
definition MAX_POLL :: nat where "MAX_POLL = 5000"
definition MAX_POLL_FAILURES :: nat where "MAX_POLL_FAILURES = 20"

section \<open>The options\<close>

definition parse_duration :: "string \<Rightarrow> nat result" where
  "parse_duration s0 =
     (let s = trim s0;
          (num, mul) =
            (case strip_suffix s ''ms'' of Some n \<Rightarrow> (n, 1) | None \<Rightarrow>
             (case strip_suffix s ''s'' of Some n \<Rightarrow> (n, 1000) | None \<Rightarrow>
             (case strip_suffix s ''m'' of Some n \<Rightarrow> (n, 60000) | None \<Rightarrow>
             (case strip_suffix s ''h'' of Some n \<Rightarrow> (n, 3600000) | None \<Rightarrow> (s, 1)))))
      in case parse_u64 (trim num) of
           Some n \<Rightarrow> Inr (min (n * mul) (2 ^ 64 - 1))
         | None \<Rightarrow> Inl ((''bad duration '' @ [CHR 0x27]) @ s @ ([CHR 0x27] @ '' (use e.g. 500ms, 90s, 30m)'')))"

record wait_args =
  a_wait :: bool
  a_option :: bool
  a_spec :: wait_spec

definition arg_value :: "string \<Rightarrow> string list \<Rightarrow> string result" where
  "arg_value a rest =
     (case rest of
        v # _ \<Rightarrow> if v \<noteq> [] \<and> \<not> starts_with v ''--'' then Inr v else Inl (a @ '' needs a value'')
      | [] \<Rightarrow> Inl (a @ '' needs a value''))"

definition set_until :: "wait_until \<Rightarrow> wait_args \<Rightarrow> wait_args result" where
  "set_until u st =
     (if until (a_spec st) \<noteq> None then Inl ''give only one --until-* condition''
      else Inr (st\<lparr>a_spec := (a_spec st)\<lparr>until := Some u\<rparr>\<rparr>))"

definition set_option :: "(wait_spec \<Rightarrow> wait_spec) \<Rightarrow> wait_args \<Rightarrow> wait_args" where
  "set_option f st = st\<lparr>a_option := True, a_spec := f (a_spec st)\<rparr>"

text \<open>One round of the loop over the arguments: the new state and how many arguments
  after the flag it has used.\<close>

definition arg_step :: "wait_args \<Rightarrow> string \<Rightarrow> string list \<Rightarrow> (wait_args \<times> nat) result" where
  "arg_step st a rest =
     (if a = ''--wait'' then Inr (st\<lparr>a_wait := True\<rparr>, 0)
      else if a = ''--until-url'' then
        and_then (arg_value a rest) (\<lambda>v. and_then (set_until (UntilUrl v) st) (\<lambda>st. Inr (st, 1)))
      else if a = ''--until-text'' then
        and_then (arg_value a rest) (\<lambda>v. and_then (set_until (UntilText v) st) (\<lambda>st. Inr (st, 1)))
      else if a = ''--until-gone'' then
        and_then (arg_value a rest) (\<lambda>v. and_then (set_until (UntilGone v) st) (\<lambda>st. Inr (st, 1)))
      else if a = ''--until-change'' then and_then (set_until UntilChange st) (\<lambda>st. Inr (st, 0))
      else if a = ''--timeout'' then
        and_then (arg_value a rest) (\<lambda>v. and_then (parse_duration v) (\<lambda>d.
          Inr (set_option (\<lambda>sp. sp\<lparr>timeout := d\<rparr>) st, 1)))
      else if a = ''--poll'' then
        and_then (arg_value a rest) (\<lambda>v. and_then (parse_duration v) (\<lambda>d.
          Inr (set_option (\<lambda>sp. sp\<lparr>poll := max 250 (min d MAX_POLL)\<rparr>) st, 1)))
      else if a = ''--settle'' then
        and_then (arg_value a rest) (\<lambda>v. and_then (parse_duration v) (\<lambda>d.
          Inr (set_option (\<lambda>sp. sp\<lparr>settle := d\<rparr>) st, 1)))
      else if a = ''--note'' then
        and_then (arg_value a rest) (\<lambda>v.
          Inr (set_option (\<lambda>sp. sp\<lparr>ask_note := Some (take_chars MAX_NOTE_CHARS (trim v))\<rparr>) st, 1))
      else Inl (''unknown option for session handoff: '' @ a))"

fun args_loop :: "wait_args \<Rightarrow> string list \<Rightarrow> wait_args result" where
  "args_loop st [] = Inr st"
| "args_loop st (a # rest) =
     (case arg_step st a rest of
        Inl e \<Rightarrow> Inl e
      | Inr (st', used) \<Rightarrow> args_loop st' (drop used rest))"

definition no_args :: wait_args where
  "no_args = \<lparr> a_wait = False, a_option = False,
     a_spec = \<lparr> until = None, timeout = DEFAULT_TIMEOUT, poll = DEFAULT_POLL,
               settle = DEFAULT_SETTLE, ask_note = None \<rparr> \<rparr>"

definition parse_args :: "string list \<Rightarrow> wait_spec option result" where
  "parse_args args =
     and_then (args_loop no_args args) (\<lambda>st.
       if \<not> a_wait st \<and> until (a_spec st) = None then
         (if a_option st then Inl ''--timeout/--poll/--settle/--note only apply with --wait''
          else Inr None)
       else Inr (Some (a_spec st)))"

section \<open>Address patterns\<close>

definition glob_special :: "char \<Rightarrow> bool" where
  "glob_special c \<longleftrightarrow> c \<in> set (''.+()|[]{}^$'' @ [CHR 0x5C])"

fun glob_body :: "string \<Rightarrow> string" where
  "glob_body [] = []"
| "glob_body (c # cs) =
     (if c = CHR ''*'' then
        (case cs of
           d # ds \<Rightarrow> if d = CHR ''*'' then ''.*'' @ glob_body ds else ''[^/]*'' @ glob_body cs
         | [] \<Rightarrow> ''[^/]*'')
      else if c = CHR ''?'' then CHR ''.'' # glob_body cs
      else if glob_special c then CHR 0x5C # c # glob_body cs
      else c # glob_body cs)"

definition glob_regex :: "string \<Rightarrow> string" where
  "glob_regex pattern = ''^'' @ glob_body pattern @ ''$''"

text \<open>\<open>regex re s\<close> is \<open>None\<close> when the crate does not accept \<open>re\<close>.\<close>

definition url_matches :: "(string \<Rightarrow> string \<Rightarrow> bool option) \<Rightarrow> string \<Rightarrow> string \<Rightarrow> bool" where
  "url_matches regex url pattern =
     (if CHR ''*'' \<in> set pattern \<or> CHR ''?'' \<in> set pattern
      then regex (glob_regex pattern) url = Some True
      else contains url pattern)"

section \<open>Pages and the daemon's answers\<close>

record page_state =
  page_url :: string
  page_title :: "string option"

definition same_as :: "page_state \<Rightarrow> page_state \<Rightarrow> bool" where
  "same_as p q \<longleftrightarrow> page_url p = page_url q
     \<and> (case (page_title p, page_title q) of (Some a, Some b) \<Rightarrow> a = b | _ \<Rightarrow> True)"

record response =
  success :: bool
  error :: "string option"
  data :: "json option"

definition data_str :: "response \<Rightarrow> string \<Rightarrow> string result" where
  "data_str resp k =
     (if \<not> success resp then Inl (unwrap_or ''command failed'' (error resp))
      else Inr (unwrap_or [] (Option.bind (Option.bind (data resp) (\<lambda>d. jget d k)) as_str)))"

text \<open>The answers to the \<open>url\<close> and \<open>title\<close> commands, an error where sending failed.\<close>

definition read_page :: "response result \<Rightarrow> response result \<Rightarrow> page_state result" where
  "read_page url_answer title_answer =
     and_then url_answer (\<lambda>r. and_then (data_str r ''url'') (\<lambda>url.
       Inr \<lparr> page_url = url,
             page_title = (case and_then title_answer (\<lambda>t. data_str t ''title'') of
                             Inr t \<Rightarrow> Some t | Inl _ \<Rightarrow> None) \<rparr>))"

definition active_target :: "response result \<Rightarrow> string option" where
  "active_target tabs =
     (case tabs of
        Inl _ \<Rightarrow> None
      | Inr r \<Rightarrow>
          if \<not> success r then None
          else Option.bind (data r) (\<lambda>d.
               Option.bind (as_array (jidx d ''tabs'')) (\<lambda>ts.
               Option.bind (find (\<lambda>t. jidx t ''active'' = JBool True) ts) (\<lambda>t.
                 as_str (jidx t ''targetId'')))))"

definition condition_answer :: "wait_until \<Rightarrow> response result \<Rightarrow> bool result" where
  "condition_answer u answer =
     (case u of
        UntilUrl _ \<Rightarrow> Inr False
      | UntilChange \<Rightarrow> Inr False
      | _ \<Rightarrow> and_then answer (\<lambda>resp.
          if success resp then Inr True
          else let err = unwrap_or [] (error resp)
               in if contains err ''timed out'' \<or> contains err ''Timeout'' then Inr False
                  else Inl err))"

definition mark_done :: "io \<Rightarrow> nat \<Rightarrow> string \<Rightarrow> files \<Rightarrow> unit result \<times> files" where
  "mark_done io now session fs =
     (case mkdir_err io of
        Some e \<Rightarrow> (Inl e, fs)
      | None \<Rightarrow>
          (case write_err io of
             Some e \<Rightarrow>
               (Inl e, case torn io of None \<Rightarrow> fs | Some t \<Rightarrow> AList.update (done_path session) t fs)
           | None \<Rightarrow> (Inr (), AList.update (done_path session) (show_nat now) fs)))"

text \<open>\<open>show\<close> is the JSON printer; \<open>ready\<close> whether the daemon answers.\<close>

definition record_plain ::
  "unicode \<Rightarrow> bool \<Rightarrow> (json \<Rightarrow> string) \<Rightarrow> io \<Rightarrow> nat \<Rightarrow> bool \<Rightarrow> response result \<Rightarrow> string
     \<Rightarrow> files \<Rightarrow> bool \<times> files" where
  "record_plain uc unreadable show_json io now ready tabs session fs =
     (if owner_of uc unreadable fs session = User \<or> \<not> ready then (False, fs)
      else (case active_target tabs of
              None \<Rightarrow> (False, fs)
            | Some target \<Rightarrow>
                (case write_err io of
                   Some e \<Rightarrow>
                     (False, case torn io of None \<Rightarrow> fs
                             | Some t \<Rightarrow> AList.update (baseline_path session) t fs)
                 | None \<Rightarrow>
                     (True, AList.update (baseline_path session)
                        (show_json (jobj [(''since'', JNum (JInt (int now))),
                                          (''target'', JStr target)])) fs))))"

section \<open>Detecting a change that has settled\<close>

record change_watch =
  watch_baseline :: page_state
  watch_last :: "page_state option"
  stable_since :: "nat option"

definition new_watch :: "page_state \<Rightarrow> change_watch" where
  "new_watch b = \<lparr> watch_baseline = b, watch_last = None, stable_since = None \<rparr>"

definition observe :: "nat \<Rightarrow> page_state \<Rightarrow> nat \<Rightarrow> change_watch \<Rightarrow> bool \<times> change_watch" where
  "observe now page hold w =
     (if same_as page (watch_baseline w)
      then (False, w\<lparr>watch_last := None, stable_since := None\<rparr>)
      else let w' = (if (case watch_last w of Some l \<Rightarrow> same_as l page | None \<Rightarrow> False) then w
                     else w\<lparr>watch_last := Some page, stable_since := Some now\<rparr>)
           in ((case stable_since w' of Some t \<Rightarrow> hold \<le> now - t | None \<Rightarrow> False), w'))"

text \<open>The sleep before the next poll, with \<open>u64\<close> arithmetic that wraps.\<close>

definition jittered :: "64 word \<Rightarrow> nat \<Rightarrow> 64 word \<Rightarrow> nat" where
  "jittered now_ms every tick =
     (let spread = every div 5
      in if spread = 0 then every
         else let seed = unat (xor now_ms (tick * 0x9E3779B97F4A7C15))
              in every - spread + seed mod (2 * spread + 1))"

section \<open>The loop\<close>

datatype outcome = Condition | UserDone | ResumedElsewhere | Changed | Timeout

definition resumes :: "outcome \<Rightarrow> bool" where
  "resumes r \<longleftrightarrow> r \<in> {Condition, UserDone, ResumedElsewhere}"

definition outcome_as_str :: "outcome \<Rightarrow> string" where
  "outcome_as_str r =
     (case r of Condition \<Rightarrow> ''condition'' | UserDone \<Rightarrow> ''user_done''
      | ResumedElsewhere \<Rightarrow> ''resumed_elsewhere'' | Changed \<Rightarrow> ''changed'' | Timeout \<Rightarrow> ''timeout'')"

text \<open>
  \<open>t_unreadable\<close>: reading the owner file fails at this poll.
\<close>

record tick =
  t_files :: files
  t_unreadable :: bool
  t_elapsed :: nat
  t_now :: nat
  t_ready :: bool
  t_page :: "page_state result"
  t_cond :: "response result"

definition polled ::
  "(string \<Rightarrow> string \<Rightarrow> bool option) \<Rightarrow> wait_spec \<Rightarrow> tick \<Rightarrow> change_watch
     \<Rightarrow> bool result \<times> change_watch" where
  "polled regex spec t w =
     (case until spec of
        None \<Rightarrow> (if t_ready t then Inr False else Inl ''the session's daemon is not answering'', w)
      | Some (UntilUrl p) \<Rightarrow>
          (and_then (t_page t) (\<lambda>pg. Inr (url_matches regex (page_url pg) p)), w)
      | Some UntilChange \<Rightarrow>
          (case t_page t of
             Inl e \<Rightarrow> (Inl e, w)
           | Inr pg \<Rightarrow> (let (b, w') = observe (t_now t) pg (settle spec) w in (Inr b, w')))
      | Some u \<Rightarrow> (condition_answer u (t_cond t), w))"

text \<open>
  \<open>None\<close> means that the ticks given have run out with the loop still waiting. The result
  names the tick the loop left at, how many polls had failed in a row and the last error.
\<close>

record wait_state =
  w_change :: change_watch
  w_failures :: nat
  w_error :: "string option"

definition after_poll :: "bool result \<Rightarrow> change_watch \<Rightarrow> wait_state \<Rightarrow> wait_state" where
  "after_poll r w st =
     (case r of
        Inr _ \<Rightarrow> st\<lparr>w_change := w, w_failures := 0\<rparr>
      | Inl e \<Rightarrow> st\<lparr>w_change := w, w_failures := w_failures st + 1, w_error := Some e\<rparr>)"

fun wait_loop ::
  "(string \<Rightarrow> string \<Rightarrow> bool option) \<Rightarrow> unicode \<Rightarrow> string \<Rightarrow> wait_spec \<Rightarrow> wait_state
     \<Rightarrow> tick list \<Rightarrow> ((string + outcome) \<times> tick \<times> wait_state) option" where
  "wait_loop regex uc session spec st [] = None"
| "wait_loop regex uc session spec st (t # ts) =
     (if map_of (t_files t) (done_path session) \<noteq> None then Some (Inr UserDone, t, st)
      else if owner_of uc (t_unreadable t) (t_files t) session \<noteq> User then Some (Inr ResumedElsewhere, t, st)
      else if timeout spec \<le> t_elapsed t then Some (Inr Timeout, t, st)
      else let (r, w) = polled regex spec t (w_change st); st' = after_poll r w st
           in if r = Inr True
              then Some (Inr (if until spec = Some UntilChange then Changed else Condition), t, st')
              else if MAX_POLL_FAILURES \<le> w_failures st' then
                Some (Inl (''lost the browser session while waiting ('' @ unwrap_or [] (w_error st')
                           @ ''); the session stays handed off''), t, st')
              else wait_loop regex uc session spec st' ts)"

section \<open>The whole command\<close>

text \<open>What the command is given: the daemon's first answers, the outcome of its own
  system calls, the clock, and the ticks of its loop.\<close>

record wait_env =
  e_ready :: bool
  e_page :: "page_state result"
  e_tabs :: "response result"
  e_now :: nat
  e_unreadable :: bool
  e_baseline_unreadable :: bool
  e_record_err :: "string option"
  e_io :: io
  e_resume_io :: io
  e_clear_io :: io
  e_ticks :: "tick list"

definition stored_page :: "json option \<Rightarrow> page_state option" where
  "stored_page prior =
     Option.bind prior (\<lambda>v.
     Option.bind (as_str (jidx v ''url'')) (\<lambda>url.
       Some \<lparr> page_url = url, page_title = as_str (jidx v ''title'') \<rparr>))"

text \<open>
  The baseline record is written and the session handed over, unless it already was. A
  left-over done marker is removed first; that failing is ignored.
\<close>

definition record_handoff ::
  "unicode \<Rightarrow> (json \<Rightarrow> string) \<Rightarrow> wait_env \<Rightarrow> string \<Rightarrow> wait_spec \<Rightarrow> bool \<Rightarrow> json option \<Rightarrow>
     page_state \<Rightarrow> files \<Rightarrow> unit result \<times> files" where
  "record_handoff uc show_json env session spec already prior baseline fs =
     (let since = unwrap_or (e_now env) (Option.bind prior (\<lambda>v. as_u64 (jidx v ''since'')));
          target = or_else (Option.bind prior (\<lambda>v. as_str (jidx v ''target'')))
                     (active_target (e_tabs env))
      in case e_record_err env of
           Some e \<Rightarrow>
             (Inl (''could not record the handoff: '' @ e),
              case torn (e_io env) of None \<Rightarrow> fs
              | Some t \<Rightarrow> AList.update (baseline_path session) t fs)
         | None \<Rightarrow>
             (let fs1 = AList.update (baseline_path session) (show_json (jobj
                   [(''url'', JStr (page_url baseline)),
                    (''title'', jstr_opt (page_title baseline)),
                    (''since'', JNum (JInt (int since))),
                    (''until'', (case until spec of None \<Rightarrow> JNull | Some u \<Rightarrow> describe u)),
                    (''note'', jstr_opt (ask_note spec)),
                    (''target'', jstr_opt target)])) fs
              in if already then (Inr (), fs1)
                 else hand_off (e_io env) session (remove_file (done_stuck (e_io env)) (done_path session) fs1)))"

text \<open>
  The result is the outcome and the tick it was reached at; \<open>None\<close> where the loop is still
  waiting when the given ticks have run out. The directory after the loop is the last
  tick's.
\<close>

definition handoff_run ::
  "(string \<Rightarrow> string \<Rightarrow> bool option) \<Rightarrow> unicode \<Rightarrow> (string \<Rightarrow> json option) \<Rightarrow> (json \<Rightarrow> string) \<Rightarrow>
     wait_env \<Rightarrow> string \<Rightarrow> wait_spec \<Rightarrow> files \<Rightarrow> ((string + outcome) \<times> files) option" where
  "handoff_run regex uc parse_json show_json env session spec fs =
     (if \<not> e_ready env then
        Some (Inl ((''no running browser session '' @ [CHR 0x27]) @ session
              @ ([CHR 0x27] @ '' to watch '' @ [CHR 0xE2, CHR 0x80, CHR 0x94] @ '' open the page first'')), fs)
      else
        let already = (owner_of uc (e_unreadable env) fs session = User);
            prior = (if already \<and> \<not> e_baseline_unreadable env
                     then Option.bind (map_of fs (baseline_path session)) parse_json else None)
        in case (case stored_page prior of Some b \<Rightarrow> Inr b | None \<Rightarrow> e_page env) of
             Inl e \<Rightarrow> Some (Inl e, fs)
           | Inr baseline \<Rightarrow>
               (case record_handoff uc show_json env session spec already prior baseline fs of
                  (Inl e, fs1) \<Rightarrow> Some (Inl e, fs1)
                | (Inr _, fs1) \<Rightarrow>
                    (case wait_loop regex uc session spec
                            \<lparr> w_change = new_watch baseline, w_failures = 0, w_error = None \<rparr>
                            (e_ticks env) of
                       None \<Rightarrow> None
                     | Some (Inl e, t, st) \<Rightarrow> Some (Inl e, t_files t)
                     | Some (Inr r, t, st) \<Rightarrow>
                         (if resumes r then
                            (case resume (e_resume_io env) session (t_files t) of
                               (Inl e, fs2) \<Rightarrow> Some (Inl e, fs2)
                             | (Inr _, fs2) \<Rightarrow> Some (Inr r, clear_sidecars (e_clear_io env) session fs2))
                          else Some (Inr r, t_files t)))))"

section \<open>Why a wait ends\<close>

definition condition_held ::
  "(string \<Rightarrow> string \<Rightarrow> bool option) \<Rightarrow> wait_until \<Rightarrow> tick \<Rightarrow> bool" where
  "condition_held regex u t \<longleftrightarrow>
     (case u of
        UntilUrl p \<Rightarrow> (\<exists>pg. t_page t = Inr pg \<and> url_matches regex (page_url pg) p)
      | UntilText _ \<Rightarrow> (\<exists>resp. t_cond t = Inr resp \<and> success resp)
      | UntilGone _ \<Rightarrow> (\<exists>resp. t_cond t = Inr resp \<and> success resp)
      | UntilChange \<Rightarrow> False)"

definition ended_by ::
  "(string \<Rightarrow> string \<Rightarrow> bool option) \<Rightarrow> unicode \<Rightarrow> string \<Rightarrow> wait_spec \<Rightarrow> outcome \<Rightarrow> tick \<Rightarrow> bool" where
  "ended_by regex uc session spec r t \<longleftrightarrow>
     (case r of
        UserDone \<Rightarrow> map_of (t_files t) (done_path session) \<noteq> None
      | ResumedElsewhere \<Rightarrow> owner_of uc (t_unreadable t) (t_files t) session = Agent
      | Timeout \<Rightarrow> owner_of uc False (t_files t) session = User \<and> timeout spec \<le> t_elapsed t
      | Changed \<Rightarrow> owner_of uc False (t_files t) session = User \<and> until spec = Some UntilChange
      | Condition \<Rightarrow> (\<exists>u. until spec = Some u \<and> condition_held regex u t))"

lemma condition_answer_True:
  "condition_answer u answer = Inr True \<longleftrightarrow>
     (\<forall>p. u \<noteq> UntilUrl p) \<and> u \<noteq> UntilChange \<and> (\<exists>resp. answer = Inr resp \<and> success resp)"
  by (cases u) (auto simp: condition_answer_def and_then_Inr_iff Let_def split: if_split_asm)

lemma polled_True:
  assumes "polled regex spec t w = (Inr True, w')" "until spec \<noteq> Some UntilChange"
  shows "\<exists>u. until spec = Some u \<and> condition_held regex u t"
proof (cases "until spec")
  case None
  with assms show ?thesis by (simp add: polled_def split: if_split_asm)
next
  case (Some u)
  with assms show ?thesis
    by (cases u) (auto simp: polled_def condition_held_def and_then_Inr_iff condition_answer_True)
qed

lemma wait_loop_end:
  "wait_loop regex uc session spec st ts = Some (Inr r, t, st') \<Longrightarrow>
     t \<in> set ts \<and> ended_by regex uc session spec r t"
proof (induction ts arbitrary: st)
  case Nil
  then show ?case by simp
next
  case (Cons a ts)
  obtain q w where pw: "polled regex spec a (w_change st) = (q, w)" by force
  have owner: "owner_of uc (t_unreadable a) (t_files a) session = User \<and> \<not> t_unreadable a
      \<or> owner_of uc (t_unreadable a) (t_files a) session = Agent"
    using owner.exhaust by (auto simp: owner_of_def)
  show ?case
    using Cons.prems pw owner polled_True [of regex spec a "w_change st" w]
      Cons.IH [of "after_poll q w st"]
    by (auto simp: Let_def ended_by_def split: if_split_asm)
qed

lemma wait_loop_returns:
  "t \<in> set ts \<Longrightarrow> timeout spec \<le> t_elapsed t \<Longrightarrow>
     wait_loop regex uc session spec st ts \<noteq> None"
proof (induction ts arbitrary: st)
  case Nil
  then show ?case by simp
next
  case (Cons a ts)
  obtain q w where pw: "polled regex spec a (w_change st) = (q, w)" by force
  show ?case
    using Cons.prems pw Cons.IH [of "after_poll q w st"] by (auto simp: Let_def)
qed

lemma resume_ok:
  "resume io s fs = (Inr u, fs') \<Longrightarrow> map_of fs' (owner_path s) = None"
  using resume_sidecar [of io s fs s] by simp

text \<open>A sidecar is left behind only when its removal failed.\<close>

definition wait_ends_with ::
  "wait_env \<Rightarrow> string \<Rightarrow> outcome \<Rightarrow> files \<Rightarrow> tick \<Rightarrow> bool" where
  "wait_ends_with env session r fs' t \<longleftrightarrow>
     (if resumes r then map_of fs' (owner_path session) = None
        \<and> (map_of fs' (done_path session) = None \<or> done_stuck (e_clear_io env))
        \<and> (map_of fs' (baseline_path session) = None \<or> baseline_stuck (e_clear_io env))
      else fs' = t_files t)"

lemma clear_sidecars_gone:
  "map_of (clear_sidecars io s fs) (done_path s) = None \<or> done_stuck io"
  "map_of (clear_sidecars io s fs) (baseline_path s) = None \<or> baseline_stuck io"
  by (auto simp: clear_sidecars_def remove_file_lookup)

lemma owner_of_gone: "map_of fs (owner_path s) = None \<Longrightarrow> owner_of uc x fs s = Agent"
  by (simp add: owner_of_def)

lemma handoff_run_outcome:
  assumes "handoff_run regex uc parse_json show_json env session spec fs = Some (Inr r, fs')"
  obtains t where "t \<in> set (e_ticks env)" "ended_by regex uc session spec r t"
    "wait_ends_with env session r fs' t"
proof -
  obtain b t st where
    loop: "wait_loop regex uc session spec
       \<lparr> w_change = new_watch b, w_failures = 0, w_error = None \<rparr> (e_ticks env)
       = Some (Inr r, t, st)"
    and rest: "(if resumes r then
                  (case resume (e_resume_io env) session (t_files t) of
                     (Inl e, fs2) \<Rightarrow> Some (Inl e, fs2)
                   | (Inr _, fs2) \<Rightarrow> Some (Inr r, clear_sidecars (e_clear_io env) session fs2))
                else Some (Inr r, t_files t)) = Some (Inr r, fs')"
    using assms unfolding handoff_run_def Let_def
    by (auto split: if_split_asm sum.split_asm prod.split_asm option.split_asm)
  have "wait_ends_with env session r fs' t"
    using rest clear_sidecars_gone [of "e_clear_io env" session]
    by (auto simp: wait_ends_with_def resume_ok split: if_split_asm sum.split_asm prod.split_asm)
  then show ?thesis
    using that wait_loop_end [OF loop] by blast
qed

text \<open>
  C4: A handoff wait gives the session back to the agent only when at a poll the done marker
  was there, the declared URL, text or gone condition held, or the owner file did not say
  user or could not be read (which the code takes for a resume elsewhere). Then the owner
  file is gone, and so are the done marker and the baseline record unless removing them
  failed. A page change or the timeout leaves the session with the user and the directory as
  it was.
\<close>
theorem wait_resumes_only_when_done:
  assumes "handoff_run regex uc parse_json show_json env session spec fs = Some (Inr r, fs')"
  shows "\<exists>t \<in> set (e_ticks env). (case r of
      UserDone \<Rightarrow> map_of (t_files t) (done_path session) \<noteq> None
    | ResumedElsewhere \<Rightarrow> t_unreadable t \<or> owner_of uc False (t_files t) session = Agent
    | Condition \<Rightarrow> (\<exists>u. until spec = Some u \<and> condition_held regex u t)
    | Changed \<Rightarrow> until spec = Some UntilChange \<and> owner_of uc False fs' session = User
    | Timeout \<Rightarrow> timeout spec \<le> t_elapsed t \<and> owner_of uc False fs' session = User)
    \<and> (if r \<in> {UserDone, ResumedElsewhere, Condition}
       then owner_of uc False fs' session = Agent \<and> map_of fs' (owner_path session) = None
         \<and> (map_of fs' (done_path session) = None \<or> done_stuck (e_clear_io env))
         \<and> (map_of fs' (baseline_path session) = None \<or> baseline_stuck (e_clear_io env))
       else fs' = t_files t)"
proof -
  from assms obtain t where t: "t \<in> set (e_ticks env)" "ended_by regex uc session spec r t"
    "wait_ends_with env session r fs' t"
    by (rule handoff_run_outcome)
  show ?thesis
  proof (intro bexI [OF _ t(1)] conjI)
    show "case r of
        UserDone \<Rightarrow> map_of (t_files t) (done_path session) \<noteq> None
      | ResumedElsewhere \<Rightarrow> t_unreadable t \<or> owner_of uc False (t_files t) session = Agent
      | Condition \<Rightarrow> (\<exists>u. until spec = Some u \<and> condition_held regex u t)
      | Changed \<Rightarrow> until spec = Some UntilChange \<and> owner_of uc False fs' session = User
      | Timeout \<Rightarrow> timeout spec \<le> t_elapsed t \<and> owner_of uc False fs' session = User"
      using t(2,3) by (cases r; cases "t_unreadable t")
        (simp_all add: ended_by_def wait_ends_with_def resumes_def)
    show "if r \<in> {UserDone, ResumedElsewhere, Condition}
       then owner_of uc False fs' session = Agent \<and> map_of fs' (owner_path session) = None
         \<and> (map_of fs' (done_path session) = None \<or> done_stuck (e_clear_io env))
         \<and> (map_of fs' (baseline_path session) = None \<or> baseline_stuck (e_clear_io env))
       else fs' = t_files t"
      using t(3) by (cases r) (simp_all add: wait_ends_with_def resumes_def owner_of_gone)
  qed
qed

definition example_tick :: "nat \<Rightarrow> string \<Rightarrow> tick" where
  "example_tick elapsed url = \<lparr> t_files = [(owner_path ''work'', (''user'' @ [CHR 0x0A]))], t_unreadable = False,
     t_elapsed = elapsed, t_now = elapsed, t_ready = True,
     t_page = Inr \<lparr> page_url = url, page_title = None \<rparr>, t_cond = Inl ''none'' \<rparr>"

definition example_spec :: "wait_until option \<Rightarrow> wait_spec" where
  "example_spec u = \<lparr> until = u, timeout = 60, poll = 15, settle = 3, ask_note = None \<rparr>"

definition example_env :: "tick list \<Rightarrow> wait_env" where
  "example_env ts = \<lparr> e_ready = True, e_page = Inr \<lparr> page_url = ''https://a/login'', page_title = None \<rparr>,
     e_tabs = Inl ''none'', e_now = 1, e_unreadable = False, e_baseline_unreadable = False,
     e_record_err = None, e_io = good_io, e_resume_io = good_io, e_clear_io = good_io, e_ticks = ts \<rparr>"

lemma example_wait_runs:
  "handoff_run (\<lambda>_ _. None) ascii_tables (\<lambda>_. None) (\<lambda>_. ''{}'')
     (example_env [example_tick 0 ''https://a/login'', example_tick 15 ''https://a/home''])
     ''work'' (example_spec (Some (UntilUrl ''/home''))) [] = Some (Inr Condition, [])"
  by code_simp

lemma wait_resumes_only_when_done_witness:
  "\<exists>t \<in> set (e_ticks (example_env
       [example_tick 0 ''https://a/login'', example_tick 15 ''https://a/home''])).
     (\<exists>u. until (example_spec (Some (UntilUrl ''/home''))) = Some u
        \<and> condition_held (\<lambda>_ _. None) u t) \<and> owner_of ascii_tables False [] ''work'' = Agent"
  using wait_resumes_only_when_done [OF example_wait_runs] unfolding outcome.case by auto

text \<open>
  A poll that cannot read the owner file ends the wait as if the session had been resumed, and
  takes it from the user.
\<close>

lemma unreadable_owner_taken_back:
  "handoff_run (\<lambda>_ _. None) ascii_tables (\<lambda>_. None) (\<lambda>_. ''{}'')
     (example_env [(example_tick 0 ''https://a/login'')\<lparr>t_unreadable := True\<rparr>])
     ''work'' (example_spec None) [] = Some (Inr ResumedElsewhere, [])"
  by code_simp

lemma handoff_run_None:
  "handoff_run regex uc parse_json show_json env session spec fs = None \<Longrightarrow>
     \<exists>st. wait_loop regex uc session spec st (e_ticks env) = None"
  unfolding handoff_run_def Let_def
  by (auto split: if_split_asm sum.split_asm prod.split_asm option.split_asm)

text \<open>
  C21: A handoff wait returns: whatever the daemon, the page and other processes do, it has
  an outcome or an error no later than the first time round the loop at which the timeout
  has passed.
\<close>
theorem wait_returns:
  assumes "t \<in> set (e_ticks env)" "timeout spec \<le> t_elapsed t"
  shows "\<exists>r fs'. handoff_run regex uc parse_json show_json env session spec fs = Some (r, fs')"
proof (cases "handoff_run regex uc parse_json show_json env session spec fs")
  case None
  then show ?thesis
    using handoff_run_None wait_loop_returns [OF assms] by blast
qed auto

lemma wait_returns_witness:
  "\<exists>r fs'. handoff_run (\<lambda>_ _. None) ascii_tables (\<lambda>_. None) (\<lambda>_. ''{}'')
     (example_env [example_tick 60 ''https://a/login'']) ''work'' (example_spec None) []
     = Some (r, fs')"
  by (rule wait_returns [of "example_tick 60 ''https://a/login''"])
    (simp_all add: example_env_def example_tick_def example_spec_def)

section \<open>A change counts once it has settled\<close>

definition watch_run :: "nat \<Rightarrow> change_watch \<Rightarrow> (nat \<times> page_state) list \<Rightarrow> change_watch" where
  "watch_run hold w obs = fold (\<lambda>(now, pg) w. snd (observe now pg hold w)) obs w"

text \<open>What the watch remembers: the observations since the page last took its present
  shape, all of them off the baseline and the same page as the first.\<close>

definition settled_run ::
  "page_state \<Rightarrow> (nat \<times> page_state) list \<Rightarrow> nat \<Rightarrow> page_state \<Rightarrow> bool" where
  "settled_run b run t first \<longleftrightarrow>
     (\<exists>rest. run = (t, first) # rest \<and> \<not> same_as first b
        \<and> (\<forall>(u, q) \<in> set rest. same_as first q \<and> \<not> same_as q b))"

definition watch_ok :: "page_state \<Rightarrow> (nat \<times> page_state) list \<Rightarrow> change_watch \<Rightarrow> bool" where
  "watch_ok b obs w \<longleftrightarrow> watch_baseline w = b
     \<and> (case (watch_last w, stable_since w) of
          (None, None) \<Rightarrow> True
        | (Some l, Some t) \<Rightarrow> \<exists>old run. obs = old @ run \<and> settled_run b run t l
        | _ \<Rightarrow> False)"

lemma settled_run_single: "\<not> same_as p b \<Longrightarrow> settled_run b [(t, p)] t p"
  by (simp add: settled_run_def)

lemma settled_run_snoc:
  "settled_run b run t l \<Longrightarrow> same_as l p \<Longrightarrow> \<not> same_as p b \<Longrightarrow>
     settled_run b (run @ [(now, p)]) t l"
  by (auto simp: settled_run_def)

lemma observe_ok:
  assumes "watch_ok b obs w"
  shows "watch_ok b (obs @ [(now, p)]) (snd (observe now p hold w))"
proof (cases "same_as p b \<or> (\<exists>l. watch_last w = Some l \<and> same_as l p)")
  case True
  consider (base) "same_as p b" | (same) l where "\<not> same_as p b" "watch_last w = Some l" "same_as l p"
    using True by blast
  then show ?thesis
  proof cases
    case base
    then show ?thesis using assms by (simp add: observe_def watch_ok_def)
  next
    case same
    then obtain t old run where "stable_since w = Some t" "obs = old @ run" "settled_run b run t l"
      using assms by (auto simp: watch_ok_def split: option.splits)
    moreover from this same have "settled_run b (run @ [(now, p)]) t l"
      using settled_run_snoc by blast
    ultimately have "\<exists>old run. obs @ [(now, p)] = old @ run \<and> settled_run b run t l"
      by (metis append.assoc)
    then show ?thesis
      using same assms \<open>stable_since w = Some t\<close> by (simp add: observe_def watch_ok_def)
  qed
next
  case False
  then have "\<exists>old run. obs @ [(now, p)] = old @ run \<and> settled_run b run now p"
    using settled_run_single [of p b now] by blast
  then show ?thesis
    using False assms by (auto simp: observe_def watch_ok_def Let_def split: option.split)
qed

lemma watch_run_ok: "watch_ok b obs (watch_run hold (new_watch b) obs)"
proof (induction obs rule: rev_induct)
  case Nil
  then show ?case by (simp add: watch_run_def watch_ok_def new_watch_def)
next
  case (snoc x obs)
  then show ?case
    using observe_ok by (cases x) (simp add: watch_run_def)
qed

text \<open>
  C38: A page change is reported only after it has held still: when a poll reports one,
  there was an earlier poll, at least the settle period before, since when every poll saw
  the same page and none of them saw the page the wait started with.
\<close>
theorem change_has_settled:
  assumes "fst (observe now page hold (watch_run hold (new_watch b) obs))"
  shows "\<exists>old t first rest. obs @ [(now, page)] = old @ (t, first) # rest \<and> hold \<le> now - t
    \<and> \<not> same_as first b \<and> (\<forall>(u, q) \<in> set rest. same_as first q \<and> \<not> same_as q b)"
proof -
  let ?w = "watch_run hold (new_watch b) obs"
  have "watch_ok b (obs @ [(now, page)]) (snd (observe now page hold ?w))"
    by (rule observe_ok [OF watch_run_ok])
  moreover obtain t where "stable_since (snd (observe now page hold ?w)) = Some t" "hold \<le> now - t"
    using assms by (auto simp: observe_def Let_def split: if_split_asm option.split_asm)
  ultimately obtain old run l where "obs @ [(now, page)] = old @ run" "settled_run b run t l"
    by (auto simp: watch_ok_def split: option.split_asm)
  then show ?thesis
    using \<open>hold \<le> now - t\<close> unfolding settled_run_def by blast
qed

lemma change_has_settled_witness:
  "\<exists>old t first rest. [(0 :: nat, \<lparr> page_url = ''b'', page_title = None \<rparr>)]
       @ [(3, \<lparr> page_url = ''b'', page_title = None \<rparr>)] = old @ (t, first) # rest
    \<and> 3 \<le> 3 - t \<and> \<not> same_as first \<lparr> page_url = ''a'', page_title = None \<rparr>
    \<and> (\<forall>(u, q) \<in> set rest. same_as first q \<and> \<not> same_as q \<lparr> page_url = ''a'', page_title = None \<rparr>)"
  by (rule change_has_settled [where hold = 3]) code_simp

section \<open>The options are within their bounds\<close>

lemma jittered_bounds: "every - every div 5 \<le> jittered now_ms every tick
  \<and> jittered now_ms every tick \<le> every + every div 5"
proof -
  define m where "m = unat (xor now_ms (tick * 0x9E3779B97F4A7C15)) mod (2 * (every div 5) + 1)"
  have "m < 2 * (every div 5) + 1" "every div 5 \<le> every"
    by (simp_all add: m_def)
  then have "every - every div 5 \<le> every - every div 5 + m
    \<and> every - every div 5 + m \<le> every + every div 5"
    by linarith
  then show ?thesis
    by (simp only: jittered_def Let_def m_def if_split) auto
qed

definition spec_ok :: "wait_spec \<Rightarrow> bool" where
  "spec_ok sp \<longleftrightarrow> timeout sp < 2 ^ 64 \<and> settle sp < 2 ^ 64 \<and> 250 \<le> poll sp \<and> poll sp \<le> MAX_POLL
     \<and> (case ask_note sp of None \<Rightarrow> True | Some n \<Rightarrow> char_count n \<le> MAX_NOTE_CHARS)"

lemma parse_duration_bound: "parse_duration s = Inr d \<Longrightarrow> d < 18446744073709551616"
  by (fastforce simp: parse_duration_def Let_def min_def split: prod.splits option.splits)

lemma arg_step_ok:
  assumes "arg_step st a rest = Inr (st', used)" "spec_ok (a_spec st)"
  shows "spec_ok (a_spec st')"
  using assms unfolding arg_step_def
  by (auto simp: and_then_Inr_iff set_until_def set_option_def spec_ok_def MAX_POLL_def
      char_count_take_chars dest: parse_duration_bound split: if_split_asm)

lemma args_loop_ok: "args_loop st args = Inr st' \<Longrightarrow> spec_ok (a_spec st) \<Longrightarrow> spec_ok (a_spec st')"
  by (induction st args rule: args_loop.induct)
    (auto simp: arg_step_ok split: sum.splits)

theorem parse_args_bounds:
  assumes "parse_args args = Inr (Some spec)"
  shows "timeout spec < 2 ^ 64 \<and> settle spec < 2 ^ 64 \<and> 250 \<le> poll spec \<and> poll spec \<le> 5000
    \<and> (case ask_note spec of None \<Rightarrow> True | Some n \<Rightarrow> char_count n \<le> 300)"
proof -
  have "spec_ok (a_spec no_args)"
    by (simp add: spec_ok_def no_args_def DEFAULT_TIMEOUT_def DEFAULT_POLL_def DEFAULT_SETTLE_def
        MAX_POLL_def)
  then have "spec_ok spec"
    using assms args_loop_ok by (auto simp: parse_args_def and_then_Inr_iff split: if_split_asm)
  then show ?thesis
    unfolding spec_ok_def MAX_POLL_def MAX_NOTE_CHARS_def .
qed

definition example_parsed :: wait_spec where
  "example_parsed = \<lparr> until = Some UntilChange, timeout = DEFAULT_TIMEOUT, poll = DEFAULT_POLL,
     settle = DEFAULT_SETTLE, ask_note = Some (take_chars MAX_NOTE_CHARS (trim '' log in '')) \<rparr>"

lemma parse_args_bounds_witness:
  "timeout (example_parsed) < 2 ^ 64 \<and> settle example_parsed < 2 ^ 64 \<and> 250 \<le> poll example_parsed
    \<and> poll example_parsed \<le> 5000
    \<and> (case ask_note example_parsed of None \<Rightarrow> True | Some n \<Rightarrow> char_count n \<le> 300)"
  by (rule parse_args_bounds [of "[''--until-change'', ''--note'', '' log in '']"])
    (simp add: example_parsed_def parse_args_def no_args_def arg_step_def arg_value_def set_until_def
      set_option_def starts_with_def)

end
