(* ===== verification/MobileStore.thy ===== *)
theory MobileStore
  imports Prelude
begin

text \<open>
  Paired devices, \<open>cli/src/mobile/store.rs\<close>: the registry file, one key file per device,
  and the changes made to them under the store's lock. An operation takes the outcome of
  its system calls, the clock and the random values it draws as a value of type
  \<open>store_env\<close>. The registry file is its parsed contents: reading and printing the JSON
  (\<open>serde\<close>) is not modelled. Key files are named by the device id. A file is replaced by a rename
  and then its directory is synced, so a write may fail after the new contents are in place:
  \<open>s_save_landed\<close> and \<open>s_key_landed\<close> say whether a failed write of the registry or of a key file
  did.
\<close>


section \<open>Devices and the registry\<close>

definition PAIR_TTL_MS :: nat where "PAIR_TTL_MS = 10 * 60 * 1000"
definition MAX_MUTED :: nat where "MAX_MUTED = 512"
definition KEY_LEN :: nat where "KEY_LEN = 32"

datatype dev_state = Pending | Active | Disabled

record device =
  d_id :: string
  d_name :: string
  d_profile :: string
  d_state :: dev_state
  d_created :: nat
  d_expires :: "nat option"
  d_last_seen :: "nat option"
  d_last_ip :: "string option"
  d_failures :: nat
  d_full_access :: bool
  d_relay_token :: "string option"
  d_rejected_token :: "string option"
  d_rejected_reason :: "string option"
  d_muted :: "string list"

definition usable :: "device \<Rightarrow> nat \<Rightarrow> bool" where
  "usable d now =
     (case d_state d of
        Active \<Rightarrow> True
      | Pending \<Rightarrow> (case d_expires d of Some e \<Rightarrow> now < e | None \<Rightarrow> False)
      | Disabled \<Rightarrow> False)"

record registry =
  schema_version :: nat
  gateway_id :: string
  computer_name :: "string option"
  devices :: "device list"

definition find_device :: "string \<Rightarrow> registry \<Rightarrow> device option" where
  "find_device i r = find (\<lambda>d. d_id d = i) (devices r)"

text \<open>Changing through \<open>device_mut\<close>: the first device with the id.\<close>

fun change_first :: "string \<Rightarrow> (device \<Rightarrow> device) \<Rightarrow> device list \<Rightarrow> device list" where
  "change_first i f [] = []"
| "change_first i f (d # ds) = (if d_id d = i then f d # ds else d # change_first i f ds)"

definition set_device :: "string \<Rightarrow> (device \<Rightarrow> device) \<Rightarrow> registry \<Rightarrow> registry" where
  "set_device i f r = r\<lparr>devices := change_first i f (devices r)\<rparr>"

fun remove_first :: "string \<Rightarrow> device list \<Rightarrow> device list" where
  "remove_first i [] = []"
| "remove_first i (d # ds) = (if d_id d = i then ds else d # remove_first i ds)"

section \<open>The store on disk\<close>

datatype reg_file = NoFile | BadFile | RegFile registry

type_synonym keys = "(string \<times> string) list"

record mobile_store =
  reg_file :: reg_file
  key_files :: keys

record store_env =
  s_uuid :: "string \<Rightarrow> bool"
  s_lock_err :: "string option"
  s_gateway :: "string result"
  s_read_err :: "string option"
  s_save_err :: "string option"
  s_save_landed :: bool
  s_key_read_err :: "string option"
  s_key_missing :: string
  s_key_write_err :: "string option"
  s_key_landed :: bool
  s_key_stuck :: "string \<Rightarrow> bool"
  s_now :: nat
  s_now_after :: nat
  s_id :: string
  s_secret :: "string result"

definition load_registry :: "store_env \<Rightarrow> reg_file \<Rightarrow> registry result" where
  "load_registry env f =
     (case f of
        NoFile \<Rightarrow> and_then (s_gateway env) (\<lambda>g.
          Inr \<lparr> schema_version = 1, gateway_id = g, computer_name = None, devices = [] \<rparr>)
      | BadFile \<Rightarrow> Inl (unwrap_or ''The paired-device list is invalid'' (s_read_err env))
      | RegFile r \<Rightarrow>
          (case s_read_err env of
             Some e \<Rightarrow> Inl e
           | None \<Rightarrow>
               if schema_version r \<noteq> 1 then Inl ''The paired-device list has an unsupported version''
               else Inr r))"

definition read_store :: "store_env \<Rightarrow> mobile_store \<Rightarrow> registry result \<times> mobile_store" where
  "read_store env s =
     (case s_lock_err env of
        Some e \<Rightarrow> (Inl e, s)
      | None \<Rightarrow>
          (case load_registry env (reg_file s) of
             Inl e \<Rightarrow> (Inl e, s)
           | Inr r \<Rightarrow>
               if reg_file s = NoFile then
                 (case s_save_err env of
                    Some e \<Rightarrow> (Inl e, if s_save_landed env then s\<lparr>reg_file := RegFile r\<rparr> else s)
                  | None \<Rightarrow> (Inr r, s\<lparr>reg_file := RegFile r\<rparr>))
               else (Inr r, s)))"

text \<open>
  One change under the lock. The change sees the registry and may write key files; the
  registry is written back only if it succeeds.
\<close>

type_synonym 'a change = "registry \<Rightarrow> keys \<Rightarrow> ('a \<times> registry) result \<times> keys"

definition update_store ::
  "store_env \<Rightarrow> 'a change \<Rightarrow> mobile_store \<Rightarrow> 'a result \<times> mobile_store" where
  "update_store env change s =
     (case s_lock_err env of
        Some e \<Rightarrow> (Inl e, s)
      | None \<Rightarrow>
          (case load_registry env (reg_file s) of
             Inl e \<Rightarrow> (Inl e, s)
           | Inr r \<Rightarrow>
               (case change r (key_files s) of
                  (Inl e, ks) \<Rightarrow> (Inl e, s\<lparr>key_files := ks\<rparr>)
                | (Inr (x, r'), ks) \<Rightarrow>
                    (case s_save_err env of
                       Some e \<Rightarrow> (Inl e, if s_save_landed env
                                   then \<lparr> reg_file = RegFile r', key_files = ks \<rparr>
                                   else s\<lparr>key_files := ks\<rparr>)
                     | None \<Rightarrow> (Inr x, \<lparr> reg_file = RegFile r', key_files = ks \<rparr>)))))"

text \<open>A change of the registry alone.\<close>

definition pure_change :: "(registry \<Rightarrow> ('a \<times> registry) result) \<Rightarrow> 'a change" where
  "pure_change f r ks = (f r, ks)"

definition read_key :: "store_env \<Rightarrow> string \<Rightarrow> keys \<Rightarrow> string result" where
  "read_key env i ks =
     (case s_key_read_err env of
        Some e \<Rightarrow> Inl e
      | None \<Rightarrow> ok_or (s_key_missing env) (map_of ks i))"

definition secret :: "store_env \<Rightarrow> string \<Rightarrow> mobile_store \<Rightarrow> string result" where
  "secret env i s =
     (if \<not> s_uuid env i then Inl ''Invalid device id''
      else and_then (read_key env i (key_files s)) (\<lambda>b.
        let bytes = take (2 * KEY_LEN + 1) b
        in if length bytes \<noteq> KEY_LEN \<and> length bytes \<noteq> 2 * KEY_LEN
           then Inl ''The device key file is invalid'' else Inr bytes))"

section \<open>Pairing\<close>

definition pair_change :: "store_env \<Rightarrow> string \<Rightarrow> string \<Rightarrow> string \<Rightarrow> unit change" where
  "pair_change env i phone_secret ip r ks =
     (case find_device i r of
        None \<Rightarrow> (Inl ''The device was revoked'', ks)
      | Some d \<Rightarrow>
          if d_state d \<noteq> Pending \<or> \<not> usable d (s_now env)
          then (Inl ''This pairing code was already used or has expired'', ks)
          else (case read_key env i ks of
                  Inl e \<Rightarrow> (Inl e, ks)
                | Inr b \<Rightarrow>
                    (let bytes = take (KEY_LEN + 1) b
                     in if length bytes \<noteq> KEY_LEN then (Inl ''The device key file is invalid'', ks)
                        else case s_key_write_err env of
                               Some e \<Rightarrow> (Inl e, if s_key_landed env
                                           then AList.update i (bytes @ phone_secret) ks else ks)
                             | None \<Rightarrow>
                                 (Inr ((), set_device i (\<lambda>d. d\<lparr>d_state := Active,
                                     d_expires := None, d_failures := 0,
                                     d_last_seen := Some (s_now_after env),
                                     d_last_ip := Some ip\<rparr>) r),
                                  AList.update i (bytes @ phone_secret) ks))))"

definition complete_pairing ::
  "store_env \<Rightarrow> string \<Rightarrow> string \<Rightarrow> string \<Rightarrow> mobile_store \<Rightarrow> unit result \<times> mobile_store" where
  "complete_pairing env i phone_secret ip s =
     (if \<not> s_uuid env i then (Inl ''Invalid device id'', s)
      else update_store env (pair_change env i phone_secret ip) s)"

definition new_device :: "store_env \<Rightarrow> string \<Rightarrow> string \<Rightarrow> device" where
  "new_device env name profile =
     \<lparr> d_id = s_id env, d_name = name, d_profile = profile, d_state = Pending,
       d_created = s_now env, d_expires = Some (s_now env + PAIR_TTL_MS), d_last_seen = None,
       d_last_ip = None, d_failures = 0, d_full_access = False, d_relay_token = None,
       d_rejected_token = None, d_rejected_reason = None, d_muted = [] \<rparr>"

definition expired_ids :: "nat \<Rightarrow> device list \<Rightarrow> string list" where
  "expired_ids now ds = map d_id (filter (\<lambda>d. d_state d = Pending \<and> \<not> usable d now) ds)"

definition create_change :: "nat \<Rightarrow> device \<Rightarrow> registry \<Rightarrow> ((string list \<times> string) \<times> registry) result" where
  "create_change now stored r =
     (let expired = expired_ids now (devices r)
      in Inr ((expired, gateway_id r),
              r\<lparr>devices := filter (\<lambda>d. d_id d \<notin> set expired) (devices r) @ [stored]\<rparr>))"

definition drop_key :: "store_env \<Rightarrow> string \<Rightarrow> mobile_store \<Rightarrow> mobile_store" where
  "drop_key env i s =
     (if s_key_stuck env i then s else s\<lparr>key_files := AList.delete i (key_files s)\<rparr>)"

fun remove_expired :: "store_env \<Rightarrow> string list \<Rightarrow> mobile_store \<Rightarrow> unit result \<times> mobile_store" where
  "remove_expired env [] s = (Inr (), s)"
| "remove_expired env (i # is) s =
     (if \<not> s_uuid env i then (Inl ''Invalid device id'', s)
      else remove_expired env is (drop_key env i s))"

definition create_pending ::
  "store_env \<Rightarrow> string \<Rightarrow> string \<Rightarrow> mobile_store
     \<Rightarrow> (device \<times> string \<times> string) result \<times> mobile_store" where
  "create_pending env name profile s =
     (case s_secret env of
        Inl e \<Rightarrow> (Inl e, s)
      | Inr sec \<Rightarrow>
          (let d = new_device env name profile
           in if \<not> s_uuid env (d_id d) then (Inl ''Invalid device id'', s)
              else (case s_key_write_err env of
                 Some e \<Rightarrow> (Inl e, if s_key_landed env
                             then s\<lparr>key_files := AList.update (d_id d) sec (key_files s)\<rparr> else s)
               | None \<Rightarrow>
                   (case update_store env (pure_change (create_change (s_now env) d))
                           (s\<lparr>key_files := AList.update (d_id d) sec (key_files s)\<rparr>) of
                      (Inl e, s2) \<Rightarrow> (Inl e, drop_key env (d_id d) s2)
                    | (Inr (expired, gateway), s2) \<Rightarrow>
                        (case remove_expired env expired s2 of
                           (Inl e, s3) \<Rightarrow> (Inl e, s3)
                         | (Inr _, s3) \<Rightarrow> (Inr (d, sec, gateway), s3))))))"

section \<open>Changes to one device\<close>

definition register_token ::
  "store_env \<Rightarrow> string \<Rightarrow> string \<Rightarrow> mobile_store \<Rightarrow> string option result \<times> mobile_store" where
  "register_token env i token s =
     update_store env (pure_change (\<lambda>r.
       case find_device i r of
         None \<Rightarrow> Inl ''Device was revoked''
       | Some d \<Rightarrow>
           if d_rejected_token d = Some token
           then Inr (Some (unwrap_or ''invalid'' (d_rejected_reason d)), r)
           else Inr (None, set_device i (\<lambda>d. d\<lparr>d_relay_token := Some token,
                  d_rejected_token := None, d_rejected_reason := None\<rparr>) r))) s"

definition rejected :: "string \<Rightarrow> string \<Rightarrow> device \<Rightarrow> device" where
  "rejected token reason d =
     (if d_relay_token d = Some token then d\<lparr>d_relay_token := None\<rparr> else d)
       \<lparr>d_rejected_token := Some token, d_rejected_reason := Some reason\<rparr>"

definition reject_token ::
  "store_env \<Rightarrow> string \<Rightarrow> string \<Rightarrow> string \<Rightarrow> mobile_store \<Rightarrow> unit result \<times> mobile_store" where
  "reject_token env i token reason s =
     update_store env (pure_change (\<lambda>r. Inr ((), set_device i (rejected token reason) r))) s"

definition set_full_access ::
  "store_env \<Rightarrow> string \<Rightarrow> bool \<Rightarrow> mobile_store \<Rightarrow> device result \<times> mobile_store" where
  "set_full_access env i allowed s =
     update_store env (pure_change (\<lambda>r.
       case find_device i r of
         None \<Rightarrow> Inl ''No paired device has that id''
       | Some d \<Rightarrow> Inr (d\<lparr>d_full_access := allowed\<rparr>,
                        set_device i (\<lambda>d. d\<lparr>d_full_access := allowed\<rparr>) r))) s"

definition set_mute ::
  "store_env \<Rightarrow> string \<Rightarrow> string \<Rightarrow> bool \<Rightarrow> mobile_store \<Rightarrow> string list result \<times> mobile_store" where
  "set_mute env i conversation muted s =
     update_store env (pure_change (\<lambda>r.
       case find_device i r of
         None \<Rightarrow> Inl ''Device was revoked''
       | Some d \<Rightarrow>
           (let kept = filter (\<lambda>c. c \<noteq> conversation) (d_muted d)
            in if muted \<and> MAX_MUTED \<le> length kept
               then Inl (''At most '' @ show_nat MAX_MUTED @ '' conversations can be muted'')
               else let list = (if muted then kept @ [conversation] else kept)
                    in Inr (list, set_device i (\<lambda>d. d\<lparr>d_muted := list\<rparr>) r)))) s"

definition revoke :: "store_env \<Rightarrow> string \<Rightarrow> mobile_store \<Rightarrow> device result \<times> mobile_store" where
  "revoke env i s =
     (if \<not> s_uuid env i then (Inl ''Invalid device id'', s)
      else (case update_store env (pure_change (\<lambda>r.
              case find_device i r of
                None \<Rightarrow> Inl ''No paired device has that id''
              | Some d \<Rightarrow> Inr (d, r\<lparr>devices := remove_first i (devices r)\<rparr>))) s of
              (Inl e, s2) \<Rightarrow> (Inl e, s2)
            | (Inr d, s2) \<Rightarrow>
                if map_of (key_files s2) i \<noteq> None \<and> s_key_stuck env i
                then (Inl ''The device was removed but its key file remains'', s2)
                else (Inr d, drop_key env i s2)))"

text \<open>The changes that \<open>mobile/gateway.rs\<close> makes itself: a paired device that reconnects, its
  push token given up, and the name the computer is served under.\<close>

definition device_seen :: "store_env \<Rightarrow> string \<Rightarrow> string \<Rightarrow> mobile_store \<Rightarrow> unit result \<times> mobile_store" where
  "device_seen env i ip s =
     update_store env (pure_change (\<lambda>r.
       case find_device i r of
         None \<Rightarrow> Inl ''revoked''
       | Some d \<Rightarrow>
           if d_state d \<noteq> Active then Inl ''state changed''
           else Inr ((), set_device i (\<lambda>d. d\<lparr>d_last_seen := Some (s_now env),
                                               d_last_ip := Some ip\<rparr>) r))) s"

definition clear_relay_token :: "store_env \<Rightarrow> string \<Rightarrow> mobile_store \<Rightarrow> unit result \<times> mobile_store" where
  "clear_relay_token env i =
     update_store env (pure_change (\<lambda>r.
       case find_device i r of
         None \<Rightarrow> Inl ''Device was revoked''
       | Some d \<Rightarrow> Inr ((), set_device i (\<lambda>d. d\<lparr>d_relay_token := None\<rparr>) r)))"

definition set_computer_name :: "store_env \<Rightarrow> string \<Rightarrow> mobile_store \<Rightarrow> unit result \<times> mobile_store" where
  "set_computer_name env name =
     update_store env (pure_change (\<lambda>r. Inr ((), r\<lparr>computer_name := Some name\<rparr>)))"

section \<open>One update\<close>

lemma update_store_Inr:
  "update_store env c s = (Inr x, s') \<longleftrightarrow>
     s_lock_err env = None \<and> s_save_err env = None
     \<and> (\<exists>r r' ks. load_registry env (reg_file s) = Inr r \<and> c r (key_files s) = (Inr (x, r'), ks)
          \<and> s' = \<lparr> reg_file = RegFile r', key_files = ks \<rparr>)"
  by (auto simp: update_store_def split: option.split sum.split prod.split)

lemma update_store_Inl:
  "update_store env c s = (Inl e, s') \<Longrightarrow> s' = s
     \<or> (\<exists>r. load_registry env (reg_file s) = Inr r
          \<and> (s' = s\<lparr>key_files := snd (c r (key_files s))\<rparr>
             \<or> (\<exists>x r' ks. s_save_err env \<noteq> None \<and> s_save_landed env
                  \<and> c r (key_files s) = (Inr (x, r'), ks)
                  \<and> s' = \<lparr> reg_file = RegFile r', key_files = ks \<rparr>)))"
  by (auto simp: update_store_def split: option.split_asm sum.split_asm prod.split_asm if_split_asm)

text \<open>What an update may leave, whatever fails.\<close>

lemma update_store_cases:
  obtains "snd (update_store env c s) = s"
  | r where "load_registry env (reg_file s) = Inr r"
      "snd (update_store env c s) = s\<lparr>key_files := snd (c r (key_files s))\<rparr>"
  | r x r' ks where "load_registry env (reg_file s) = Inr r" "c r (key_files s) = (Inr (x, r'), ks)"
      "snd (update_store env c s) = \<lparr> reg_file = RegFile r', key_files = ks \<rparr>"
proof (cases "update_store env c s")
  case (Pair res s')
  show ?thesis
  proof (cases res)
    case (Inl e)
    then show ?thesis using update_store_Inl [of env c s e s'] Pair that by auto
  next
    case (Inr x)
    then obtain r r' ks where "load_registry env (reg_file s) = Inr r"
      "c r (key_files s) = (Inr (x, r'), ks)" "s' = \<lparr> reg_file = RegFile r', key_files = ks \<rparr>"
      using Pair by (auto simp: update_store_Inr)
    then show ?thesis using that(3) [of r x r' ks] Pair by simp
  qed
qed

lemma update_pure_cases:
  obtains "snd (update_store env (pure_change f) s) = s"
  | r x r' where "load_registry env (reg_file s) = Inr r" "f r = Inr (x, r')"
      "snd (update_store env (pure_change f) s) = \<lparr> reg_file = RegFile r', key_files = key_files s \<rparr>"
  by (rule update_store_cases [of env "pure_change f" s]) (auto simp: pure_change_def)

section \<open>The invariant\<close>

definition device_ok :: "device \<Rightarrow> bool" where
  "device_ok d \<longleftrightarrow> length (d_muted d) \<le> MAX_MUTED \<and> distinct (d_muted d)
     \<and> (d_relay_token d = None \<or> d_relay_token d \<noteq> d_rejected_token d)
     \<and> (d_state d = Pending \<longleftrightarrow> d_expires d \<noteq> None)"

text \<open>\<open>L\<close>: the ids of pending devices that may have lost their key file.\<close>

definition key_ok :: "string set \<Rightarrow> keys \<Rightarrow> device \<Rightarrow> bool" where
  "key_ok L ks d \<longleftrightarrow>
     (case map_of ks (d_id d) of
        None \<Rightarrow> d_state d = Pending \<and> d_id d \<in> L
      | Some b \<Rightarrow> length b = 2 * KEY_LEN \<or> (d_state d = Pending \<and> length b = KEY_LEN))"

definition reg_ok :: "string set \<Rightarrow> registry \<Rightarrow> keys \<Rightarrow> bool" where
  "reg_ok L r ks \<longleftrightarrow> schema_version r = 1 \<and> distinct (map d_id (devices r))
     \<and> (\<forall>d \<in> set (devices r). device_ok d \<and> key_ok L ks d)"

definition store_ok :: "string set \<Rightarrow> mobile_store \<Rightarrow> bool" where
  "store_ok L s \<longleftrightarrow>
     (case reg_file s of NoFile \<Rightarrow> True | BadFile \<Rightarrow> False | RegFile r \<Rightarrow> reg_ok L r (key_files s))"

lemma change_first_map:
  "distinct (map d_id ds) \<Longrightarrow> change_first i f ds = map (\<lambda>d. if d_id d = i then f d else d) ds"
proof (induction ds)
  case (Cons a ds)
  have ne: "\<And>x. x \<in> set ds \<Longrightarrow> d_id x \<noteq> d_id a"
    using Cons.prems by (simp add: image_iff) metis
  then have "map (\<lambda>d. if d_id d = d_id a then f d else d) ds = ds"
    by (intro map_idI) auto
  with Cons show ?case by auto
qed simp

lemma remove_first_filter:
  "distinct (map d_id ds) \<Longrightarrow> remove_first i ds = filter (\<lambda>d. d_id d \<noteq> i) ds"
proof (induction ds)
  case (Cons a ds)
  have ne: "\<And>x. x \<in> set ds \<Longrightarrow> d_id x \<noteq> d_id a"
    using Cons.prems by (simp add: image_iff) metis
  then have "filter (\<lambda>d. d_id d \<noteq> d_id a) ds = ds"
    by (intro filter_True) auto
  with Cons show ?case by auto
qed simp

lemma distinct_filter_ids: "distinct (map d_id ds) \<Longrightarrow> distinct (map d_id (filter P ds))"
  by (induction ds) auto

lemma empty_reg_ok:
  "reg_ok L \<lparr> schema_version = 1, gateway_id = g, computer_name = None, devices = [] \<rparr> ks"
  by (simp add: reg_ok_def)

lemma load_ok:
  assumes load: "load_registry env (reg_file s) = Inr r" and s: "store_ok L s"
  shows "reg_ok L r (key_files s)"
proof (cases "reg_file s")
  case NoFile
  then obtain g where
    "r = \<lparr> schema_version = 1, gateway_id = g, computer_name = None, devices = [] \<rparr>"
    using load by (cases "s_gateway env") (auto simp: load_registry_def)
  then show ?thesis using empty_reg_ok by simp
next
  case BadFile
  then show ?thesis using s by (simp add: store_ok_def)
next
  case (RegFile q)
  have "r = q"
    using load unfolding RegFile load_registry_def
    by (cases "s_read_err env") (simp_all split: if_split_asm)
  then show ?thesis using s RegFile by (simp add: store_ok_def)
qed


lemma key_ok_keys: "map_of ks' (d_id d) = map_of ks (d_id d) \<Longrightarrow> key_ok L ks' d = key_ok L ks d"
  by (simp add: key_ok_def)

lemma reg_ok_keys:
  "reg_ok L r ks \<Longrightarrow> (\<And>d. d \<in> set (devices r) \<Longrightarrow> map_of ks' (d_id d) = map_of ks (d_id d)) \<Longrightarrow>
     reg_ok L r ks'"
  unfolding reg_ok_def by (metis key_ok_keys)

lemma reg_ok_set_device:
  assumes "reg_ok L r ks"
    and "\<And>d. d_id d = i \<Longrightarrow> device_ok d \<Longrightarrow>
           device_ok (f d) \<and> d_id (f d) = i \<and> d_state (f d) = d_state d"
  shows "reg_ok L (set_device i f r) ks"
proof -
  have d: "distinct (map d_id (devices r))" using assms(1) by (simp add: reg_ok_def)
  have "map d_id (change_first i f (devices r)) = map d_id (devices r)"
    using assms by (auto simp: change_first_map [OF d] reg_ok_def)
  moreover have "device_ok d' \<and> key_ok L ks d'" if d': "d' \<in> set (change_first i f (devices r))" for d'
  proof -
    obtain d0 where d0: "d0 \<in> set (devices r)" "d' = (if d_id d0 = i then f d0 else d0)"
      using d' unfolding change_first_map [OF d] set_map image_iff by blast
    with assms(1) have "device_ok d0" "key_ok L ks d0" by (auto simp: reg_ok_def)
    with d0 assms(2) [of d0] show ?thesis
      by (cases "d_id d0 = i") (auto simp: key_ok_def split: option.splits)
  qed
  ultimately show ?thesis
    using assms(1) d by (simp add: reg_ok_def set_device_def)
qed

lemma update_pure_ok:
  assumes "store_ok L s"
    and "\<And>r x r'. reg_ok L r (key_files s) \<Longrightarrow> f r = Inr (x, r') \<Longrightarrow> reg_ok L r' (key_files s)"
  shows "store_ok L (snd (update_store env (pure_change f) s))"
proof (rule update_pure_cases [of env f s])
  assume "snd (update_store env (pure_change f) s) = s"
  then show ?thesis using assms(1) by simp
next
  fix r x r'
  assume r: "load_registry env (reg_file s) = Inr r" "f r = Inr (x, r')"
    "snd (update_store env (pure_change f) s) = \<lparr> reg_file = RegFile r', key_files = key_files s \<rparr>"
  show ?thesis using assms(2) [OF load_ok [OF r(1) assms(1)] r(2)] r(3) by (simp add: store_ok_def)
qed

lemma find_device_Some: "find_device i r = Some d \<Longrightarrow> d \<in> set (devices r) \<and> d_id d = i"
  unfolding find_device_def by (drule find_SomeD) simp

lemma register_token_ok: "store_ok L s \<Longrightarrow> store_ok L (snd (register_token env i t s))"
  unfolding register_token_def
  by (rule update_pure_ok)
    (auto simp: device_ok_def split: option.splits if_splits intro!: reg_ok_set_device)

lemma device_seen_ok: "store_ok L s \<Longrightarrow> store_ok L (snd (device_seen env i ip s))"
  unfolding device_seen_def
  by (rule update_pure_ok)
    (auto simp: device_ok_def split: option.splits if_splits intro!: reg_ok_set_device)

lemma clear_relay_token_ok: "store_ok L s \<Longrightarrow> store_ok L (snd (clear_relay_token env i s))"
  unfolding clear_relay_token_def
  by (rule update_pure_ok)
    (auto simp: device_ok_def split: option.splits intro!: reg_ok_set_device)

lemma set_computer_name_ok: "store_ok L s \<Longrightarrow> store_ok L (snd (set_computer_name env name s))"
  unfolding set_computer_name_def by (rule update_pure_ok) (auto simp: reg_ok_def)

lemma reject_token_ok: "store_ok L s \<Longrightarrow> store_ok L (snd (reject_token env i t reason s))"
  unfolding reject_token_def
  by (rule update_pure_ok) (auto simp: device_ok_def rejected_def intro!: reg_ok_set_device)

lemma set_full_access_ok: "store_ok L s \<Longrightarrow> store_ok L (snd (set_full_access env i b s))"
  unfolding set_full_access_def
  by (rule update_pure_ok)
    (auto simp: device_ok_def split: option.splits intro!: reg_ok_set_device)

lemma muted_ok:
  assumes "reg_ok L r ks" "find_device i r = Some d"
    "\<not> (muted \<and> MAX_MUTED \<le> length (filter (\<lambda>c. c \<noteq> conversation) (d_muted d)))"
  shows "length (if muted then filter (\<lambda>c. c \<noteq> conversation) (d_muted d) @ [conversation]
      else filter (\<lambda>c. c \<noteq> conversation) (d_muted d)) \<le> MAX_MUTED
    \<and> distinct (if muted then filter (\<lambda>c. c \<noteq> conversation) (d_muted d) @ [conversation]
      else filter (\<lambda>c. c \<noteq> conversation) (d_muted d))"
proof -
  have "length (d_muted d) \<le> MAX_MUTED" "distinct (d_muted d)"
    using assms(1) find_device_Some [OF assms(2)] by (auto simp: reg_ok_def device_ok_def)
  moreover have "length (filter (\<lambda>c. c \<noteq> conversation) (d_muted d)) \<le> length (d_muted d)"
    by simp
  ultimately show ?thesis
    using assms(3) by (auto simp del: length_filter_le)
qed

lemma set_mute_ok: "store_ok L s \<Longrightarrow> store_ok L (snd (set_mute env i conversation muted s))"
  unfolding set_mute_def
proof (rule update_pure_ok, assumption)
  fix r x r'
  assume r: "reg_ok L r (key_files s)"
    and f: "(case find_device i r of None \<Rightarrow> Inl ''Device was revoked''
       | Some d \<Rightarrow>
           (let kept = filter (\<lambda>c. c \<noteq> conversation) (d_muted d)
            in if muted \<and> MAX_MUTED \<le> length kept
               then Inl (''At most '' @ show_nat MAX_MUTED @ '' conversations can be muted'')
               else let list = (if muted then kept @ [conversation] else kept)
                    in Inr (list, set_device i (\<lambda>d. d\<lparr>d_muted := list\<rparr>) r))) = Inr (x, r')"
  obtain d where d: "find_device i r = Some d" using f by (cases "find_device i r") auto
  have "length x \<le> MAX_MUTED \<and> distinct x" "r' = set_device i (\<lambda>d. d\<lparr>d_muted := x\<rparr>) r"
    using f d muted_ok [OF r d, of muted conversation]
    by (auto simp: Let_def split: if_split_asm)
  then show "reg_ok L r' (key_files s)"
    using r by (auto simp: device_ok_def intro!: reg_ok_set_device)
qed

lemma read_store_ok: "store_ok L s \<Longrightarrow> store_ok L (snd (read_store env s))"
proof -
  assume s: "store_ok L s"
  have "snd (read_store env s) = s \<or>
    (\<exists>r. load_registry env (reg_file s) = Inr r \<and> snd (read_store env s) = s\<lparr>reg_file := RegFile r\<rparr>)"
    by (auto simp: read_store_def split: option.split sum.split)
  then show ?thesis
  proof
    assume "snd (read_store env s) = s"
    then show ?thesis using s by simp
  next
    assume "\<exists>r. load_registry env (reg_file s) = Inr r \<and> snd (read_store env s) = s\<lparr>reg_file := RegFile r\<rparr>"
    then show ?thesis using load_ok [OF _ s] by (auto simp: store_ok_def)
  qed
qed

text \<open>What pairing does when it goes through.\<close>

definition activate :: "store_env \<Rightarrow> string \<Rightarrow> device \<Rightarrow> device" where
  "activate env ip d = d\<lparr>d_state := Active, d_expires := None, d_failures := 0,
     d_last_seen := Some (s_now_after env), d_last_ip := Some ip\<rparr>"

lemma pair_change_Inr:
  assumes "pair_change env i ps ip r ks = (Inr (x, r'), ks')"
  obtains d b where "find_device i r = Some d" "d_state d = Pending" "usable d (s_now env)"
    "read_key env i ks = Inr b" "length (take (KEY_LEN + 1) b) = KEY_LEN"
    "r' = set_device i (activate env ip) r"
    "ks' = AList.update i (take (KEY_LEN + 1) b @ ps) ks"
proof -
  obtain d where d: "find_device i r = Some d" "\<not> (d_state d \<noteq> Pending \<or> \<not> usable d (s_now env))"
    using assms unfolding pair_change_def
    by (cases "find_device i r") (simp_all split: if_split_asm)
  obtain b where b: "read_key env i ks = Inr b"
    using assms d unfolding pair_change_def by (cases "read_key env i ks") auto
  have "length (take (KEY_LEN + 1) b) = KEY_LEN"
    using assms d b unfolding pair_change_def Let_def
    by (simp only: option.case sum.case if_False split: if_split_asm) simp
  moreover from this have "r' = set_device i (activate env ip) r
      \<and> ks' = AList.update i (take (KEY_LEN + 1) b @ ps) ks"
    using assms d b unfolding pair_change_def Let_def activate_def
    by (simp only: option.case sum.case if_False simp_thms) (auto split: option.split_asm)
  ultimately show ?thesis
    using that d b by blast
qed

lemma pair_change_Inl:
  assumes "pair_change env i ps ip r ks = (Inl e, ks')"
  shows "ks' = ks \<or> (\<exists>d b. find_device i r = Some d \<and> d_state d = Pending
    \<and> read_key env i ks = Inr b \<and> length (take (KEY_LEN + 1) b) = KEY_LEN
    \<and> ks' = AList.update i (take (KEY_LEN + 1) b @ ps) ks)"
  using assms unfolding pair_change_def Let_def
  by (cases "find_device i r"; cases "read_key env i ks")
    (auto split: if_split_asm option.split_asm)

text \<open>What pairing may leave: nothing changed, the key file grown to two keys, or the device
  active as well.\<close>

lemma complete_pairing_cases:
  obtains "snd (complete_pairing env i ps ip s) = s"
  | r d b where "load_registry env (reg_file s) = Inr r" "find_device i r = Some d" "d_state d = Pending"
      "read_key env i (key_files s) = Inr b" "length (take (KEY_LEN + 1) b) = KEY_LEN"
      "snd (complete_pairing env i ps ip s) = s\<lparr>key_files :=
         AList.update i (take (KEY_LEN + 1) b @ ps) (key_files s)\<rparr>
       \<or> snd (complete_pairing env i ps ip s) = \<lparr> reg_file = RegFile (set_device i (activate env ip) r),
         key_files = AList.update i (take (KEY_LEN + 1) b @ ps) (key_files s) \<rparr>"
proof (cases "s_uuid env i")
  case False
  then show ?thesis using that(1) by (simp add: complete_pairing_def)
next
  case True
  then have c: "complete_pairing env i ps ip s = update_store env (pair_change env i ps ip) s"
    by (simp add: complete_pairing_def)
  show ?thesis
  proof (rule update_store_cases [of env "pair_change env i ps ip" s])
    assume "snd (update_store env (pair_change env i ps ip) s) = s"
    then show ?thesis using that(1) c by simp
  next
    fix r
    assume r: "load_registry env (reg_file s) = Inr r"
      "snd (update_store env (pair_change env i ps ip) s)
        = s\<lparr>key_files := snd (pair_change env i ps ip r (key_files s))\<rparr>"
    obtain q ks where q: "pair_change env i ps ip r (key_files s) = (q, ks)" by force
    show ?thesis
    proof (cases q)
      case (Inl e)
      then show ?thesis
        using pair_change_Inl [of env i ps ip r "key_files s" e ks] q r c that by auto
    next
      case (Inr y)
      then have p: "pair_change env i ps ip r (key_files s) = (Inr (fst y, snd y), ks)"
        using q by (simp only: prod.collapse)
      show ?thesis
        by (rule pair_change_Inr [OF p]) (use that(2) r c p [unfolded prod.collapse] in simp)
    qed
  next
    fix r x r' ks
    assume r: "load_registry env (reg_file s) = Inr r"
      "pair_change env i ps ip r (key_files s) = (Inr (x, r'), ks)"
      "snd (update_store env (pair_change env i ps ip) s) = \<lparr> reg_file = RegFile r', key_files = ks \<rparr>"
    show ?thesis
      by (rule pair_change_Inr [OF r(2)]) (use that(2) r c in auto)
  qed
qed

lemma complete_pairing_Inr:
  assumes "complete_pairing env i ps ip s = (Inr x, s')"
  obtains r d b where "load_registry env (reg_file s) = Inr r" "find_device i r = Some d"
    "d_state d = Pending" "usable d (s_now env)" "read_key env i (key_files s) = Inr b"
    "length (take (KEY_LEN + 1) b) = KEY_LEN"
    "s' = \<lparr> reg_file = RegFile (set_device i (activate env ip) r),
            key_files = AList.update i (take (KEY_LEN + 1) b @ ps) (key_files s) \<rparr>"
proof -
  have "update_store env (pair_change env i ps ip) s = (Inr x, s')"
    using assms by (simp add: complete_pairing_def split: if_split_asm)
  then obtain r r' ks where r: "load_registry env (reg_file s) = Inr r"
    "pair_change env i ps ip r (key_files s) = (Inr (x, r'), ks)"
    "s' = \<lparr> reg_file = RegFile r', key_files = ks \<rparr>"
    unfolding update_store_Inr by blast
  show ?thesis
    by (rule pair_change_Inr [OF r(2)]) (use that r in blast)
qed

lemma activated_ok:
  assumes r: "reg_ok L r ks" and b: "length (take (KEY_LEN + 1) b) = KEY_LEN" "length ps = KEY_LEN"
  shows "reg_ok L (set_device i (activate env ip) r) (AList.update i (take (KEY_LEN + 1) b @ ps) ks)"
proof -
  have d: "distinct (map d_id (devices r))" using r by (simp add: reg_ok_def)
  have "map d_id (change_first i (activate env ip) (devices r)) = map d_id (devices r)"
    by (auto simp: change_first_map [OF d] activate_def)
  moreover have "device_ok d' \<and> key_ok L (AList.update i (take (KEY_LEN + 1) b @ ps) ks) d'"
    if d': "d' \<in> set (change_first i (activate env ip) (devices r))" for d'
  proof -
    obtain d0 where d0: "d0 \<in> set (devices r)" "d' = (if d_id d0 = i then activate env ip d0 else d0)"
      using d' unfolding change_first_map [OF d] set_map image_iff by blast
    with r have "device_ok d0" "key_ok L ks d0" by (auto simp: reg_ok_def)
    with d0 b show ?thesis
      by (cases "d_id d0 = i") (auto simp: key_ok_def device_ok_def activate_def al.lookup_put)
  qed
  ultimately show ?thesis
    using r d by (simp add: reg_ok_def set_device_def)
qed

lemma reg_ok_long_key:
  "reg_ok L r ks \<Longrightarrow> length k = 2 * KEY_LEN \<Longrightarrow> reg_ok L r (AList.update i k ks)"
  by (auto simp: reg_ok_def key_ok_def al.lookup_put)

lemma store_ok_long_key:
  "store_ok L s \<Longrightarrow> length k = 2 * KEY_LEN \<Longrightarrow>
     store_ok L (s\<lparr>key_files := AList.update i k (key_files s)\<rparr>)"
  by (auto simp: store_ok_def reg_ok_long_key split: reg_file.splits)

lemma complete_pairing_ok:
  assumes "store_ok L s" "length ps = KEY_LEN"
  shows "store_ok L (snd (complete_pairing env i ps ip s))"
proof (rule complete_pairing_cases [of env i ps ip s])
  assume "snd (complete_pairing env i ps ip s) = s"
  then show ?thesis using assms(1) by simp
next
  fix r d b
  assume r: "load_registry env (reg_file s) = Inr r" "length (take (KEY_LEN + 1) b) = KEY_LEN"
    and c: "snd (complete_pairing env i ps ip s) = s\<lparr>key_files :=
         AList.update i (take (KEY_LEN + 1) b @ ps) (key_files s)\<rparr>
       \<or> snd (complete_pairing env i ps ip s) = \<lparr> reg_file = RegFile (set_device i (activate env ip) r),
         key_files = AList.update i (take (KEY_LEN + 1) b @ ps) (key_files s) \<rparr>"
  have "length (take (KEY_LEN + 1) b @ ps) = 2 * KEY_LEN" using r(2) assms(2) by simp
  then have "store_ok L (s\<lparr>key_files := AList.update i (take (KEY_LEN + 1) b @ ps) (key_files s)\<rparr>)"
    by (rule store_ok_long_key [OF assms(1)])
  moreover have "store_ok L \<lparr> reg_file = RegFile (set_device i (activate env ip) r),
      key_files = AList.update i (take (KEY_LEN + 1) b @ ps) (key_files s) \<rparr>"
    using activated_ok [OF load_ok [OF r(1) assms(1)] r(2) assms(2)] by (simp add: store_ok_def)
  ultimately show ?thesis using c by metis
qed

section \<open>Creating and revoking\<close>

lemma create_change_Inr:
  "create_change now d r = Inr ((expired, g), r') \<longleftrightarrow> expired = expired_ids now (devices r)
     \<and> g = gateway_id r
     \<and> r' = r\<lparr>devices := filter (\<lambda>d. d_id d \<notin> set expired) (devices r) @ [d]\<rparr>"
  by (auto simp: create_change_def Let_def)

text \<open>An id drawn for a new device is new when no device and no key file has it.\<close>

definition fresh_id :: "string \<Rightarrow> mobile_store \<Rightarrow> bool" where
  "fresh_id i s \<longleftrightarrow> map_of (key_files s) i = None
     \<and> (case reg_file s of RegFile r \<Rightarrow> find_device i r = None | _ \<Rightarrow> True)"

lemma find_device_None: "find_device i r = None \<longleftrightarrow> i \<notin> d_id ` set (devices r)"
  by (auto simp: find_device_def find_None_iff)

lemma reg_ok_del_key: "reg_ok L r ks \<Longrightarrow> i \<notin> d_id ` set (devices r) \<Longrightarrow> reg_ok L r (AList.delete i ks)"
  by (rule reg_ok_keys) (auto simp: al.lookup_del)

lemma store_ok_drop_key:
  "store_ok L s \<Longrightarrow> reg_file s = RegFile r \<Longrightarrow> i \<notin> d_id ` set (devices r) \<Longrightarrow>
     store_ok L (drop_key env i s)"
  by (simp add: drop_key_def store_ok_def reg_ok_del_key)

lemma reg_ok_mono: "reg_ok L r ks \<Longrightarrow> L \<subseteq> L' \<Longrightarrow> reg_ok L' r ks"
  by (auto simp: reg_ok_def key_ok_def split: option.splits)

lemma store_ok_mono: "store_ok L s \<Longrightarrow> L \<subseteq> L' \<Longrightarrow> store_ok L' s"
  by (auto simp: store_ok_def reg_ok_mono split: reg_file.splits)

lemma reg_ok_lose_key:
  assumes "reg_ok L r ks" "\<And>d. d \<in> set (devices r) \<Longrightarrow> d_id d = i \<Longrightarrow> d_state d = Pending"
  shows "reg_ok (insert i L) r (AList.delete i ks)"
proof -
  have "key_ok (insert i L) (AList.delete i ks) d" if d: "d \<in> set (devices r)" for d
  proof (cases "d_id d = i")
    case True
    then show ?thesis using assms(2) [OF d] by (simp add: key_ok_def al.lookup_del)
  next
    case False
    then have "key_ok (insert i L) (AList.delete i ks) d = key_ok (insert i L) ks d"
      by (intro key_ok_keys) (simp add: al.lookup_del)
    then show ?thesis using reg_ok_mono [OF assms(1), of "insert i L"] d by (auto simp: reg_ok_def)
  qed
  then show ?thesis using assms(1) by (simp add: reg_ok_def)
qed

lemma drop_key_reg [simp]: "reg_file (drop_key env i s) = reg_file s"
  by (simp add: drop_key_def)

lemma remove_expired_ok:
  "store_ok L s \<Longrightarrow> reg_file s = RegFile r \<Longrightarrow> set is \<inter> d_id ` set (devices r) = {} \<Longrightarrow>
     store_ok L (snd (remove_expired env is s)) \<and> reg_file (snd (remove_expired env is s)) = RegFile r"
  by (induction "is" arbitrary: s) (auto simp: store_ok_drop_key)

lemma created_ok:
  assumes r: "reg_ok L r ks" and new: "d_id d \<notin> d_id ` set (devices r)"
    and d: "device_ok d" "d_state d = Pending" "length sec = KEY_LEN"
  shows "reg_ok L (r\<lparr>devices := filter (\<lambda>d. d_id d \<notin> E) (devices r) @ [d]\<rparr>)
    (AList.update (d_id d) sec ks)"
proof -
  have "key_ok L (AList.update (d_id d) sec ks) d"
    using d by (simp add: key_ok_def al.lookup_put)
  moreover have "key_ok L (AList.update (d_id d) sec ks) d'" if d': "d' \<in> set (devices r)" for d'
  proof -
    have "d_id d' \<noteq> d_id d" using new d' by (metis image_eqI)
    then show ?thesis
      using r d' key_ok_keys [of "AList.update (d_id d) sec ks" d' ks]
      by (auto simp: reg_ok_def al.lookup_put)
  qed
  ultimately show ?thesis
    using r new d(1) distinct_filter_ids by (auto simp: reg_ok_def)
qed

lemma load_devices:
  "load_registry env f = Inr r \<Longrightarrow>
     (case f of RegFile q \<Rightarrow> r = q | BadFile \<Rightarrow> False | NoFile \<Rightarrow> devices r = [])"
  by (cases f; cases "s_gateway env"; cases "s_read_err env")
    (auto simp: load_registry_def split: if_split_asm)

lemma fresh_key_ok:
  assumes "store_ok L s" "fresh_id i s"
  shows "store_ok L (s\<lparr>key_files := AList.update i sec (key_files s)\<rparr>)"
proof (cases "reg_file s")
  case (RegFile r)
  then have "i \<notin> d_id ` set (devices r)"
    using assms(2) by (simp add: fresh_id_def find_device_None)
  then have "\<And>d. d \<in> set (devices r) \<Longrightarrow>
      map_of (AList.update i sec (key_files s)) (d_id d) = map_of (key_files s) (d_id d)"
    by (metis al.put_other image_eqI)
  moreover have "reg_ok L r (key_files s)" using assms(1) RegFile by (simp add: store_ok_def)
  ultimately have "reg_ok L r (AList.update i sec (key_files s))"
    by (metis reg_ok_keys)
  then show ?thesis using RegFile by (simp add: store_ok_def)
qed (use assms in \<open>auto simp: store_ok_def\<close>)

text \<open>A new device is the only one with its id, and expired ones are gone.\<close>

lemma create_change_ok:
  assumes s: "store_ok L s" and fresh: "fresh_id (s_id env) s" and sec: "length sec = KEY_LEN"
    and r: "load_registry env (reg_file s) = Inr r"
    and c: "create_change (s_now env) (new_device env name profile) r = Inr ((expired, g), r')"
  shows "reg_ok L r' (AList.update (s_id env) sec (key_files s))
    \<and> set expired \<inter> d_id ` set (devices r') = {}
    \<and> (\<forall>d \<in> set (devices r'). d_id d = s_id env \<longrightarrow> d_state d = Pending)"
proof -
  have new: "s_id env \<notin> d_id ` set (devices r)"
    using load_devices [OF r] fresh by (auto simp: fresh_id_def find_device_None split: reg_file.splits)
  have r': "r' = r\<lparr>devices := filter (\<lambda>d. d_id d \<notin> set expired) (devices r)
      @ [new_device env name profile]\<rparr>" and e: "expired = expired_ids (s_now env) (devices r)"
    using c by (auto simp: create_change_Inr)
  have "reg_ok L r' (AList.update (s_id env) sec (key_files s))"
    using created_ok [OF load_ok [OF r s], of "new_device env name profile" sec "set expired"] new sec
    by (simp add: r' new_device_def device_ok_def)
  moreover have "s_id env \<notin> set expired"
    using new by (auto simp: e expired_ids_def)
  then have "set expired \<inter> d_id ` set (devices r') = {}" by (auto simp: r' new_device_def)
  moreover have "\<forall>d \<in> set (devices r'). d_id d = s_id env \<longrightarrow> d_state d = Pending"
    using new by (auto simp: r' new_device_def) (metis image_eqI)
  ultimately show ?thesis by blast
qed

text \<open>A create whose registry was saved although the save failed takes the new key file away.\<close>

definition lost_by :: "store_env \<Rightarrow> string set" where
  "lost_by env = (if s_save_err env \<noteq> None \<and> s_save_landed env then {s_id env} else {})"

lemma create_update_ok:
  assumes s: "store_ok L s" and fresh: "fresh_id (s_id env) s" and sec: "length sec = KEY_LEN"
    and u: "update_store env (pure_change (create_change (s_now env) (new_device env name profile)))
        (s\<lparr>key_files := AList.update (s_id env) sec (key_files s)\<rparr>) = (res, s2)"
  shows "case res of
      Inl e \<Rightarrow> store_ok (L \<union> lost_by env) (drop_key env (s_id env) s2)
    | Inr (expired, g) \<Rightarrow> store_ok L s2 \<and> (\<exists>r. reg_file s2 = RegFile r
          \<and> set expired \<inter> d_id ` set (devices r) = {})"
proof (cases res)
  case (Inl e)
  let ?s1 = "s\<lparr>key_files := AList.update (s_id env) sec (key_files s)\<rparr>"
  have s1: "store_ok L ?s1" by (rule fresh_key_ok [OF s fresh])
  from update_store_Inl [OF u [unfolded Inl]]
  consider "s2 = ?s1"
    | r x r' where "s_save_err env \<noteq> None" "s_save_landed env"
      "load_registry env (reg_file s) = Inr r"
      "create_change (s_now env) (new_device env name profile) r = Inr (x, r')"
      "s2 = \<lparr> reg_file = RegFile r', key_files = AList.update (s_id env) sec (key_files s) \<rparr>"
    by (auto simp: pure_change_def)
  then show ?thesis
  proof cases
    case 1
    have "store_ok L (drop_key env (s_id env) ?s1)"
    proof (cases "reg_file s")
      case (RegFile r)
      then show ?thesis
        using store_ok_drop_key [OF s1, of r "s_id env" env] fresh
        by (simp add: fresh_id_def find_device_None)
    qed (use s1 in \<open>auto simp: store_ok_def drop_key_def\<close>)
    then show ?thesis using Inl 1 store_ok_mono by auto
  next
    case (2 r x r')
    obtain expired g where x: "x = (expired, g)" by (cases x) auto
    have ok: "reg_ok L r' (AList.update (s_id env) sec (key_files s))"
      "\<And>d. d \<in> set (devices r') \<Longrightarrow> d_id d = s_id env \<Longrightarrow> d_state d = Pending"
      using create_change_ok [OF s fresh sec 2(3) 2(4) [unfolded x]] by blast+
    have "lost_by env = {s_id env}" using 2 by (simp add: lost_by_def)
    then show ?thesis
      using Inl 2(5) reg_ok_lose_key [OF ok(1), of "s_id env"] ok reg_ok_mono [OF ok(1), of "insert (s_id env) L"]
      by (auto simp: drop_key_def store_ok_def)
  qed
next
  case (Inr y)
  obtain expired g where y: "y = (expired, g)" by (cases y) auto
  obtain r r' where r: "load_registry env (reg_file s) = Inr r"
    and c: "create_change (s_now env) (new_device env name profile) r = Inr ((expired, g), r')"
    and s2: "s2 = \<lparr> reg_file = RegFile r',
                  key_files = AList.update (s_id env) sec (key_files s) \<rparr>"
    using u Inr y by (auto simp: update_store_Inr pure_change_def)
  show ?thesis
    using create_change_ok [OF s fresh sec r c] Inr y s2 by (simp add: store_ok_def)
qed

lemma create_pending_ok:
  assumes s: "store_ok L s" and fresh: "fresh_id (s_id env) s"
    and sec: "\<And>b. s_secret env = Inr b \<Longrightarrow> length b = KEY_LEN"
  shows "store_ok (L \<union> lost_by env) (snd (create_pending env name profile s))"
proof (cases "\<exists>b. s_secret env = Inr b \<and> s_uuid env (s_id env)")
  case False
  then have "snd (create_pending env name profile s) = s"
    by (auto simp: create_pending_def Let_def new_device_def split: sum.split option.split)
  with s show ?thesis using store_ok_mono by auto
next
  case True
  then obtain b where b: "s_secret env = Inr b" "s_uuid env (s_id env)"
    by blast
  have di: "d_id (new_device env name profile) = s_id env"
    by (simp add: new_device_def)
  show ?thesis
  proof (cases "s_key_write_err env")
    case (Some e)
    then show ?thesis
      using b di store_ok_mono [OF s] store_ok_mono [OF fresh_key_ok [OF s fresh]]
      by (simp add: create_pending_def Let_def)
  next
    case None
    obtain res s2 where u: "update_store env
        (pure_change (create_change (s_now env) (new_device env name profile)))
        (s\<lparr>key_files := AList.update (s_id env) b (key_files s)\<rparr>) = (res, s2)" by force
    note ok = create_update_ok [OF s fresh sec [OF b(1)] u]
    show ?thesis
    proof (cases res)
      case (Inl e)
      then show ?thesis
        using ok b u di None by (simp add: create_pending_def Let_def)
    next
      case (Inr y)
      obtain expired g where y: "y = (expired, g)" by (cases y) auto
      obtain q s3 where q: "remove_expired env expired s2 = (q, s3)" by force
      have "store_ok L s3"
        using ok Inr y q remove_expired_ok [of L s2 _ expired env] by auto
      moreover have "snd (create_pending env name profile s) = s3"
        using b u di None Inr y q by (cases q) (simp_all add: create_pending_def Let_def)
      ultimately show ?thesis using store_ok_mono by auto
    qed
  qed
qed

lemma revoked_ok:
  assumes "reg_ok L r ks"
  shows "reg_ok L (r\<lparr>devices := remove_first i (devices r)\<rparr>) ks
    \<and> i \<notin> d_id ` set (remove_first i (devices r))"
proof -
  have dist: "distinct (map d_id (devices r))" using assms by (simp add: reg_ok_def)
  show ?thesis
    using assms distinct_filter_ids [OF dist] by (auto simp: remove_first_filter [OF dist] reg_ok_def)
qed

lemma revoke_ok:
  assumes s: "store_ok L s"
  shows "store_ok L (snd (revoke env i s))"
proof -
  let ?f = "\<lambda>r. case find_device i r of None \<Rightarrow> Inl ''No paired device has that id''
              | Some d \<Rightarrow> Inr (d, r\<lparr>devices := remove_first i (devices r)\<rparr>)"
  obtain res s2 where u: "update_store env (pure_change ?f) s = (res, s2)" by force
  have "store_ok L (snd (update_store env (pure_change ?f) s))"
    by (rule update_pure_ok [OF s]) (use revoked_ok in \<open>auto split: option.splits\<close>)
  then have s2: "store_ok L s2" using u by simp
  show ?thesis
  proof (cases res)
    case (Inl e)
    then show ?thesis using u s s2 by (simp add: revoke_def)
  next
    case (Inr d)
    obtain r r' where r: "load_registry env (reg_file s) = Inr r" "?f r = Inr (d, r')"
      "s2 = \<lparr> reg_file = RegFile r', key_files = key_files s \<rparr>"
      using u Inr by (auto simp: update_store_Inr pure_change_def)
    have "r' = r\<lparr>devices := remove_first i (devices r)\<rparr>" using r(2) by (auto split: option.splits)
    then have "store_ok L (drop_key env i s2)"
      using store_ok_drop_key [OF s2, of r' i env] revoked_ok [OF load_ok [OF r(1) s], of i] r(3) by simp
    then show ?thesis
      using u Inr s s2 by (simp add: revoke_def)
  qed
qed

section \<open>Any sequence of operations\<close>

text \<open>Every change that the program makes to the store, and reading it.\<close>

datatype store_op =
    OpPair store_env string string string
  | OpCreate store_env string string
  | OpRegister store_env string string
  | OpReject store_env string string string
  | OpAccess store_env string bool
  | OpMute store_env string string bool
  | OpRevoke store_env string
  | OpRead store_env
  | OpSeen store_env string string
  | OpClearToken store_env string
  | OpName store_env string

fun apply_op :: "store_op \<Rightarrow> mobile_store \<Rightarrow> mobile_store" where
  "apply_op (OpPair env i ps ip) s = snd (complete_pairing env i ps ip s)"
| "apply_op (OpCreate env name profile) s = snd (create_pending env name profile s)"
| "apply_op (OpRegister env i t) s = snd (register_token env i t s)"
| "apply_op (OpReject env i t reason) s = snd (reject_token env i t reason s)"
| "apply_op (OpAccess env i b) s = snd (set_full_access env i b s)"
| "apply_op (OpMute env i c b) s = snd (set_mute env i c b s)"
| "apply_op (OpRevoke env i) s = snd (revoke env i s)"
| "apply_op (OpRead env) s = snd (read_store env s)"
| "apply_op (OpSeen env i ip) s = snd (device_seen env i ip s)"
| "apply_op (OpClearToken env i) s = snd (clear_relay_token env i s)"
| "apply_op (OpName env name) s = snd (set_computer_name env name s)"

text \<open>Secrets are 32-byte arrays, and a new device's random id is new.\<close>

fun op_fair :: "store_op \<Rightarrow> mobile_store \<Rightarrow> bool" where
  "op_fair (OpPair env i ps ip) s \<longleftrightarrow> length ps = KEY_LEN"
| "op_fair (OpCreate env name profile) s \<longleftrightarrow> fresh_id (s_id env) s
     \<and> (case s_secret env of Inr b \<Rightarrow> length b = KEY_LEN | Inl _ \<Rightarrow> True)"
| "op_fair _ s \<longleftrightarrow> True"

inductive store_run :: "mobile_store \<Rightarrow> store_op list \<Rightarrow> mobile_store \<Rightarrow> bool" where
  run_nil: "store_run s [] s"
| run_step: "op_fair a s \<Longrightarrow> store_run (apply_op a s) ops s' \<Longrightarrow> store_run s (a # ops) s'"

inductive_simps store_run_simps [simp]: "store_run s [] s'" "store_run s (a # ops) s'"

lemma store_run_fold: "store_run s ops s' \<Longrightarrow> s' = fold apply_op ops s"
  by (induction rule: store_run.induct) simp_all

lemma store_run_append:
  "store_run s ops1 s1 \<Longrightarrow> store_run s1 ops2 s2 \<Longrightarrow> store_run s (ops1 @ ops2) s2"
  by (induction rule: store_run.induct) simp_all

definition empty_store :: mobile_store where
  "empty_store = \<lparr> reg_file = NoFile, key_files = [] \<rparr>"

lemma empty_store_ok: "store_ok {} empty_store"
  by (simp add: store_ok_def empty_store_def)

text \<open>Creates that failed after the device was in the registry.\<close>

fun loses_key :: "string \<Rightarrow> store_op \<Rightarrow> bool" where
  "loses_key i (OpCreate env name profile) \<longleftrightarrow> s_id env = i \<and> s_save_err env \<noteq> None \<and> s_save_landed env"
| "loses_key i _ \<longleftrightarrow> False"

lemma loses_key_set: "loses_key i (OpCreate env name profile) \<longleftrightarrow> i \<in> lost_by env"
  by (auto simp: lost_by_def)

lemma apply_op_ok:
  assumes "store_ok L s" "op_fair a s"
  shows "store_ok (L \<union> {i. loses_key i a}) (apply_op a s)"
proof (cases a)
  case (OpCreate env name profile)
  have "{i. loses_key i a} = lost_by env" unfolding OpCreate loses_key_set by simp
  then show ?thesis
    using assms create_pending_ok [of L s env name profile] OpCreate
    by (auto simp del: loses_key.simps split: sum.splits)
qed (use assms in \<open>auto intro!: complete_pairing_ok register_token_ok reject_token_ok device_seen_ok
      set_full_access_ok set_mute_ok revoke_ok read_store_ok clear_relay_token_ok set_computer_name_ok\<close>)

lemma store_run_ok:
  "store_run s ops s' \<Longrightarrow> store_ok L s \<Longrightarrow> store_ok (L \<union> {i. list_ex (loses_key i) ops}) s'"
proof (induction arbitrary: L rule: store_run.induct)
  case (run_step a s ops s')
  have "store_ok ((L \<union> {i. loses_key i a}) \<union> {i. list_ex (loses_key i) ops}) s'"
    by (rule run_step.IH [OF apply_op_ok [OF run_step.prems run_step.hyps(1)]])
  then show ?case by (rule store_ok_mono) auto
qed simp

lemma reachable_store_ok: "store_run empty_store ops s \<Longrightarrow> store_ok {i. list_ex (loses_key i) ops} s"
  using store_run_ok [OF _ empty_store_ok] by simp

section \<open>What holds of every store\<close>


text \<open>
  Such a device is not only a matter of the model: a create whose registry save fails after the
  rename reports an error and leaves a pending device without a key file.
\<close>

definition store_devices :: "mobile_store \<Rightarrow> device set" where
  "store_devices s = (case reg_file s of RegFile r \<Rightarrow> set (devices r) | _ \<Rightarrow> {})"

definition example_secret :: "char \<Rightarrow> string" where
  "example_secret c = replicate 32 c"

definition example_env :: "string \<Rightarrow> store_env" where
  "example_env i = \<lparr> s_uuid = (\<lambda>s. s = i), s_lock_err = None, s_gateway = Inr ''gw'',
     s_read_err = None, s_save_err = None, s_save_landed = False, s_key_read_err = None,
     s_key_missing = ''missing'', s_key_write_err = None, s_key_landed = False, s_key_stuck = (\<lambda>_. False), s_now = 5, s_now_after = 6, s_id = i,
     s_secret = Inr (example_secret CHR ''k'') \<rparr>"

definition example_paired :: mobile_store where
  "example_paired = apply_op (OpPair (example_env ''d1'') ''d1'' (example_secret CHR ''p'') ''10.0.0.2'')
     (apply_op (OpCreate (example_env ''d1'') ''Phone'' ''profile-1'') empty_store)"

definition example_registry :: registry where
  "example_registry = \<lparr> schema_version = 1, gateway_id = ''gw'', computer_name = None,
     devices = [activate (example_env ''d1'') ''10.0.0.2''
                  (new_device (example_env ''d1'') ''Phone'' ''profile-1'')] \<rparr>"

lemmas example_defs = example_env_def example_secret_def empty_store_def KEY_LEN_def
  create_pending_def new_device_def update_store_def pure_change_def load_registry_def
  create_change_def expired_ids_def complete_pairing_def pair_change_def find_device_def usable_def
  PAIR_TTL_MS_def read_key_def set_device_def

lemma example_created: "apply_op (OpCreate (example_env ''d1'') ''Phone'' ''profile-1'') empty_store =
   \<lparr> reg_file = RegFile \<lparr> schema_version = 1, gateway_id = ''gw'', computer_name = None,
       devices = [new_device (example_env ''d1'') ''Phone'' ''profile-1''] \<rparr>,
     key_files = [(''d1'', example_secret CHR ''k'')] \<rparr>"
  by (simp add: example_defs Let_def)

lemma example_paired_reg: "reg_file example_paired = RegFile example_registry"
  unfolding example_paired_def example_created
  by (simp add: example_defs Let_def example_registry_def activate_def)

lemma example_run: "store_run empty_store
   [OpCreate (example_env ''d1'') ''Phone'' ''profile-1'',
    OpPair (example_env ''d1'') ''d1'' (example_secret CHR ''p'') ''10.0.0.2''] example_paired"
  by (simp add: example_paired_def fresh_id_def example_env_def example_secret_def KEY_LEN_def
      del: apply_op.simps) (simp add: empty_store_def)

lemma failed_create_loses_key:
  "let s = apply_op (OpCreate (example_env ''d1''\<lparr>s_save_err := Some ''sync'', s_save_landed := True\<rparr>)
       ''Phone'' ''profile-1'') empty_store
   in store_devices s = {new_device (example_env ''d1'') ''Phone'' ''profile-1''} \<and> key_files s = []"
  by (simp add: example_defs Let_def store_devices_def drop_key_def)


section \<open>Where the devices of a store come from\<close>

definition derives :: "store_op \<Rightarrow> device \<Rightarrow> device \<Rightarrow> bool" where
  "derives a d d' \<longleftrightarrow> d_id d' = d_id d \<and> (d_state d' = d_state d \<or> d_state d' = Active)
     \<and> (d_full_access d' = d_full_access d \<or> (\<exists>env b. a = OpAccess env (d_id d) b
          \<and> d_full_access d' = b))"

lemma derives_refl [simp]: "derives a d d"
  by (simp add: derives_def)

lemma derives_refl_ex: "d \<in> S \<Longrightarrow> \<exists>d0 \<in> S. derives a d0 d"
  using derives_refl by blast

lemma update_devices:
  assumes "d' \<in> store_devices (snd (update_store env c s))"
  obtains "d' \<in> store_devices s"
  | r x r' ks where "load_registry env (reg_file s) = Inr r" "set (devices r) = store_devices s"
      "c r (key_files s) = (Inr (x, r'), ks)" "d' \<in> set (devices r')"
proof (rule update_store_cases [of env c s])
  assume "snd (update_store env c s) = s"
  then show ?thesis using that(1) assms by simp
next
  fix r
  assume "snd (update_store env c s) = s\<lparr>key_files := snd (c r (key_files s))\<rparr>"
  then show ?thesis using that(1) assms by (simp add: store_devices_def)
next
  fix r x r' ks
  assume r: "load_registry env (reg_file s) = Inr r" "c r (key_files s) = (Inr (x, r'), ks)"
    "snd (update_store env c s) = \<lparr> reg_file = RegFile r', key_files = ks \<rparr>"
  have "set (devices r) = store_devices s"
    using load_devices [OF r(1)] by (auto simp: store_devices_def split: reg_file.splits)
  then show ?thesis
    using that(2) [OF r(1) _ r(2)] assms r(3) by (simp add: store_devices_def)
qed

lemma change_first_elem:
  "d' \<in> set (change_first i f ds) \<Longrightarrow> \<exists>d \<in> set ds. d' = d \<or> (d_id d = i \<and> d' = f d)"
  by (induction ds) (auto split: if_split_asm)

lemma remove_first_elem: "d' \<in> set (remove_first i ds) \<Longrightarrow> d' \<in> set ds"
  by (induction ds) (auto split: if_split_asm)

definition derives_all :: "store_op \<Rightarrow> registry \<Rightarrow> registry \<Rightarrow> bool" where
  "derives_all a r r' \<longleftrightarrow> (\<forall>d' \<in> set (devices r'). \<exists>d \<in> set (devices r). derives a d d')"

lemma derives_all_refl [simp]: "derives_all a r r"
  by (simp add: derives_all_def derives_refl_ex)

lemma derives_all_set:
  assumes "\<And>d. d_id d = i \<Longrightarrow> derives a d (f d)"
  shows "derives_all a r (set_device i f r)"
  unfolding derives_all_def
proof
  fix d'
  assume "d' \<in> set (devices (set_device i f r))"
  then obtain d where "d \<in> set (devices r)" "d' = d \<or> (d_id d = i \<and> d' = f d)"
    using change_first_elem [of d' i f "devices r"] by (auto simp: set_device_def)
  then show "\<exists>d \<in> set (devices r). derives a d d'"
    using assms derives_refl by blast
qed

lemma derives_all_remove: "derives_all a r (r\<lparr>devices := remove_first i (devices r)\<rparr>)"
  unfolding derives_all_def using remove_first_elem derives_refl by force

lemma pure_devices:
  assumes "d' \<in> store_devices (snd (update_store env (pure_change f) s))"
    and "\<And>r x r'. f r = Inr (x, r') \<Longrightarrow> derives_all a r r'"
  shows "\<exists>d \<in> store_devices s. derives a d d'"
  using assms(1)
proof (rule update_devices)
  assume "d' \<in> store_devices s"
  then show ?thesis using derives_refl by blast
next
  fix r x r' ks
  assume r: "set (devices r) = store_devices s" "pure_change f r (key_files s) = (Inr (x, r'), ks)"
    "d' \<in> set (devices r')"
  then have "derives_all a r r'" using assms(2) by (simp add: pure_change_def)
  then show ?thesis using r by (simp add: derives_all_def)
qed

lemma remove_expired_reg [simp]: "reg_file (snd (remove_expired env is s)) = reg_file s"
  by (induction "is" arbitrary: s) auto

lemma store_devices_keys [simp]:
  "store_devices (s\<lparr>key_files := ks\<rparr>) = store_devices s"
  "store_devices (drop_key env i s) = store_devices s"
  "store_devices (snd (remove_expired env is s)) = store_devices s"
  by (simp_all add: store_devices_def)

lemma create_devices:
  assumes "d' \<in> store_devices (snd (create_pending env name profile s))"
  shows "d' \<in> store_devices s \<or> d' = new_device env name profile"
proof (cases "\<exists>b. s_secret env = Inr b \<and> s_uuid env (s_id env) \<and> s_key_write_err env = None")
  case False
  then have "store_devices (snd (create_pending env name profile s)) = store_devices s"
    by (auto simp: create_pending_def Let_def new_device_def split: sum.split option.split)
  with assms show ?thesis by simp
next
  case True
  then obtain b where b: "s_secret env = Inr b" "s_uuid env (s_id env)" "s_key_write_err env = None"
    by blast
  let ?c = "pure_change (create_change (s_now env) (new_device env name profile))"
    and ?s = "s\<lparr>key_files := AList.update (s_id env) b (key_files s)\<rparr>"
  obtain res s2 where u: "update_store env ?c ?s = (res, s2)" by force
  have di: "d_id (new_device env name profile) = s_id env"
    by (simp add: new_device_def)
  have "store_devices (snd (create_pending env name profile s)) = store_devices s2"
  proof (cases res)
    case (Inl e)
    then show ?thesis using b u di by (simp add: create_pending_def Let_def)
  next
    case (Inr y)
    obtain expired g where y: "y = (expired, g)" by (cases y) auto
    obtain q s3 where q: "remove_expired env expired s2 = (q, s3)" by force
    then have "store_devices s3 = store_devices s2" by (metis snd_conv store_devices_keys(3))
    then show ?thesis
      using b u di Inr y q by (cases q) (simp_all add: create_pending_def Let_def)
  qed
  then have "d' \<in> store_devices (snd (update_store env ?c ?s))"
    using assms u by simp
  then show ?thesis
  proof (rule update_devices)
    fix r x r' ks
    assume "set (devices r) = store_devices ?s" "?c r (key_files ?s) = (Inr (x, r'), ks)"
      "d' \<in> set (devices r')"
    then show ?thesis
      by (cases x) (auto simp: pure_change_def create_change_Inr)
  qed simp
qed

lemma apply_op_devices:
  assumes "d' \<in> store_devices (apply_op a s)"
  shows "(\<exists>d \<in> store_devices s. derives a d d')
    \<or> (\<exists>env name profile. a = OpCreate env name profile \<and> d' = new_device env name profile)"
proof (cases a)
  case (OpPair env i ps ip)
  have "\<exists>d \<in> store_devices s. derives a d d'"
  proof (cases "s_uuid env i")
    case True
    have "d' \<in> store_devices (snd (update_store env (pair_change env i ps ip) s))"
      using assms OpPair True by (simp add: complete_pairing_def)
    then show ?thesis
    proof (rule update_devices)
      assume "d' \<in> store_devices s"
      then show ?thesis using derives_refl by blast
    next
      fix r x r' ks
      assume r: "set (devices r) = store_devices s"
        "pair_change env i ps ip r (key_files s) = (Inr (x, r'), ks)" "d' \<in> set (devices r')"
      have "derives_all a r r'"
        by (rule pair_change_Inr [OF r(2)])
          (simp add: derives_all_set derives_def activate_def)
      then show ?thesis using r by (simp add: derives_all_def)
    qed
  next
    case False
    then have "d' \<in> store_devices s" using assms OpPair by (simp add: complete_pairing_def)
    then show ?thesis using derives_refl by blast
  qed
  then show ?thesis by blast
next
  case (OpCreate env name profile)
  then show ?thesis using assms create_devices derives_refl by fastforce
next
  case (OpRegister env i t)
  then have "d' \<in> store_devices (snd (register_token env i t s))" using assms by simp
  then have "\<exists>d \<in> store_devices s. derives a d d'"
    unfolding register_token_def
    by (rule pure_devices)
      (auto split: option.splits if_splits intro!: derives_all_set simp: derives_def)
  then show ?thesis by blast
next
  case (OpReject env i t reason)
  then have "d' \<in> store_devices (snd (reject_token env i t reason s))" using assms by simp
  then have "\<exists>d \<in> store_devices s. derives a d d'"
    unfolding reject_token_def
    by (rule pure_devices) (auto intro!: derives_all_set simp: derives_def rejected_def)
  then show ?thesis by blast
next
  case (OpAccess env i b)
  then have "d' \<in> store_devices (snd (set_full_access env i b s))" using assms by simp
  then have "\<exists>d \<in> store_devices s. derives a d d'"
    unfolding set_full_access_def
    by (rule pure_devices)
      (auto split: option.splits intro!: derives_all_set simp: derives_def OpAccess)
  then show ?thesis by blast
next
  case (OpMute env i c b)
  then have "d' \<in> store_devices (snd (set_mute env i c b s))" using assms by simp
  then have "\<exists>d \<in> store_devices s. derives a d d'"
    unfolding set_mute_def
    by (rule pure_devices)
      (auto split: option.splits if_split_asm intro!: derives_all_set simp: derives_def Let_def)
  then show ?thesis by blast
next
  case (OpRevoke env i)
  have "\<exists>d \<in> store_devices s. derives a d d'"
    if "d' \<in> store_devices (snd (update_store env (pure_change (\<lambda>r.
         case find_device i r of None \<Rightarrow> Inl ''No paired device has that id''
         | Some d \<Rightarrow> Inr (d, r\<lparr>devices := remove_first i (devices r)\<rparr>))) s))"
    using that
    by (rule pure_devices) (auto split: option.splits intro!: derives_all_remove)
  moreover have "store_devices (snd (revoke env i s)) = (if s_uuid env i
      then store_devices (snd (update_store env (pure_change (\<lambda>r.
         case find_device i r of None \<Rightarrow> Inl ''No paired device has that id''
         | Some d \<Rightarrow> Inr (d, r\<lparr>devices := remove_first i (devices r)\<rparr>))) s))
      else store_devices s)"
    by (auto simp: revoke_def split: prod.split sum.split)
  moreover have "d' \<in> store_devices (snd (revoke env i s))" using assms OpRevoke by simp
  ultimately show ?thesis using derives_refl_ex by (auto split: if_split_asm)
next
  case (OpRead env)
  have "store_devices (snd (read_store env s)) = store_devices s"
    using load_devices [of env "reg_file s"]
    by (auto simp: read_store_def store_devices_def split: option.splits sum.splits reg_file.splits)
  then show ?thesis using assms OpRead derives_refl_ex by auto
next
  case (OpSeen env i ip)
  then have "d' \<in> store_devices (snd (device_seen env i ip s))" using assms by simp
  then have "\<exists>d \<in> store_devices s. derives a d d'"
    unfolding device_seen_def
    by (rule pure_devices)
      (auto split: option.splits if_splits intro!: derives_all_set simp: derives_def)
  then show ?thesis by blast
next
  case (OpClearToken env i)
  then have "d' \<in> store_devices (snd (clear_relay_token env i s))" using assms by simp
  then have "\<exists>d \<in> store_devices s. derives a d d'"
    unfolding clear_relay_token_def
    by (rule pure_devices) (auto split: option.splits intro!: derives_all_set simp: derives_def)
  then show ?thesis by blast
next
  case (OpName env name)
  then have "d' \<in> store_devices (snd (set_computer_name env name s))" using assms by simp
  then have "\<exists>d \<in> store_devices s. derives a d d'"
    unfolding set_computer_name_def
    by (rule pure_devices) (auto simp: derives_all_def derives_refl_ex)
  then show ?thesis by blast
qed

section \<open>Pairing happens once\<close>

fun creates :: "string \<Rightarrow> store_op \<Rightarrow> bool" where
  "creates i (OpCreate env name profile) \<longleftrightarrow> s_id env = i"
| "creates i _ \<longleftrightarrow> False"

definition not_pending :: "string \<Rightarrow> mobile_store \<Rightarrow> bool" where
  "not_pending i s \<longleftrightarrow> (\<forall>d \<in> store_devices s. d_id d = i \<longrightarrow> d_state d \<noteq> Pending)"

lemma not_pending_step:
  assumes "not_pending i s" "\<not> creates i a"
  shows "not_pending i (apply_op a s)"
  unfolding not_pending_def
proof (intro ballI impI)
  fix d'
  assume d': "d' \<in> store_devices (apply_op a s)" "d_id d' = i"
  from apply_op_devices [OF d'(1)] show "d_state d' \<noteq> Pending"
  proof
    assume "\<exists>d \<in> store_devices s. derives a d d'"
    then show ?thesis using assms(1) d'(2) by (auto simp: not_pending_def derives_def)
  next
    assume "\<exists>env name profile. a = OpCreate env name profile \<and> d' = new_device env name profile"
    then show ?thesis using assms(2) d'(2) by (auto simp: new_device_def)
  qed
qed

lemma not_pending_run:
  "store_run s ops s' \<Longrightarrow> not_pending i s \<Longrightarrow> list_all (\<lambda>a. \<not> creates i a) ops \<Longrightarrow> not_pending i s'"
  by (induction rule: store_run.induct) (auto simp: not_pending_step)

lemma not_pending_refused:
  assumes "not_pending i s"
  shows "\<exists>e. complete_pairing env i ps ip s = (Inl e, s)"
proof -
  have no: False if "load_registry env (reg_file s) = Inr r" "find_device i r = Some d" "d_state d = Pending"
    for env :: store_env and r d
  proof -
    have "d \<in> store_devices s" "d_id d = i"
      using load_devices [OF that(1)] find_device_Some [OF that(2)]
      by (auto simp: store_devices_def split: reg_file.splits)
    then show False using assms that(3) by (auto simp: not_pending_def)
  qed
  obtain res s' where c: "complete_pairing env i ps ip s = (res, s')" by force
  have "s' = s"
    by (rule complete_pairing_cases [of env i ps ip s]) (use no c in auto)
  moreover have "\<exists>e. res = Inl e"
  proof (cases res)
    case (Inr x)
    show ?thesis
      by (rule complete_pairing_Inr [OF c [unfolded Inr]]) (use no in blast)
  qed simp
  ultimately show ?thesis using c by auto
qed

lemma paired_not_pending:
  assumes s: "store_ok L s" and p: "complete_pairing env i ps ip s = (Inr x, s')"
  shows "not_pending i s'"
proof (rule complete_pairing_Inr [OF p])
  fix r d b
  assume r: "load_registry env (reg_file s) = Inr r"
    and s': "s' = \<lparr> reg_file = RegFile (set_device i (activate env ip) r),
            key_files = AList.update i (take (KEY_LEN + 1) b @ ps) (key_files s) \<rparr>"
  have dist: "distinct (map d_id (devices r))"
    using load_ok [OF r s] by (simp add: reg_ok_def)
  have "store_devices s' = (\<lambda>d. if d_id d = i then activate env ip d else d) ` set (devices r)"
    unfolding s' store_devices_def set_device_def by (simp add: change_first_map [OF dist])
  moreover have "d_state (if d_id d = i then activate env ip d else d) \<noteq> Pending"
    if "d_id (if d_id d = i then activate env ip d else d) = i" for d
    using that by (cases "d_id d = i") (simp_all add: activate_def)
  ultimately show ?thesis
    unfolding not_pending_def by (metis (no_types, lifting) imageE)
qed

text \<open>
  C9: A pairing code works once: after a phone has paired with a device, whatever operations
  of the program run on the store (other pairings, reconnects, tokens, mutes, access
  changes, revocations, a new computer name, new devices with other ids), whichever of their
  system calls fail and even when a failed write had already replaced the file, a second
  pairing with it is refused and changes nothing.
\<close>
theorem pairing_one_shot:
  assumes "store_run empty_store ops0 s"
    and "complete_pairing env i secret1 ip s = (Inr x, s1)"
    and "store_run s1 ops s2" "list_all (\<lambda>a. \<not> creates i a) ops"
  shows "\<exists>e. complete_pairing env' i secret2 ip' s2 = (Inl e, s2)"
  by (rule not_pending_refused [OF not_pending_run [OF assms(3)
        paired_not_pending [OF reachable_store_ok [OF assms(1)] assms(2)] assms(4)]])

lemma example_created_run: "store_run empty_store [OpCreate (example_env ''d1'') ''Phone'' ''profile-1'']
   (apply_op (OpCreate (example_env ''d1'') ''Phone'' ''profile-1'') empty_store)"
  using example_run by simp

lemma example_pairing: "complete_pairing (example_env ''d1'') ''d1'' (example_secret CHR ''p'') ''10.0.0.2''
    (apply_op (OpCreate (example_env ''d1'') ''Phone'' ''profile-1'') empty_store) = (Inr (), example_paired)"
  unfolding example_paired_def example_created
  by (simp add: example_defs Let_def)

text \<open>
  The key file grows before the registry is saved: when that save fails, the device is still
  pending, and the same code is refused from then on because of its key file.
\<close>

lemma failed_save_spoils_code:
  "let s1 = snd (complete_pairing (example_env ''d1''\<lparr>s_save_err := Some ''disk full''\<rparr>) ''d1''
          (example_secret CHR ''p'') ''10.0.0.2''
          (apply_op (OpCreate (example_env ''d1'') ''Phone'' ''profile-1'') empty_store))
   in fst (complete_pairing (example_env ''d1'') ''d1'' (example_secret CHR ''p'') ''10.0.0.2'' s1)
      = Inl ''The device key file is invalid''"
  unfolding example_created by (simp add: example_defs Let_def)

lemma pairing_one_shot_witness:
  "\<exists>e. complete_pairing (example_env ''d1'') ''d1'' (example_secret CHR ''q'') ''10.0.0.9''
     (apply_op (OpMute (example_env ''d1'') ''d1'' ''c'' True) example_paired)
   = (Inl e, apply_op (OpMute (example_env ''d1'') ''d1'' ''c'' True) example_paired)"
  by (rule pairing_one_shot [OF example_created_run example_pairing,
        of "[OpMute (example_env ''d1'') ''d1'' ''c'' True]"]) simp_all

section \<open>What becomes of a key file\<close>

text \<open>A key file is removed, or a phone's secret is added to one of 32 bytes; nothing else happens
  to it.\<close>

definition key_was :: "string \<Rightarrow> string \<Rightarrow> mobile_store \<Rightarrow> bool" where
  "key_was i k s \<longleftrightarrow>
     (case map_of (key_files s) i of
        None \<Rightarrow> True
      | Some x \<Rightarrow> x = k \<or> (length k = KEY_LEN \<and> length x = 2 * KEY_LEN))"

lemma key_was_cong: "map_of (key_files s') i = map_of (key_files s) i \<Longrightarrow> key_was i k s' = key_was i k s"
  by (simp add: key_was_def)

lemma key_was_gone: "map_of (key_files s) i = None \<Longrightarrow> key_was i k s"
  by (simp add: key_was_def)

lemma key_was_keys:
  "key_files s' = key_files s \<Longrightarrow> key_was i k s \<Longrightarrow> key_was i k s'"
  by (simp add: key_was_def)

lemma update_pure_keys [simp]: "key_files (snd (update_store env (pure_change f) s)) = key_files s"
  by (rule update_pure_cases [of env f s]) auto

lemma read_store_keys [simp]: "key_files (snd (read_store env s)) = key_files s"
  by (auto simp: read_store_def split: option.split sum.split)

lemma drop_key_was: "key_was i k s \<Longrightarrow> key_was i k (drop_key env j s)"
  by (auto simp: key_was_def drop_key_def al.lookup_del split: option.splits)

lemma remove_expired_was: "key_was i k s \<Longrightarrow> key_was i k (snd (remove_expired env is s))"
  by (induction "is" arbitrary: s) (auto simp: drop_key_was)

lemma revoke_was: "key_was i k s \<Longrightarrow> key_was i k (snd (revoke env j s))"
proof -
  assume k: "key_was i k s"
  obtain res s2 where u: "update_store env (pure_change (\<lambda>r.
      case find_device j r of None \<Rightarrow> Inl ''No paired device has that id''
      | Some d \<Rightarrow> Inr (d, r\<lparr>devices := remove_first j (devices r)\<rparr>))) s = (res, s2)" by force
  have "key_files s2 = key_files s" using arg_cong [OF u, of "\<lambda>p. key_files (snd p)"] by simp
  then have "key_was i k s2" using key_was_keys k by blast
  then show ?thesis
    using k u drop_key_was by (auto simp: revoke_def split: sum.split)
qed

lemma create_was:
  assumes k: "key_was i k s" and i: "s_id env \<noteq> i"
  shows "key_was i k (snd (create_pending env name profile s))"
proof -
  have added: "key_was i k (s\<lparr>key_files := AList.update (s_id env) b (key_files s)\<rparr>)" for b
    using k i by (simp add: key_was_def al.lookup_put)
  have di: "d_id (new_device env name profile) = s_id env" by (simp add: new_device_def)
  show ?thesis
  proof (cases "\<exists>b. s_secret env = Inr b \<and> s_uuid env (s_id env) \<and> s_key_write_err env = None")
    case False
    then show ?thesis
      using k added di by (auto simp: create_pending_def Let_def split: sum.split option.split)
  next
    case True
    then obtain b where b: "s_secret env = Inr b" "s_uuid env (s_id env)" "s_key_write_err env = None"
      by blast
    obtain res s2 where u: "update_store env
        (pure_change (create_change (s_now env) (new_device env name profile)))
        (s\<lparr>key_files := AList.update (s_id env) b (key_files s)\<rparr>) = (res, s2)" by force
    have "key_files s2 = AList.update (s_id env) b (key_files s)"
      using arg_cong [OF u, of "\<lambda>p. key_files (snd p)"] by simp
    then have s2: "key_was i k s2" using key_was_keys [OF _ added] by simp
    show ?thesis
    proof (cases res)
      case (Inl e)
      then show ?thesis
        using b u di drop_key_was [OF s2] by (simp add: create_pending_def Let_def)
    next
      case (Inr y)
      obtain expired g where y: "y = (expired, g)" by (cases y) auto
      obtain q s3 where q: "remove_expired env expired s2 = (q, s3)" by force
      have "key_was i k s3" using remove_expired_was [OF s2, of env expired] q by simp
      then show ?thesis
        using b u di Inr y q by (cases q) (simp_all add: create_pending_def Let_def)
    qed
  qed
qed

lemma pair_was:
  assumes k: "key_was i k s" and ps: "length ps = KEY_LEN"
  shows "key_was i k (snd (complete_pairing env j ps ip s))"
proof (rule complete_pairing_cases [of env j ps ip s])
  assume "snd (complete_pairing env j ps ip s) = s"
  then show ?thesis using k by simp
next
  fix r d b
  assume b: "read_key env j (key_files s) = Inr b" "length (take (KEY_LEN + 1) b) = KEY_LEN"
    and c: "snd (complete_pairing env j ps ip s) = s\<lparr>key_files :=
         AList.update j (take (KEY_LEN + 1) b @ ps) (key_files s)\<rparr>
       \<or> snd (complete_pairing env j ps ip s) = \<lparr> reg_file = RegFile (set_device j (activate env ip) r),
         key_files = AList.update j (take (KEY_LEN + 1) b @ ps) (key_files s) \<rparr>"
  have keys: "key_files (snd (complete_pairing env j ps ip s))
      = AList.update j (take (KEY_LEN + 1) b @ ps) (key_files s)" using c by auto
  have mb: "map_of (key_files s) j = Some b" using b(1) by (simp add: read_key_def split: option.split_asm)
  have "length b = KEY_LEN" using b(2) by (simp add: min_def split: if_split_asm)
  then have "length k = KEY_LEN" if "i = j"
    using k mb that by (auto simp: key_was_def KEY_LEN_def)
  then show ?thesis
    using k b(2) ps keys by (auto simp: key_was_def al.lookup_put)
qed

lemma key_was_step:
  "key_was i k s \<Longrightarrow> op_fair a s \<Longrightarrow> \<not> creates i a \<Longrightarrow> key_was i k (apply_op a s)"
  by (cases a)
    (auto simp: pair_was create_was revoke_was register_token_def reject_token_def set_full_access_def
      set_mute_def device_seen_def clear_relay_token_def set_computer_name_def intro: key_was_keys)

lemma key_was_run:
  "store_run s ops s' \<Longrightarrow> key_was i k s \<Longrightarrow> list_all (\<lambda>a. \<not> creates i a) ops \<Longrightarrow> key_was i k s'"
  by (induction rule: store_run.induct) (simp_all add: key_was_step)

section \<open>Full access comes from the computer\<close>

fun grants_access :: "string \<Rightarrow> store_op \<Rightarrow> bool" where
  "grants_access i (OpAccess env j b) \<longleftrightarrow> j = i \<and> b"
| "grants_access i _ \<longleftrightarrow> False"

lemma full_access_step:
  assumes "d' \<in> store_devices (apply_op a s)" "d_full_access d'" "\<not> grants_access (d_id d') a"
  shows "\<exists>d \<in> store_devices s. d_id d = d_id d' \<and> d_full_access d"
  using apply_op_devices [OF assms(1)] assms(2,3)
  by (auto simp: derives_def new_device_def)

lemma full_access_run:
  "store_run s ops s' \<Longrightarrow> d' \<in> store_devices s' \<Longrightarrow> d_full_access d' \<Longrightarrow>
     list_all (\<lambda>a. \<not> grants_access (d_id d') a) ops \<Longrightarrow>
     \<exists>d \<in> store_devices s. d_id d = d_id d' \<and> d_full_access d"
  by (induction rule: store_run.induct) (use full_access_step in fastforce)+

theorem full_access_from_computer:
  assumes "store_run empty_store ops s" "reg_file s = RegFile r" "d \<in> set (devices r)" "d_full_access d"
  shows "list_ex (grants_access (d_id d)) ops"
proof (rule ccontr)
  assume "\<not> list_ex (grants_access (d_id d)) ops"
  then have "list_all (\<lambda>a. \<not> grants_access (d_id d) a) ops"
    by (simp add: list_ex_iff list_all_iff)
  moreover have "d \<in> store_devices s" using assms(2,3) by (simp add: store_devices_def)
  ultimately show False
    using full_access_run [OF assms(1)] assms(4) by (auto simp: store_devices_def empty_store_def)
qed

lemma example_granted_reg:
  "reg_file (apply_op (OpAccess (example_env ''d1'') ''d1'' True) example_paired) = RegFile
     (set_device ''d1'' (\<lambda>d. d\<lparr>d_full_access := True\<rparr>) example_registry)"
  using example_paired_reg
  by (simp add: set_full_access_def update_store_def pure_change_def load_registry_def example_env_def
      example_registry_def find_device_def activate_def new_device_def)

lemma example_granted_run: "store_run empty_store
   [OpCreate (example_env ''d1'') ''Phone'' ''profile-1'',
    OpPair (example_env ''d1'') ''d1'' (example_secret CHR ''p'') ''10.0.0.2'',
    OpAccess (example_env ''d1'') ''d1'' True]
   (apply_op (OpAccess (example_env ''d1'') ''d1'' True) example_paired)"
  using example_run by simp

lemma full_access_from_computer_witness:
  "list_ex (grants_access ''d1'') [OpCreate (example_env ''d1'') ''Phone'' ''profile-1'',
    OpPair (example_env ''d1'') ''d1'' (example_secret CHR ''p'') ''10.0.0.2'',
    OpAccess (example_env ''d1'') ''d1'' True]"
proof -
  let ?r = "set_device ''d1'' (\<lambda>d. d\<lparr>d_full_access := True\<rparr>) example_registry"
  have d: "hd (devices ?r) \<in> set (devices ?r)" "d_full_access (hd (devices ?r))"
    "d_id (hd (devices ?r)) = ''d1''"
    by (simp_all add: example_registry_def set_device_def activate_def new_device_def example_env_def)
  show ?thesis
    using full_access_from_computer [OF example_granted_run example_granted_reg d(1,2)]
    unfolding d(3) .
qed

section \<open>Rejected push tokens\<close>

lemma find_device_set:
  assumes "find_device i r = Some d" "\<And>e. d_id e = i \<Longrightarrow> d_id (f e) = i"
  shows "find_device i (set_device i f r) = Some (f d)"
proof -
  have "find (\<lambda>d. d_id d = i) (change_first i f ds) = Some (f d)"
    if "find (\<lambda>d. d_id d = i) ds = Some d" for ds
    using that assms(2) by (induction ds) (auto split: if_split_asm)
  then show ?thesis using assms(1) by (simp add: find_device_def set_device_def)
qed

theorem rejected_token_stays_out:
  assumes "reg_file s = RegFile r" "find_device i r = Some d"
    and "reject_token env i t reason s = (Inr x, s1)"
    and "s_lock_err env' = None" "s_read_err env' = None" "s_save_err env' = None"
  shows "register_token env' i t s1 = (Inr (Some reason), s1)
    \<and> (t' \<noteq> t \<longrightarrow> (\<exists>r2 d2. register_token env' i t' s1
         = (Inr None, \<lparr> reg_file = RegFile r2, key_files = key_files s \<rparr>)
       \<and> find_device i r2 = Some d2 \<and> d_relay_token d2 = Some t' \<and> d_rejected_token d2 = None))"
proof -
  obtain q where q: "load_registry env (reg_file s) = Inr q"
    and s1: "s1 = \<lparr> reg_file = RegFile (set_device i (rejected t reason) q), key_files = key_files s \<rparr>"
    using assms(3) by (auto simp: reject_token_def update_store_Inr pure_change_def)
  have "q = r" using load_devices [OF q] assms(1) by simp
  have v: "schema_version r = 1"
    using q unfolding \<open>q = r\<close> assms(1) load_registry_def
    by (auto split: option.splits if_split_asm)
  have f: "find_device i (set_device i (rejected t reason) r) = Some (rejected t reason d)"
    by (rule find_device_set [OF assms(2)]) (simp add: rejected_def)
  have rd: "d_rejected_token (rejected t reason d) = Some t"
    "d_rejected_reason (rejected t reason d) = Some reason"
    by (simp_all add: rejected_def)
  have l: "load_registry env' (reg_file s1) = Inr (set_device i (rejected t reason) r)"
    using v assms(5) by (simp add: s1 \<open>q = r\<close> load_registry_def set_device_def)
  have again: "register_token env' i t s1 = (Inr (Some reason), s1)"
    using l f rd assms(4,6)
    by (simp add: register_token_def update_store_def pure_change_def) (simp add: s1 \<open>q = r\<close>)
  let ?g = "\<lambda>d. d\<lparr>d_relay_token := Some t', d_rejected_token := None, d_rejected_reason := None\<rparr>"
  have "find_device i (set_device i ?g (set_device i (rejected t reason) r))
      = Some (?g (rejected t reason d))"
    by (rule find_device_set [OF f]) simp
  moreover have "register_token env' i t' s1 = (Inr None, \<lparr> reg_file = RegFile
      (set_device i ?g (set_device i (rejected t reason) r)), key_files = key_files s \<rparr>)" if "t' \<noteq> t"
    using l f rd assms(4,6) that
    by (simp add: register_token_def update_store_def pure_change_def) (simp add: s1)
  ultimately show ?thesis
    using again by auto
qed

lemma rejected_token_stays_out_witness:
  "register_token (example_env ''d1'') ''d1'' ''tok''
     (apply_op (OpReject (example_env ''d1'') ''d1'' ''tok'' ''expired'') example_paired)
   = (Inr (Some ''expired''),
      apply_op (OpReject (example_env ''d1'') ''d1'' ''tok'' ''expired'') example_paired)"
proof -
  have f: "find_device ''d1'' example_registry = Some (activate (example_env ''d1'') ''10.0.0.2''
      (new_device (example_env ''d1'') ''Phone'' ''profile-1''))"
    by (simp add: find_device_def example_registry_def activate_def new_device_def example_env_def)
  have "reject_token (example_env ''d1'') ''d1'' ''tok'' ''expired'' example_paired = (Inr (),
      apply_op (OpReject (example_env ''d1'') ''d1'' ''tok'' ''expired'') example_paired)"
    by (simp add: reject_token_def update_store_def pure_change_def load_registry_def
        example_paired_reg example_env_def example_registry_def)
  then show ?thesis
    using rejected_token_stays_out [OF example_paired_reg f, of "example_env ''d1''" "''tok''" "''expired''" "()"
        _ "example_env ''d1''"] by (simp add: example_env_def)
qed

end
