(* ===== verification/MobileCrypto.thy ===== *)
theory MobileCrypto
  imports Prelude
begin

text \<open>
  Keys, proofs and encrypted frames of the phone gateway, \<open>cli/src/mobile/crypto.rs\<close>. Bytes
  are 8-bit words and sequence numbers 64-bit words. HMAC-SHA256, AES-256-GCM and base64
  (crates) are parameters: \<open>mac key message\<close>, \<open>enc key nonce aad message\<close> and
  \<open>dec key nonce aad ciphertext\<close>, the last two \<open>None\<close> on an error.
\<close>


type_synonym bytes = "8 word list"

definition utf8 :: "string \<Rightarrow> bytes" where
  "utf8 s = map (\<lambda>c. of_nat (of_char c)) s"

definition KEY_SALT :: bytes where
  "KEY_SALT = utf8 ''chrome-use mobile v1''"

definition PHONE_PROOF :: bytes where
  "PHONE_PROOF = utf8 ''chrome-use mobile v1 phone proof''"

definition GATEWAY_PROOF :: bytes where
  "GATEWAY_PROOF = utf8 ''chrome-use mobile v1 gateway proof''"

definition SEQ_LEN :: nat where "SEQ_LEN = 8"
definition TAG_LEN :: nat where "TAG_LEN = 16"

section \<open>Big-endian numbers\<close>

fun be_digits :: "nat \<Rightarrow> nat \<Rightarrow> bytes" where
  "be_digits 0 n = []"
| "be_digits (Suc k) n = be_digits k (n div 256) @ [of_nat n]"

definition be_value :: "bytes \<Rightarrow> nat" where
  "be_value bs = foldl (\<lambda>n b. 256 * n + unat b) 0 bs"

definition to_be_bytes :: "64 word \<Rightarrow> bytes" where
  "to_be_bytes w = be_digits 8 (unat w)"

definition from_be_bytes :: "bytes \<Rightarrow> 64 word" where
  "from_be_bytes bs = of_nat (be_value bs)"

lemma byte_lt: "unat (b :: 8 word) < 256"
  using unsigned_less [of b] by simp

lemma word64_lt: "unat (w :: 64 word) < 256 ^ 8"
  using unsigned_less [of w] by simp

lemma length_be_digits [simp]: "length (be_digits k n) = k"
  by (induction k arbitrary: n) auto

lemma be_value_digits: "n < 256 ^ k \<Longrightarrow> be_value (be_digits k n) = n"
proof (induction k arbitrary: n)
  case 0
  then show ?case by (simp add: be_value_def)
next
  case (Suc k)
  have "n div 256 < 256 ^ k" using Suc.prems by (simp add: less_mult_imp_div_less)
  moreover have "unat (of_nat n :: 8 word) = n mod 256" by (simp add: unat_of_nat)
  ultimately show ?case using Suc.IH [of "n div 256"] by (simp add: be_value_def)
qed

lemma length_to_be_bytes [simp]: "length (to_be_bytes w) = 8"
  by (simp add: to_be_bytes_def)

lemma from_to_be_bytes [simp]: "from_be_bytes (to_be_bytes w) = w"
proof -
  show ?thesis
    unfolding from_be_bytes_def to_be_bytes_def be_value_digits [OF word64_lt] by simp
qed

lemma to_be_bytes_inj: "to_be_bytes v = to_be_bytes w \<longleftrightarrow> v = w"
  by (metis from_to_be_bytes)

lemma be_value_snoc: "be_value (bs @ [b]) = 256 * be_value bs + unat b"
  by (simp add: be_value_def)

lemma be_digits_value: "be_digits (length bs) (be_value bs) = bs"
proof (induction bs rule: rev_induct)
  case Nil
  then show ?case by simp
next
  case (snoc b bs)
  have b: "unat b < 256" by (rule byte_lt)
  then have "(256 * be_value bs + unat b) div 256 = be_value bs" by simp
  moreover have "(of_nat (256 * be_value bs + unat b) :: 8 word) = b"
  proof -
    have "(of_nat 256 :: 8 word) = 0" by simp
    then have "(of_nat (256 * be_value bs) :: 8 word) = 0"
      by (metis mult_zero_left of_nat_mult)
    then show ?thesis by (simp only: of_nat_add add_0) simp
  qed
  ultimately show ?case using snoc by (simp add: be_value_snoc)
qed

lemma be_value_lt: "be_value bs < 256 ^ length bs"
proof (induction bs rule: rev_induct)
  case Nil
  then show ?case by (simp add: be_value_def)
next
  case (snoc b bs)
  have "unat b < 256" by (rule byte_lt)
  then show ?case using snoc by (simp add: be_value_snoc)
qed

lemma to_from_be_bytes: "length bs = 8 \<Longrightarrow> to_be_bytes (from_be_bytes bs) = bs"
proof -
  assume l: "length bs = 8"
  then have "be_value bs < 2 ^ 64" using be_value_lt [of bs] by simp
  then have "unat (of_nat (be_value bs) :: 64 word) = be_value bs"
    by (simp add: unat_of_nat)
  then show ?thesis
    using be_digits_value [of bs] l by (simp add: to_be_bytes_def from_be_bytes_def)
qed

section \<open>Keys and proofs\<close>

definition hkdf :: "(bytes \<Rightarrow> bytes \<Rightarrow> bytes) \<Rightarrow> bytes \<Rightarrow> bytes \<Rightarrow> bytes \<Rightarrow> bytes" where
  "hkdf mac ikm salt info =
     (let salt = (if salt = [] then replicate 32 0 else salt);
          prk = mac salt ikm
      in mac prk (info @ [1]))"

record device_keys =
  auth :: bytes
  frame :: bytes
  push :: bytes

definition derive_keys :: "(bytes \<Rightarrow> bytes \<Rightarrow> bytes) \<Rightarrow> bytes \<Rightarrow> device_keys" where
  "derive_keys mac ikm =
     (let fr = hkdf mac ikm KEY_SALT (utf8 ''frame'')
      in \<lparr> auth = hkdf mac ikm KEY_SALT (utf8 ''auth''), frame = fr,
           push = hkdf mac fr [] (utf8 ''push'') \<rparr>)"

definition session_keys ::
  "(bytes \<Rightarrow> bytes \<Rightarrow> bytes) \<Rightarrow> device_keys \<Rightarrow> bytes \<Rightarrow> bytes \<Rightarrow> bytes \<times> bytes" where
  "session_keys mac keys gateway_nonce phone_nonce =
     (let salt = gateway_nonce @ phone_nonce
      in (hkdf mac (frame keys) salt (utf8 ''c2p''), hkdf mac (frame keys) salt (utf8 ''p2c'')))"

text \<open>What the MAC of a proof is computed over, and the MAC.\<close>

definition proof_message :: "bytes \<Rightarrow> bytes \<Rightarrow> bytes \<Rightarrow> string \<Rightarrow> bytes" where
  "proof_message label gateway_nonce phone_nonce device_id =
     label @ gateway_nonce @ phone_nonce @ utf8 device_id"

definition proof_mac ::
  "(bytes \<Rightarrow> bytes \<Rightarrow> bytes) \<Rightarrow> bytes \<Rightarrow> bytes \<Rightarrow> bytes \<Rightarrow> bytes \<Rightarrow> string \<Rightarrow> bytes" where
  "proof_mac mac key label gateway_nonce phone_nonce device_id =
     mac key (proof_message label gateway_nonce phone_nonce device_id)"

definition phone_proof ::
  "(bytes \<Rightarrow> bytes \<Rightarrow> bytes) \<Rightarrow> device_keys \<Rightarrow> bytes \<Rightarrow> bytes \<Rightarrow> string \<Rightarrow> bytes" where
  "phone_proof mac keys g p i = proof_mac mac (auth keys) PHONE_PROOF g p i"

definition gateway_proof ::
  "(bytes \<Rightarrow> bytes \<Rightarrow> bytes) \<Rightarrow> device_keys \<Rightarrow> bytes \<Rightarrow> bytes \<Rightarrow> string \<Rightarrow> bytes" where
  "gateway_proof mac keys g p i = proof_mac mac (auth keys) GATEWAY_PROOF g p i"

definition verify_phone_proof ::
  "(bytes \<Rightarrow> bytes \<Rightarrow> bytes) \<Rightarrow> device_keys \<Rightarrow> bytes \<Rightarrow> bytes \<Rightarrow> string \<Rightarrow> bytes \<Rightarrow> bool" where
  "verify_phone_proof mac keys g p i prf \<longleftrightarrow> prf = proof_mac mac (auth keys) PHONE_PROOF g p i"

section \<open>Channels\<close>

definition gcm_nonce :: "64 word \<Rightarrow> bytes" where
  "gcm_nonce sequence = replicate 4 0 @ to_be_bytes sequence"

record channel =
  cipher_key :: bytes
  sequence :: "64 word"

definition new_channel :: "bytes \<Rightarrow> channel" where
  "new_channel key = \<lparr> cipher_key = key, sequence = 0 \<rparr>"

definition checked_succ :: "64 word \<Rightarrow> 64 word option" where
  "checked_succ w = (if w = - 1 then None else Some (w + 1))"

type_synonym aead = "bytes \<Rightarrow> bytes \<Rightarrow> bytes \<Rightarrow> bytes \<Rightarrow> bytes option"

text \<open>A call of the cipher, with the key, the nonce, the associated data and the message that it
  is made with; \<open>seal_calls\<close> also says which calls it made.\<close>

type_synonym cipher_call = "bytes \<times> bytes \<times> bytes \<times> bytes"

definition encrypt :: "aead \<Rightarrow> bytes \<Rightarrow> bytes \<Rightarrow> bytes \<Rightarrow> bytes \<Rightarrow> bytes option \<times> cipher_call list" where
  "encrypt enc k n a m = (enc k n a m, [(k, n, a, m)])"

definition seal_calls :: "aead \<Rightarrow> bytes \<Rightarrow> channel \<Rightarrow> bytes result \<times> channel \<times> cipher_call list" where
  "seal_calls enc plaintext ch =
     (let sq = sequence ch
      in case checked_succ sq of
           None \<Rightarrow> (Inl ''Connection sequence exhausted; reconnect'', ch, [])
         | Some next_sq \<Rightarrow>
             (let header = to_be_bytes sq; ch' = ch\<lparr>sequence := next_sq\<rparr>;
                  (r, calls) = encrypt enc (cipher_key ch) (gcm_nonce sq) header plaintext
              in case r of
                   None \<Rightarrow> (Inl ''Frame encryption failed'', ch', calls)
                 | Some sealed \<Rightarrow> (Inr (header @ sealed), ch', calls)))"

definition seal :: "aead \<Rightarrow> bytes \<Rightarrow> channel \<Rightarrow> bytes result \<times> channel" where
  "seal enc plaintext ch = (let (r, ch', calls) = seal_calls enc plaintext ch in (r, ch'))"

lemma seal_simp:
  "seal enc plaintext ch =
     (case checked_succ (sequence ch) of
        None \<Rightarrow> (Inl ''Connection sequence exhausted; reconnect'', ch)
      | Some next_sq \<Rightarrow>
          (case enc (cipher_key ch) (gcm_nonce (sequence ch)) (to_be_bytes (sequence ch)) plaintext of
             None \<Rightarrow> (Inl ''Frame encryption failed'', ch\<lparr>sequence := next_sq\<rparr>)
           | Some sealed \<Rightarrow> (Inr (to_be_bytes (sequence ch) @ sealed), ch\<lparr>sequence := next_sq\<rparr>)))"
  by (simp add: seal_def seal_calls_def encrypt_def Let_def split: option.split)

definition open_frame :: "aead \<Rightarrow> bytes \<Rightarrow> channel \<Rightarrow> bytes result \<times> channel" where
  "open_frame dec fr ch =
     (if length fr < SEQ_LEN + TAG_LEN then (Inl ''Frame is too short'', ch)
      else let header = take SEQ_LEN fr; sq = from_be_bytes header
           in if sq \<noteq> sequence ch then (Inl ''Frame is out of sequence'', ch)
              else case dec (cipher_key ch) (gcm_nonce sq) header (drop SEQ_LEN fr) of
                     None \<Rightarrow> (Inl ''Frame failed authentication'', ch)
                   | Some plaintext \<Rightarrow>
                       (case checked_succ sq of
                          None \<Rightarrow> (Inl ''Connection sequence exhausted; reconnect'', ch)
                        | Some next_sq \<Rightarrow> (Inr plaintext, ch\<lparr>sequence := next_sq\<rparr>)))"

definition push_kid :: "(bytes \<Rightarrow> bytes \<Rightarrow> bytes) \<Rightarrow> bytes \<Rightarrow> bytes" where
  "push_kid mac push_key = take 4 (mac push_key (utf8 ''chrome-use mobile v1 kid''))"

definition seal_push ::
  "(bytes \<Rightarrow> bytes \<Rightarrow> bytes) \<Rightarrow> aead \<Rightarrow> (bytes \<Rightarrow> string) \<Rightarrow> bytes \<Rightarrow> bytes \<Rightarrow> bytes \<Rightarrow> string result" where
  "seal_push mac enc base64 push_key nonce plaintext =
     (case enc push_key nonce [] plaintext of
        None \<Rightarrow> Inl ''Push encryption failed''
      | Some sealed \<Rightarrow> Inr (base64 (push_kid mac push_key @ nonce @ sealed)))"

section \<open>What an authenticated cipher gives\<close>

text \<open>
  The documented behaviour of AES-GCM: a sealed message opens again, is its 16-byte tag
  longer, and nothing opens but the sealed form of the message it opens to.
\<close>

definition aead_law :: "aead \<Rightarrow> aead \<Rightarrow> bool" where
  "aead_law enc dec \<longleftrightarrow>
     (\<forall>k n a m c. enc k n a m = Some c \<longrightarrow> dec k n a c = Some m \<and> length c = length m + TAG_LEN)
   \<and> (\<forall>k n a m c. dec k n a c = Some m \<longrightarrow> enc k n a m = Some c)"

text \<open>A cipher with this law: the message in clear with a tag made of the nonce.\<close>

definition toy_tag :: "bytes \<Rightarrow> bytes" where
  "toy_tag n = take 16 (n @ replicate 16 0)"

definition toy_enc :: aead where
  "toy_enc k n a m = Some (m @ toy_tag n)"

definition toy_dec :: aead where
  "toy_dec k n a c =
     (if 16 \<le> length c \<and> drop (length c - 16) c = toy_tag n
      then Some (take (length c - 16) c) else None)"

lemma toy_law: "aead_law toy_enc toy_dec"
proof -
  have l: "length (toy_tag n) = 16" for n
    by (simp add: toy_tag_def)
  have d: "toy_dec k n a (m @ toy_tag n) = Some m" for k n a m
    by (simp add: toy_dec_def l)
  have e: "toy_enc k n a m = Some c" if "toy_dec k n a c = Some m" for k n a m c
  proof -
    have "drop (length c - 16) c = toy_tag n" "m = take (length c - 16) c"
      using that by (auto simp: toy_dec_def split: if_split_asm)
    then show ?thesis by (metis append_take_drop_id toy_enc_def)
  qed
  show ?thesis
    unfolding aead_law_def
  proof (intro conjI allI impI)
    fix k n a m c
    assume "toy_enc k n a m = Some c"
    then have "c = m @ toy_tag n" by (simp add: toy_enc_def)
    then show "toy_dec k n a c = Some m" "length c = length m + TAG_LEN"
      by (simp_all add: d l TAG_LEN_def)
  qed (rule e)
qed

lemma seal_Inr:
  "seal enc m ch = (Inr fr, ch') \<longleftrightarrow> sequence ch \<noteq> - 1 \<and> ch' = ch\<lparr>sequence := sequence ch + 1\<rparr>
     \<and> (\<exists>c. enc (cipher_key ch) (gcm_nonce (sequence ch)) (to_be_bytes (sequence ch)) m = Some c
          \<and> fr = to_be_bytes (sequence ch) @ c)"
  by (auto simp: seal_simp checked_succ_def split: option.split)

lemma open_frame_Inr:
  "open_frame dec fr ch = (Inr m, ch') \<longleftrightarrow> SEQ_LEN + TAG_LEN \<le> length fr \<and> sequence ch \<noteq> - 1
     \<and> from_be_bytes (take SEQ_LEN fr) = sequence ch \<and> ch' = ch\<lparr>sequence := sequence ch + 1\<rparr>
     \<and> dec (cipher_key ch) (gcm_nonce (sequence ch)) (take SEQ_LEN fr) (drop SEQ_LEN fr) = Some m"
  by (auto simp: open_frame_def checked_succ_def Let_def not_less split: option.split)

lemma seal_open_iff:
  assumes "aead_law enc dec"
  shows "seal enc m ch = (Inr fr, ch') \<longleftrightarrow> open_frame dec fr ch = (Inr m, ch')"
proof
  assume "seal enc m ch = (Inr fr, ch')"
  then obtain c where s: "sequence ch \<noteq> - 1" "ch' = ch\<lparr>sequence := sequence ch + 1\<rparr>"
    "fr = to_be_bytes (sequence ch) @ c"
    and c: "enc (cipher_key ch) (gcm_nonce (sequence ch)) (to_be_bytes (sequence ch)) m = Some c"
    unfolding seal_Inr by blast
  have "length c = length m + TAG_LEN"
    "dec (cipher_key ch) (gcm_nonce (sequence ch)) (to_be_bytes (sequence ch)) c = Some m"
    using assms c unfolding aead_law_def by blast+
  then show "open_frame dec fr ch = (Inr m, ch')"
    unfolding open_frame_Inr by (simp add: s SEQ_LEN_def)
next
  assume o: "open_frame dec fr ch = (Inr m, ch')"
  then have h: "take SEQ_LEN fr = to_be_bytes (sequence ch)"
    using to_from_be_bytes [of "take SEQ_LEN fr"] by (auto simp: open_frame_Inr SEQ_LEN_def)
  then show "seal enc m ch = (Inr fr, ch')"
    using o assms append_take_drop_id [of SEQ_LEN fr]
    unfolding seal_Inr open_frame_Inr aead_law_def by metis
qed

text \<open>Sealing and opening one message after the other.\<close>

fun seal_all :: "aead \<Rightarrow> bytes list \<Rightarrow> channel \<Rightarrow> bytes result list \<times> channel" where
  "seal_all enc [] ch = ([], ch)"
| "seal_all enc (m # ms) ch =
     (let (r, ch1) = seal enc m ch; (rs, ch2) = seal_all enc ms ch1 in (r # rs, ch2))"

fun open_all :: "aead \<Rightarrow> bytes list \<Rightarrow> channel \<Rightarrow> bytes result list \<times> channel" where
  "open_all dec [] ch = ([], ch)"
| "open_all dec (f # fs) ch =
     (let (r, ch1) = open_frame dec f ch; (rs, ch2) = open_all dec fs ch1 in (r # rs, ch2))"

lemma seal_all_Cons:
  "seal_all enc (m # ms) ch = (map Inr fs, ch') \<longleftrightarrow>
     (\<exists>f fs' ch1. fs = f # fs' \<and> seal enc m ch = (Inr f, ch1)
        \<and> seal_all enc ms ch1 = (map Inr fs', ch'))"
  by (cases fs) (auto split: prod.split)

lemma open_all_Cons:
  "open_all dec (f # fs) ch = (map Inr ms, ch') \<longleftrightarrow>
     (\<exists>m ms' ch1. ms = m # ms' \<and> open_frame dec f ch = (Inr m, ch1)
        \<and> open_all dec fs ch1 = (map Inr ms', ch'))"
  by (cases ms) (auto split: prod.split)

lemma open_all_Nil: "open_all dec fs ch = ([], ch') \<longleftrightarrow> fs = [] \<and> ch' = ch"
  by (cases fs) (auto split: prod.split)

lemma seal_open_all:
  assumes "aead_law enc dec"
  shows "seal_all enc ms ch = (map Inr fs, ch') \<longleftrightarrow> open_all dec fs ch = (map Inr ms, ch')"
proof (induction ms arbitrary: fs ch)
  case Nil
  then show ?case by (auto simp: open_all_Nil)
next
  case (Cons m ms)
  show ?case
  proof (cases fs)
    case Nil
    then show ?thesis by (auto split: prod.split)
  next
    case (Cons f fs')
    show ?thesis
      unfolding \<open>fs = f # fs'\<close> seal_all_Cons open_all_Cons
      using Cons.IH seal_open_iff [OF assms] by auto
  qed
qed

text \<open>
  C23: A channel delivers exactly what was sealed, in order: over a cipher with AES-GCM's
  law, a sequence of frames opens to a sequence of messages if and only if sealing those
  messages from the same state gives those frames, and both sides then end in the same
  state. So a dropped, repeated or reordered frame is not accepted, and the frames a
  receiver takes are, one by one, those that sealing the messages it got from them gives
  under the same key; that nobody without the key can make such a frame is the cipher's own
  security, which is not modelled.
\<close>
theorem channel_exact:
  assumes "aead_law enc dec"
  shows "open_all dec fs ch = (map Inr ms, ch') \<longleftrightarrow> seal_all enc ms ch = (map Inr fs, ch')"
  using seal_open_all [OF assms] by blast

lemma channel_exact_witness:
  "open_all toy_dec [to_be_bytes 0 @ [7] @ toy_tag (gcm_nonce 0)] (new_channel [])
     = (map Inr [[7]], \<lparr> cipher_key = [], sequence = 1 \<rparr>)
   \<longleftrightarrow> seal_all toy_enc [[7]] (new_channel [])
     = (map Inr [to_be_bytes 0 @ [7] @ toy_tag (gcm_nonce 0)], \<lparr> cipher_key = [], sequence = 1 \<rparr>)"
  by (rule channel_exact [OF toy_law])

lemma unat_succ: "w \<noteq> - 1 \<Longrightarrow> unat (w + 1 :: 64 word) = Suc (unat w)"
proof -
  assume "w \<noteq> - 1"
  then have "unat w \<noteq> unat (- 1 :: 64 word)" by (simp only: word_unat_eq_iff simp_thms)
  moreover have "unat (- 1 :: 64 word) = 2 ^ 64 - 1"
    by (simp add: unsigned_minus_1_eq_mask mask_eq_exp_minus_1)
  moreover have "unat w < 2 ^ 64" using word64_lt [of w] by simp
  ultimately have "unat w + 1 < 2 ^ 64" by linarith
  then show ?thesis by (simp add: unat_word_ariths)
qed

lemma refused_unchanged: "open_frame dec fr ch = (Inl e, ch') \<Longrightarrow> ch' = ch"
  by (auto simp: open_frame_def Let_def split: if_split_asm option.split_asm)

lemma open_forward: "unat (sequence ch) \<le> unat (sequence (snd (open_frame dec fr ch)))"
proof (cases "open_frame dec fr ch")
  case (Pair r ch')
  have "unat (sequence ch) \<le> unat (sequence ch')"
    using Pair by (cases r) (auto simp: open_frame_Inr unat_succ dest: refused_unchanged)
  then show ?thesis using Pair by simp
qed

lemma open_all_forward: "unat (sequence ch) \<le> unat (sequence (snd (open_all dec fs ch)))"
proof (induction fs arbitrary: ch)
  case (Cons f fs)
  then show ?case
    using open_forward [of ch dec f] by (auto split: prod.split) (metis order_trans snd_conv)
qed simp

text \<open>
  C16: A frame that has been accepted is refused whenever it comes again, whatever frames
  came in between and whether they were accepted or refused; and a refused frame leaves the
  channel as it was. This needs nothing of the cipher.
\<close>
theorem replay_refused:
  assumes "open_frame dec fr ch = (Inr m, ch')" "open_all dec fs ch' = (rs, ch'')"
  shows "open_frame dec fr ch'' = (Inl ''Frame is out of sequence'', ch'')
    \<and> (\<forall>c fr2 e c2. open_frame dec fr2 c = (Inl e, c2) \<longrightarrow> c2 = c)"
proof -
  have o: "SEQ_LEN + TAG_LEN \<le> length fr" "sequence ch \<noteq> - 1"
    "from_be_bytes (take SEQ_LEN fr) = sequence ch" "ch' = ch\<lparr>sequence := sequence ch + 1\<rparr>"
    using assms(1) by (simp_all add: open_frame_Inr)
  have "unat (sequence ch) < unat (sequence ch')" using o(2,4) by (simp add: unat_succ)
  also have "\<dots> \<le> unat (sequence ch'')" using open_all_forward [of ch' dec fs] assms(2) by simp
  finally have "sequence ch \<noteq> sequence ch''" by auto
  then have "open_frame dec fr ch'' = (Inl ''Frame is out of sequence'', ch'')"
    using o by (simp add: open_frame_def)
  then show ?thesis using refused_unchanged by blast
qed

lemma replay_refused_witness:
  "open_frame toy_dec (to_be_bytes 0 @ [7] @ toy_tag (gcm_nonce 0)) \<lparr> cipher_key = [], sequence = 2 \<rparr>
     = (Inl ''Frame is out of sequence'', \<lparr> cipher_key = [], sequence = 2 \<rparr>)"
proof -
  have a: "open_frame toy_dec (to_be_bytes 0 @ [7] @ toy_tag (gcm_nonce 0)) (new_channel [])
     = (Inr [7], \<lparr> cipher_key = [], sequence = 1 \<rparr>)"
    unfolding seal_open_iff [OF toy_law, symmetric] seal_Inr
    by (simp add: toy_enc_def new_channel_def)
  have b: "open_frame toy_dec (to_be_bytes 1 @ [8] @ toy_tag (gcm_nonce 1)) \<lparr> cipher_key = [], sequence = 1 \<rparr>
     = (Inr [8], \<lparr> cipher_key = [], sequence = 2 \<rparr>)"
    unfolding seal_open_iff [OF toy_law, symmetric] seal_Inr
    by (simp add: toy_enc_def)
  have "open_all toy_dec [to_be_bytes 1 @ [8] @ toy_tag (gcm_nonce 1)] \<lparr> cipher_key = [], sequence = 1 \<rparr>
     = ([Inr [8]], \<lparr> cipher_key = [], sequence = 2 \<rparr>)"
    by (simp only: open_all.simps b split_conv Let_def)
  from replay_refused [OF a this] show ?thesis by blast
qed

section \<open>Nonces and proofs\<close>

text \<open>The cipher calls that are made while a channel seals messages one after the other.\<close>

fun calls_made :: "aead \<Rightarrow> bytes list \<Rightarrow> channel \<Rightarrow> cipher_call list" where
  "calls_made enc [] ch = []"
| "calls_made enc (m # ms) ch =
     (let (r, ch', calls) = seal_calls enc m ch in calls @ calls_made enc ms ch')"

lemma gcm_nonce_inj: "gcm_nonce v = gcm_nonce w \<longleftrightarrow> v = w"
  by (simp add: gcm_nonce_def to_be_bytes_inj)

lemma calls_made_Cons:
  "calls_made enc (m # ms) ch =
     (if sequence ch = - 1 then calls_made enc ms ch
      else (cipher_key ch, gcm_nonce (sequence ch), to_be_bytes (sequence ch), m)
        # calls_made enc ms (ch\<lparr>sequence := sequence ch + 1\<rparr>))"
  by (simp add: seal_calls_def encrypt_def checked_succ_def Let_def split: option.split)

declare calls_made.simps(2) [simp del]
declare calls_made_Cons [simp]

lemma calls_from:
  "(k, n, a, m) \<in> set (calls_made enc ms ch) \<Longrightarrow>
     k = cipher_key ch \<and> (\<exists>w. n = gcm_nonce w \<and> unat (sequence ch) \<le> unat w)"
proof (induction ms arbitrary: ch)
  case (Cons m' ms)
  show ?case
  proof (cases "sequence ch = - 1")
    case False
    then show ?thesis
      using Cons.prems Cons.IH [of "ch\<lparr>sequence := sequence ch + 1\<rparr>"]
      by (fastforce simp: unat_succ)
  qed (use Cons.prems Cons.IH [of ch] in auto)
qed simp

lemma calls_distinct: "distinct (map (\<lambda>(k, n, a, m). n) (calls_made enc ms ch))"
proof (induction ms arbitrary: ch)
  case (Cons m ms)
  have "(k, gcm_nonce (sequence ch), a, m') \<notin> set (calls_made enc ms (ch\<lparr>sequence := sequence ch + 1\<rparr>))"
    if "sequence ch \<noteq> - 1" for k a m'
    using calls_from [of k "gcm_nonce (sequence ch)" a m' enc ms] that
    by (force simp: gcm_nonce_inj unat_succ)
  then show ?case using Cons by auto
qed simp

lemma unat_max: "unat (- 1 :: 64 word) = 2 ^ 64 - 1"
  by (simp add: unsigned_minus_1_eq_mask mask_eq_exp_minus_1)

lemma calls_number:
  "length (calls_made enc ms ch) = min (length ms) (2 ^ 64 - 1 - unat (sequence ch))"
proof (induction ms arbitrary: ch)
  case (Cons m ms)
  show ?case
  proof (cases "sequence ch = - 1")
    case True
    then show ?thesis using Cons [of ch] by (simp add: unat_max)
  next
    case False
    have "unat (sequence ch + 1) \<le> 2 ^ 64 - 1" using word64_lt [of "sequence ch + 1"] by simp
    then have "2 ^ 64 - 1 - unat (sequence ch) = Suc (2 ^ 64 - 1 - unat (sequence ch + 1))"
      using unat_succ [OF False] by simp
    then show ?thesis using False Cons by simp
  qed
qed simp

text \<open>
  C31: Whatever messages a channel seals, and whether or not an encryption fails, no two of
  the cipher calls it makes get the same nonce: every call is made under the channel's key,
  there is one for each message until the sequence numbers are used up, and none after that,
  so the counter never wraps.
\<close>
theorem nonces_never_repeat:
  "distinct (map (\<lambda>(k, n, a, m). n) (calls_made enc ms (new_channel key)))
   \<and> (\<lambda>(k, n, a, m). k) ` set (calls_made enc ms (new_channel key)) \<subseteq> {key}
   \<and> length (calls_made enc ms (new_channel key)) = min (length ms) (2 ^ 64 - 1)"
  using calls_distinct [of enc ms "new_channel key"] calls_from [of _ _ _ _ enc ms "new_channel key"]
    calls_number [of enc ms "new_channel key"]
  by (auto simp: new_channel_def)

lemma proof_labels: "length PHONE_PROOF \<ge> 22 \<and> length GATEWAY_PROOF \<ge> 22
  \<and> PHONE_PROOF ! 21 \<noteq> GATEWAY_PROOF ! 21"
  by (simp add: PHONE_PROOF_def GATEWAY_PROOF_def utf8_def)

lemma utf8_inj: "utf8 s = utf8 t \<longleftrightarrow> s = t"
proof -
  have "inj (\<lambda>c :: char. (of_nat (of_char c) :: 8 word))"
  proof (rule injI)
    fix c d :: char
    assume "(of_nat (of_char c) :: 8 word) = of_nat (of_char d)"
    then have "unat (of_nat (of_char c) :: 8 word) = unat (of_nat (of_char d) :: 8 word)"
      by (simp only:)
    then have "(of_char c :: nat) mod 256 = of_char d mod 256"
      by (simp add: unat_of_nat del: of_char_mod_256)
    then show "c = d" by simp
  qed
  then show ?thesis unfolding utf8_def by (simp add: inj_map_eq_map)
qed

theorem proofs_bind_roles:
  assumes "length g = 32" "length g' = 32" "length p = 32" "length p' = 32"
  shows "proof_message PHONE_PROOF g p i \<noteq> proof_message GATEWAY_PROOF g' p' i'
    \<and> (proof_message label g p i = proof_message label g' p' i' \<longleftrightarrow> g = g' \<and> p = p' \<and> i = i')"
proof
  show "proof_message PHONE_PROOF g p i \<noteq> proof_message GATEWAY_PROOF g' p' i'"
  proof
    assume "proof_message PHONE_PROOF g p i = proof_message GATEWAY_PROOF g' p' i'"
    then have "proof_message PHONE_PROOF g p i ! 21 = proof_message GATEWAY_PROOF g' p' i' ! 21"
      by simp
    then show False
      using proof_labels by (simp add: proof_message_def nth_append)
  qed
  show "proof_message label g p i = proof_message label g' p' i' \<longleftrightarrow> g = g' \<and> p = p' \<and> i = i'"
    using assms by (auto simp: proof_message_def utf8_inj)
qed

lemma proofs_bind_roles_witness:
  "proof_message PHONE_PROOF (replicate 32 1) (replicate 32 2) ''d1''
     \<noteq> proof_message GATEWAY_PROOF (replicate 32 1) (replicate 32 2) ''d1''"
  using proofs_bind_roles [of "replicate 32 1" "replicate 32 1" "replicate 32 2" "replicate 32 2"]
  by simp

end
