(* ===== verification/Relay.thy ===== *)
theory Relay
  imports Json
begin

text \<open>
  The relay between the daemons' CDP clients and the browser extension,
  \<open>cli/src/native/relay.rs\<close>: its state and what it does with a client's command. The
  code's hash maps are association lists with one entry per key and its hash sets are sets;
  the order of an association list stands for the map's iteration order.
\<close>


section \<open>State\<close>

record target_entry =
  e_session :: string
  e_info :: json
  e_parent :: "string option"

type_synonym client_id = nat

record relay =
  extension_capabilities :: "string set"
  targets :: "(string \<times> target_entry) list"
  pending :: "(int \<times> (client_id \<times> json)) list"
  next_global_id :: int
  client_groups :: "(client_id \<times> string) list"
  client_sessions :: "(client_id \<times> string) list"
  target_group :: "(string \<times> string) list"
  pending_target_group :: "(int \<times> string) list"
  oopif_sessions :: "string set"
  oopif_parents :: "(string \<times> string) list"

definition new_relay :: relay where
  "new_relay = \<lparr> extension_capabilities = {}, targets = [], pending = [], next_global_id = 0,
     client_groups = [], client_sessions = [], target_group = [], pending_target_group = [],
     oopif_sessions = {}, oopif_parents = [] \<rparr>"

datatype client_route = Local json | Forward json

datatype relay_out = ToClient "client_id option" json | GroupEvent string json | ToExt json

text \<open>Removing several keys.\<close>

definition delete_all :: "'k list \<Rightarrow> ('k \<times> 'v) list \<Rightarrow> ('k \<times> 'v) list" where
  "delete_all ks m = fold AList.delete ks m"

lemma delete_all_filter: "delete_all ks m = filter (\<lambda>(k, v). k \<notin> set ks) m"
proof (induction ks arbitrary: m)
  case Nil
  then show ?case by (simp add: delete_all_def)
next
  case (Cons k ks)
  have "delete_all (k # ks) m = delete_all ks (AList.delete k m)"
    by (simp add: delete_all_def)
  also have "\<dots> = filter (\<lambda>(k, v). k \<notin> set ks) (AList.delete k m)"
    by (rule Cons.IH)
  also have "\<dots> = filter (\<lambda>(k', v). k' \<notin> set (k # ks)) m"
    by (auto simp: AList.delete_eq intro!: filter_cong)
  finally show ?case .
qed

lemma map_of_delete_all: "map_of (delete_all ks m) k = (if k \<in> set ks then None else map_of m k)"
  unfolding delete_all_def by (rule al.del_all)

lemma set_delete_all: "set (delete_all ks m) = {(k, v) \<in> set m. k \<notin> set ks}"
  by (auto simp: delete_all_filter)

lemma distinct_delete_all: "distinct (map fst m) \<Longrightarrow> distinct (map fst (delete_all ks m))"
  unfolding delete_all_filter by (rule distinct_map_filter)

section \<open>Sessions and groups\<close>

definition excluded_clients_for_group :: "string \<Rightarrow> relay \<Rightarrow> client_id set" where
  "excluded_clients_for_group g s = fst ` set (filter (\<lambda>(c, g'). g' \<noteq> g) (client_groups s))"

text \<open>The walk from a session to its parents, stopping at one that was seen before.\<close>

definition session_target :: "relay \<Rightarrow> string \<Rightarrow> (string \<times> target_entry) option" where
  "session_target s session = find (\<lambda>(t, e). e_session e = session) (targets s)"

definition known_sessions :: "relay \<Rightarrow> string set" where
  "known_sessions s = (e_session \<circ> snd) ` set (targets s) \<union> fst ` set (oopif_parents s)"

lemma session_target_known: "session_target s c = Some te \<Longrightarrow> c \<in> known_sessions s"
  unfolding session_target_def by (drule find_SomeD) (force simp: known_sessions_def)

lemma oopif_parent_known: "map_of (oopif_parents s) c = Some p \<Longrightarrow> c \<in> known_sessions s"
  by (drule map_of_SomeD) (force simp: known_sessions_def)

lemma finite_known [simp]: "finite (known_sessions s)"
  by (simp add: known_sessions_def)

lemma walk_less: "c \<in> known_sessions s \<Longrightarrow> c \<notin> set seen \<Longrightarrow>
    card (known_sessions s - insert c (set seen)) < card (known_sessions s - set seen)"
  by (intro psubset_card_mono) auto

function group_walk :: "relay \<Rightarrow> string list \<Rightarrow> string \<Rightarrow> string option" where
  "group_walk s seen current =
     (if current \<in> set seen then None
      else (case session_target s current of
              Some (t, e) \<Rightarrow>
                (case map_of (target_group s) t of
                   Some g \<Rightarrow> Some g
                 | None \<Rightarrow>
                     (case e_parent e of
                        None \<Rightarrow> None
                      | Some p \<Rightarrow> group_walk s (current # seen) p))
            | None \<Rightarrow>
                (case map_of (oopif_parents s) current of
                   None \<Rightarrow> None
                 | Some p \<Rightarrow> group_walk s (current # seen) p)))"
  by pat_completeness auto
termination
  by (relation "measure (\<lambda>(s, seen, c). card (known_sessions s - set seen))")
    (auto intro: walk_less session_target_known oopif_parent_known)

declare group_walk.simps [simp del]

definition group_for_session :: "relay \<Rightarrow> string option \<Rightarrow> string option" where
  "group_for_session s session =
     (case session of None \<Rightarrow> None | Some c \<Rightarrow> group_walk s [] c)"

text \<open>Forgetting the iframes below a session, level by level; \<open>gone\<close> are the sessions
  that have gone so far.\<close>

definition children_of :: "string list \<Rightarrow> (string \<times> string) list \<Rightarrow> string list" where
  "children_of gone parents = map fst (filter (\<lambda>(i, p). p \<in> set gone) parents)"

lemma delete_children_less:
  "children_of gone parents \<noteq> [] \<Longrightarrow>
     length (delete_all (children_of gone parents) parents) < length parents"
proof -
  assume "children_of gone parents \<noteq> []"
  then obtain i p where ip: "(i, p) \<in> set parents" "p \<in> set gone"
    by (auto simp: children_of_def filter_empty_conv)
  then have "i \<in> set (children_of gone parents)" by (force simp: children_of_def)
  with ip(1) show ?thesis
    unfolding delete_all_filter by (intro length_filter_less [of "(i, p)"]) auto
qed

function forget_loop ::
  "string list \<Rightarrow> (string \<times> string) list \<Rightarrow> string set \<Rightarrow> (string \<times> string) list \<times> string set" where
  "forget_loop gone parents sessions =
     (let children = children_of gone parents
      in if children = [] then (parents, sessions)
         else forget_loop (children @ gone) (delete_all children parents) (sessions - set children))"
  by pat_completeness auto
termination
  by (relation "measure (\<lambda>(gone, parents, sessions). length parents)")
    (auto simp: delete_children_less)

declare forget_loop.simps [simp del]

definition forget_iframe_children :: "string \<Rightarrow> relay \<Rightarrow> relay" where
  "forget_iframe_children session s =
     (let (parents, sessions) = forget_loop [session] (oopif_parents s) (oopif_sessions s)
      in s\<lparr>oopif_parents := parents, oopif_sessions := sessions\<rparr>)"

definition page_event :: "relay \<Rightarrow> string option \<Rightarrow> json \<Rightarrow> relay_out" where
  "page_event s session msg =
     (case group_for_session s session of
        Some g \<Rightarrow> GroupEvent g msg
      | None \<Rightarrow> ToClient None msg)"

definition set_extension_capabilities :: "string list \<Rightarrow> relay \<Rightarrow> relay" where
  "set_extension_capabilities capabilities s = s\<lparr>extension_capabilities := set capabilities\<rparr>"

definition connect_challenge :: "string \<Rightarrow> json" where
  "connect_challenge nonce =
     jobj [(''type'', JStr ''event''), (''event'', JStr ''connect.challenge''),
           (''payload'', jobj [(''nonce'', JStr nonce)])]"

definition relay_ping :: json where
  "relay_ping = jobj [(''method'', JStr ''ping'')]"

definition drop_client :: "client_id \<Rightarrow> relay \<Rightarrow> relay" where
  "drop_client client s =
     (let dropped = map fst (filter (\<lambda>(gid, (c, v)). c = client) (pending s))
      in s\<lparr>pending_target_group := delete_all dropped (pending_target_group s),
           pending := filter (\<lambda>(gid, (c, v)). c \<noteq> client) (pending s),
           client_groups := AList.delete client (client_groups s),
           client_sessions := AList.delete client (client_sessions s)\<rparr>)"

section \<open>Client commands\<close>

definition local_result :: "json \<Rightarrow> json \<Rightarrow> client_route" where
  "local_result i r = Local (jobj [(''id'', i), (''result'', r)])"

definition jint :: "int \<Rightarrow> json" where
  "jint i = JNum (JInt i)"

definition route_version :: "json \<Rightarrow> client_route" where
  "route_version i = local_result i (jobj
     [(''protocolVersion'', JStr ''1.3''), (''product'', JStr ''Chrome/ab-connect-relay''),
      (''revision'', JStr []), (''userAgent'', JStr []), (''jsVersion'', JStr [])])"

definition non_empty :: "string option \<Rightarrow> string option" where
  "non_empty x = filter_opt (\<lambda>s. s \<noteq> []) x"

definition route_set_group :: "client_id \<Rightarrow> json \<Rightarrow> json \<Rightarrow> relay \<Rightarrow> client_route \<times> relay" where
  "route_set_group client i params s =
     (let s1 = (case non_empty (get_str params ''group'') of
                  Some g \<Rightarrow> s\<lparr>client_groups := AList.update client g (client_groups s)\<rparr>
                | None \<Rightarrow> s);
          s2 = (case non_empty (get_str params ''session'') of
                  Some n \<Rightarrow> s1\<lparr>client_sessions := AList.update client n (client_sessions s1)\<rparr>
                | None \<Rightarrow> s1)
      in (local_result i (jobj []), s2))"

definition route_capabilities :: "json \<Rightarrow> relay \<Rightarrow> client_route" where
  "route_capabilities i s = local_result i (jobj
     [(''capabilities'', JArr (map JStr (sorted_list_of_set (extension_capabilities s))))])"

definition route_all_targets :: "json \<Rightarrow> relay \<Rightarrow> client_route" where
  "route_all_targets i s =
     local_result i (jobj [(''targetInfos'', JArr (map (\<lambda>(t, e). e_info e) (targets s)))])"

definition in_scope :: "string option \<Rightarrow> relay \<Rightarrow> string \<Rightarrow> bool" where
  "in_scope scoped s t \<longleftrightarrow>
     (case scoped of Some g \<Rightarrow> map_of (target_group s) t = Some g | None \<Rightarrow> True)"

definition route_get_targets :: "client_id \<Rightarrow> json \<Rightarrow> relay \<Rightarrow> client_route" where
  "route_get_targets client i s =
     (let scoped = map_of (client_groups s) client
      in local_result i (jobj [(''targetInfos'',
           JArr (map (\<lambda>(t, e). e_info e) (filter (\<lambda>(t, e). in_scope scoped s t) (targets s))))]))"

definition route_attach :: "client_id \<Rightarrow> json \<Rightarrow> json \<Rightarrow> relay \<Rightarrow> client_route \<times> relay" where
  "route_attach client i params s =
     (let t = unwrap_or [] (get_str params ''targetId'')
      in case map_of (targets s) t of
           Some e \<Rightarrow>
             (local_result i (jobj [(''sessionId'', JStr (e_session e))]),
              case map_of (client_groups s) client of
                Some g \<Rightarrow> s\<lparr>target_group := AList.update t g (target_group s)\<rparr>
              | None \<Rightarrow> s)
         | None \<Rightarrow>
             (Local (jobj [(''id'', i), (''error'', jobj [(''code'', jint (-32602)),
                (''message'', JStr (''No such target '' @ t))])]), s))"

text \<open>The next relay-global id, a wrapping \<open>i64\<close> counter.\<close>

definition next_gid :: "int \<Rightarrow> int" where
  "next_gid g = (if g = 2 ^ 63 - 1 then - (2 ^ 63) else g + 1)"

definition route_forward ::
  "client_id \<Rightarrow> json \<Rightarrow> string \<Rightarrow> json \<Rightarrow> string option \<Rightarrow> relay \<Rightarrow> client_route \<times> relay" where
  "route_forward client i method params session s =
     (let gid = next_gid (next_global_id s);
          s1 = s\<lparr>next_global_id := gid, pending := AList.update gid (client, i) (pending s)\<rparr>;
          s2 = (if method = ''Target.createTarget'' \<or> method = ''ABExt.duplicateTab'' then
                  (case non_empty (get_str params ''agentGroup'') of
                     Some g \<Rightarrow>
                       s1\<lparr>pending_target_group := AList.update gid g (pending_target_group s1),
                          client_groups := (if map_of (client_groups s1) client = None
                            then AList.update client g (client_groups s1)
                            else client_groups s1)\<rparr>
                   | None \<Rightarrow> s1)
                else s1);
          inner = jobj [(''method'', JStr method), (''params'', params), (''sessionId'', jstr_opt session)];
          inner = (case map_of (client_sessions s2) client of
                     Some n \<Rightarrow> jset ''agentSession'' (JStr n) inner
                   | None \<Rightarrow> inner)
      in (Forward (jobj [(''id'', jint gid), (''method'', JStr ''forwardCDPCommand''),
            (''params'', inner)]), s2))"

definition raw_id :: "json \<Rightarrow> json" where
  "raw_id raw = unwrap_or JNull (jget raw ''id'')"

definition route_client_command :: "client_id \<Rightarrow> json \<Rightarrow> relay \<Rightarrow> client_route \<times> relay" where
  "route_client_command client raw s =
     (let i = raw_id raw;
          method = unwrap_or [] (get_str raw ''method'');
          params = unwrap_or (jobj []) (jget raw ''params'');
          session = get_str raw ''sessionId''
      in if method = ''Browser.getVersion'' then (route_version i, s)
         else if method = ''ABRelay.setGroup'' then route_set_group client i params s
         else if method = ''ABRelay.getCapabilities'' then (route_capabilities i s, s)
         else if method \<in> {''Target.setDiscoverTargets'', ''Target.setAutoAttach''}
           then (local_result i (jobj []), s)
         else if method = ''ABRelay.getAllTargets'' then (route_all_targets i s, s)
         else if method = ''Target.getTargets'' then (route_get_targets client i s, s)
         else if method = ''Target.attachToTarget'' then route_attach client i params s
         else route_forward client i method params session s)"

end
