(* ===== verification/RelayExt.thy ===== *)
theory RelayExt
  imports Relay
begin

text \<open>
  What the relay does with a message from the extension, \<open>handle_ext_message\<close> of
  \<open>cli/src/native/relay.rs\<close>: the handshake, the list of held tabs, replies to forwarded
  commands and the events of the tabs.
\<close>


section \<open>Handshake and held tabs\<close>

definition ext_connect :: "json \<Rightarrow> string \<Rightarrow> relay_out" where
  "ext_connect msg expected_token =
     (let i = unwrap_or JNull (jget msg ''id'');
          token = unwrap_or [] (Option.bind (Option.bind (Option.bind (jget msg ''params'')
                    (\<lambda>p. jget p ''auth'')) (\<lambda>a. jget a ''token'')) as_str);
          good = (expected_token \<noteq> [] \<and> token = expected_token);
          res = jobj [(''type'', JStr ''res''), (''id'', i), (''ok'', JBool good)]
      in ToExt (if good then res
                else jset ''error'' (jobj [(''message'', JStr ''invalid relay token'')]) res))"

definition held_pairs :: "json list \<Rightarrow> (string \<times> string) list" where
  "held_pairs ts = List.map_filter (\<lambda>t. case (get_str t ''targetId'', get_str t ''sessionId'') of
     (Some i, Some c) \<Rightarrow> Some (i, c) | _ \<Rightarrow> None) ts"

definition is_held :: "(string \<times> string) list \<Rightarrow> string \<Rightarrow> target_entry \<Rightarrow> bool" where
  "is_held held t e \<longleftrightarrow>
     (case e_parent e of
        None \<Rightarrow> (t, e_session e) \<in> set held
      | Some p \<Rightarrow> p \<in> snd ` set held)"

text \<open>Dropping one tab record, with the iframes below it and its group tag.\<close>

definition drop_target :: "string \<Rightarrow> relay \<Rightarrow> relay" where
  "drop_target t s =
     (let s1 = (case map_of (targets s) t of
                  Some e \<Rightarrow> forget_iframe_children (e_session e)
                              (s\<lparr>targets := AList.delete t (targets s)\<rparr>)
                | None \<Rightarrow> s)
      in s1\<lparr>target_group := AList.delete t (target_group s1)\<rparr>)"

definition retain_held_targets :: "(string \<times> string) list \<Rightarrow> relay \<Rightarrow> relay" where
  "retain_held_targets held s =
     fold drop_target (map fst (filter (\<lambda>(t, e). \<not> is_held held t e) (targets s))) s"

section \<open>Replies\<close>

definition ext_reply :: "json \<Rightarrow> relay \<Rightarrow> relay_out list \<times> relay" where
  "ext_reply msg s =
     (let gid = Option.bind (jget msg ''id'') as_i64;
          s1 = (case Option.bind gid (map_of (pending_target_group s)) of
                  None \<Rightarrow> s
                | Some g \<Rightarrow>
                    (let s0 = s\<lparr>pending_target_group :=
                           AList.delete (the gid) (pending_target_group s)\<rparr>
                     in case Option.bind (Option.bind (jget msg ''result'')
                               (\<lambda>r. jget r ''targetId'')) as_str of
                          Some t \<Rightarrow> s0\<lparr>target_group := AList.update t g (target_group s0)\<rparr>
                        | None \<Rightarrow> s0));
          (dest, orig, s2) =
            (case Option.bind gid (map_of (pending s1)) of
               Some (client, orig) \<Rightarrow>
                 (Some client, orig, s1\<lparr>pending := AList.delete (the gid) (pending s1)\<rparr>)
             | None \<Rightarrow> (None, unwrap_or JNull (jget msg ''id''), s1));
          out = jobj [(''id'', orig)];
          out = (case jget msg ''result'' of Some r \<Rightarrow> jset ''result'' r out | None \<Rightarrow> out);
          out = (case jget msg ''error'' of
                   Some (JStr e) \<Rightarrow>
                     jset ''error'' (jobj [(''code'', jint (-32000)), (''message'', JStr e)]) out
                 | Some e \<Rightarrow> jset ''error'' e out
                 | None \<Rightarrow> out)
      in ([ToClient dest out], s2))"

section \<open>Events\<close>

definition event_json :: "string \<Rightarrow> json \<Rightarrow> string option \<Rightarrow> json" where
  "event_json method params session =
     (let ev = jobj [(''method'', JStr method), (''params'', params)]
      in case session of Some c \<Rightarrow> jset ''sessionId'' (JStr c) ev | None \<Rightarrow> ev)"

definition oopif_attached ::
  "string \<Rightarrow> json \<Rightarrow> string option \<Rightarrow> relay \<Rightarrow> relay_out list \<times> relay" where
  "oopif_attached method params session s =
     (let s1 = (case get_str params ''sessionId'' of
                  Some c \<Rightarrow>
                    s\<lparr>oopif_sessions := insert c (oopif_sessions s),
                      oopif_parents := (case session of
                         Some p \<Rightarrow> AList.update c p (oopif_parents s)
                       | None \<Rightarrow> oopif_parents s)\<rparr>
                | None \<Rightarrow> s)
      in ([page_event s1 session (event_json method params session)], s1))"

text \<open>The group of a new tab: already known, announced, or its opener's.\<close>

definition tag_attached :: "string \<Rightarrow> json \<Rightarrow> relay \<Rightarrow> relay" where
  "tag_attached t info s =
     (if map_of (target_group s) t \<noteq> None then s
      else case non_empty (get_str info ''abGroup'') of
             Some g \<Rightarrow> s\<lparr>target_group := AList.update t g (target_group s)\<rparr>
           | None \<Rightarrow>
               (case Option.bind (non_empty (get_str info ''openerTargetId''))
                       (map_of (target_group s)) of
                  Some g \<Rightarrow> s\<lparr>target_group := AList.update t g (target_group s)\<rparr>
                | None \<Rightarrow> s))"

definition stale_records :: "string \<Rightarrow> string \<Rightarrow> relay \<Rightarrow> string list" where
  "stale_records t c s =
     map fst (filter (\<lambda>(other, e). other \<noteq> t \<and> e_parent e = None \<and> e_session e = c) (targets s))"

definition drop_stale :: "string \<Rightarrow> string \<Rightarrow> string option \<Rightarrow> relay \<Rightarrow> relay" where
  "drop_stale t c parent s =
     (if parent = None \<and> c \<noteq> [] then
        s\<lparr>targets := delete_all (stale_records t c s) (targets s),
          target_group := delete_all (stale_records t c s) (target_group s)\<rparr>
      else s)"

definition tab_attached :: "json \<Rightarrow> string option \<Rightarrow> relay \<Rightarrow> relay" where
  "tab_attached params session s =
     (case jget params ''targetInfo'' of
        None \<Rightarrow> s
      | Some info \<Rightarrow>
          (case get_str info ''targetId'' of
             None \<Rightarrow> s
           | Some t \<Rightarrow>
               (let c = unwrap_or [] (get_str params ''sessionId'');
                    s1 = tag_attached t info s;
                    parent = filter_opt (\<lambda>p. p \<noteq> [] \<and> p \<noteq> c) session;
                    s2 = drop_stale t c parent s1
                in s2\<lparr>targets := AList.update t
                      \<lparr> e_session = c, e_info = info, e_parent = parent \<rparr> (targets s2)\<rparr>)))"

definition gone_targets :: "string \<Rightarrow> relay \<Rightarrow> string list" where
  "gone_targets c s =
     map fst (filter (\<lambda>(t, e). e_session e = c \<or> e_parent e = Some c) (targets s))"

definition detached ::
  "string \<Rightarrow> json \<Rightarrow> string option \<Rightarrow> relay \<Rightarrow> relay_out list \<times> relay" where
  "detached method params session s =
     (case get_str params ''sessionId'' of
        None \<Rightarrow> ([], s)
      | Some c \<Rightarrow>
          if c \<in> oopif_sessions s then
            (let s1 = s\<lparr>oopif_sessions := oopif_sessions s - {c}\<rparr>;
                 routed = page_event s1 (or_else session (Some c)) (event_json method params session)
             in ([routed], forget_iframe_children c
                   (s1\<lparr>oopif_parents := AList.delete c (oopif_parents s1)\<rparr>)))
          else
            (let s1 = forget_iframe_children c s; ts = gone_targets c s1
             in ([], s1\<lparr>target_group := delete_all ts (target_group s1),
                        targets := delete_all ts (targets s1)\<rparr>)))"

definition set_info :: "string \<Rightarrow> json \<Rightarrow> target_entry \<Rightarrow> target_entry" where
  "set_info k v e = e\<lparr>e_info := jset k v (e_info e)\<rparr>"

definition frame_navigated :: "json \<Rightarrow> string option \<Rightarrow> relay \<Rightarrow> relay" where
  "frame_navigated params session s =
     (let fr = jget params ''frame'';
          top_level = (case fr of
             Some f \<Rightarrow> (case jget f ''parentId'' of None \<Rightarrow> True | Some v \<Rightarrow> is_null v)
           | None \<Rightarrow> False)
      in case (session, Option.bind (Option.bind fr (\<lambda>f. jget f ''url'')) as_str) of
           (Some c, Some url) \<Rightarrow>
             if top_level then
               s\<lparr>targets := map (\<lambda>(t, e). (t, if e_session e = c then set_info ''url'' (JStr url) e
                                               else e)) (targets s)\<rparr>
             else s
         | _ \<Rightarrow> s)"

definition copy_string :: "json \<Rightarrow> string \<Rightarrow> target_entry \<Rightarrow> target_entry" where
  "copy_string info k e =
     (case filter_opt is_string (jget info k) of Some v \<Rightarrow> set_info k v e | None \<Rightarrow> e)"

definition target_info_changed :: "json \<Rightarrow> relay \<Rightarrow> relay" where
  "target_info_changed params s =
     (case jget params ''targetInfo'' of
        None \<Rightarrow> s
      | Some info \<Rightarrow>
          (case get_str info ''targetId'' of
             None \<Rightarrow> s
           | Some t \<Rightarrow>
               (case map_of (targets s) t of
                  None \<Rightarrow> s
                | Some e \<Rightarrow> s\<lparr>targets := AList.update t
                     (copy_string info ''title'' (copy_string info ''url'' e)) (targets s)\<rparr>)))"

definition ext_event :: "json \<Rightarrow> relay \<Rightarrow> relay_out list \<times> relay" where
  "ext_event msg s =
     (let p = unwrap_or (jobj []) (jget msg ''params'');
          method = unwrap_or [] (get_str p ''method'');
          params = unwrap_or (jobj []) (jget p ''params'');
          session = get_str p ''sessionId''
      in if method = ''Target.attachedToTarget'' then
           (if Option.bind (jget params ''targetInfo'') (\<lambda>i. get_str i ''type'') = Some ''iframe''
            then oopif_attached method params session s
            else ([], tab_attached params session s))
         else if method = ''Target.detachedFromTarget'' then detached method params session s
         else let s1 = (if method = ''Page.frameNavigated'' then frame_navigated params session s
                        else if method = ''Target.targetInfoChanged'' then target_info_changed params s
                        else s)
              in ([page_event s1 session (event_json method params session)], s1))"

section \<open>Every message\<close>

definition is_reply :: "json \<Rightarrow> bool" where
  "is_reply msg \<longleftrightarrow> jget msg ''id'' \<noteq> None
     \<and> (jget msg ''result'' \<noteq> None \<or> jget msg ''error'' \<noteq> None) \<and> jget msg ''method'' = None"

definition handle_ext_message :: "json \<Rightarrow> string \<Rightarrow> relay \<Rightarrow> relay_out list \<times> relay" where
  "handle_ext_message msg expected_token s =
     (let method = get_str msg ''method''
      in if get_str msg ''type'' = Some ''req'' \<and> method = Some ''connect''
         then ([ext_connect msg expected_token], s)
         else if method = Some ''ping'' then ([ToExt (jobj [(''method'', JStr ''pong'')])], s)
         else if method = Some ''pong'' then ([], s)
         else if method = Some ''relayTargets'' then
           ([], case Option.bind (jget msg ''targets'') as_array of
                  Some ts \<Rightarrow> retain_held_targets (held_pairs ts) s
                | None \<Rightarrow> s)
         else if is_reply msg then ext_reply msg s
         else if method = Some ''forwardCDPEvent'' then ext_event msg s
         else ([], s))"

section \<open>What each operation leaves alone\<close>

lemma forget_iframe_fields [simp]:
  "targets (forget_iframe_children c s) = targets s"
  "pending (forget_iframe_children c s) = pending s"
  "next_global_id (forget_iframe_children c s) = next_global_id s"
  "client_groups (forget_iframe_children c s) = client_groups s"
  "client_sessions (forget_iframe_children c s) = client_sessions s"
  "target_group (forget_iframe_children c s) = target_group s"
  "pending_target_group (forget_iframe_children c s) = pending_target_group s"
  by (simp_all add: forget_iframe_children_def split: prod.split)

lemma drop_target_fields [simp]:
  "targets (drop_target t s) = AList.delete t (targets s)"
  "pending (drop_target t s) = pending s"
  "next_global_id (drop_target t s) = next_global_id s"
  "client_groups (drop_target t s) = client_groups s"
  "client_sessions (drop_target t s) = client_sessions s"
  "target_group (drop_target t s) = AList.delete t (target_group s)"
  "pending_target_group (drop_target t s) = pending_target_group s"
  by (simp_all add: drop_target_def Let_def delete_notin_dom map_of_eq_None_iff split: option.split)

lemma fold_drop_fields [simp]:
  "targets (fold drop_target ts s) = delete_all ts (targets s)"
  "pending (fold drop_target ts s) = pending s"
  "next_global_id (fold drop_target ts s) = next_global_id s"
  "client_groups (fold drop_target ts s) = client_groups s"
  "client_sessions (fold drop_target ts s) = client_sessions s"
  "target_group (fold drop_target ts s) = delete_all ts (target_group s)"
  "pending_target_group (fold drop_target ts s) = pending_target_group s"
  by (induction ts arbitrary: s) (simp_all add: delete_all_def)

lemma retain_fields [simp]:
  "pending (retain_held_targets held s) = pending s"
  "next_global_id (retain_held_targets held s) = next_global_id s"
  "client_groups (retain_held_targets held s) = client_groups s"
  "client_sessions (retain_held_targets held s) = client_sessions s"
  "pending_target_group (retain_held_targets held s) = pending_target_group s"
  by (simp_all add: retain_held_targets_def)

lemma oopif_attached_fields [simp]:
  "pending (snd (oopif_attached m ps ses s)) = pending s"
  "next_global_id (snd (oopif_attached m ps ses s)) = next_global_id s"
  "client_groups (snd (oopif_attached m ps ses s)) = client_groups s"
  "client_sessions (snd (oopif_attached m ps ses s)) = client_sessions s"
  "pending_target_group (snd (oopif_attached m ps ses s)) = pending_target_group s"
  by (simp_all add: oopif_attached_def Let_def split: option.split)

lemma tag_attached_fields [simp]:
  "pending (tag_attached t info s) = pending s"
  "next_global_id (tag_attached t info s) = next_global_id s"
  "client_groups (tag_attached t info s) = client_groups s"
  "client_sessions (tag_attached t info s) = client_sessions s"
  "pending_target_group (tag_attached t info s) = pending_target_group s"
  by (simp_all add: tag_attached_def Let_def split: option.split)

lemma drop_stale_fields [simp]:
  "pending (drop_stale t c parent s) = pending s"
  "next_global_id (drop_stale t c parent s) = next_global_id s"
  "client_groups (drop_stale t c parent s) = client_groups s"
  "client_sessions (drop_stale t c parent s) = client_sessions s"
  "pending_target_group (drop_stale t c parent s) = pending_target_group s"
  by (simp_all add: drop_stale_def Let_def)

lemma tab_attached_fields [simp]:
  "pending (tab_attached ps ses s) = pending s"
  "next_global_id (tab_attached ps ses s) = next_global_id s"
  "client_groups (tab_attached ps ses s) = client_groups s"
  "client_sessions (tab_attached ps ses s) = client_sessions s"
  "pending_target_group (tab_attached ps ses s) = pending_target_group s"
  by (simp_all add: tab_attached_def Let_def split: option.split)

lemma detached_fields [simp]:
  "pending (snd (detached m ps ses s)) = pending s"
  "next_global_id (snd (detached m ps ses s)) = next_global_id s"
  "client_groups (snd (detached m ps ses s)) = client_groups s"
  "client_sessions (snd (detached m ps ses s)) = client_sessions s"
  "pending_target_group (snd (detached m ps ses s)) = pending_target_group s"
  by (simp_all add: detached_def Let_def split: option.split)

lemma frame_navigated_fields [simp]:
  "pending (frame_navigated ps ses s) = pending s"
  "next_global_id (frame_navigated ps ses s) = next_global_id s"
  "client_groups (frame_navigated ps ses s) = client_groups s"
  "client_sessions (frame_navigated ps ses s) = client_sessions s"
  "pending_target_group (frame_navigated ps ses s) = pending_target_group s"
  by (simp_all add: frame_navigated_def Let_def split: option.split)

lemma target_info_changed_fields [simp]:
  "pending (target_info_changed ps s) = pending s"
  "next_global_id (target_info_changed ps s) = next_global_id s"
  "client_groups (target_info_changed ps s) = client_groups s"
  "client_sessions (target_info_changed ps s) = client_sessions s"
  "pending_target_group (target_info_changed ps s) = pending_target_group s"
  by (simp_all add: target_info_changed_def Let_def split: option.split)

lemma event_fields [simp]:
  "pending (snd (ext_event msg s)) = pending s"
  "next_global_id (snd (ext_event msg s)) = next_global_id s"
  "client_groups (snd (ext_event msg s)) = client_groups s"
  "client_sessions (snd (ext_event msg s)) = client_sessions s"
  "pending_target_group (snd (ext_event msg s)) = pending_target_group s"
  by (simp_all add: ext_event_def Let_def)

section \<open>The invariant\<close>

definition pending_ok :: "relay \<Rightarrow> bool" where
  "pending_ok s \<longleftrightarrow> distinct (map fst (pending s))
     \<and> (\<forall>gid \<in> fst ` set (pending s). 0 < gid \<and> gid \<le> next_global_id s)
     \<and> fst ` set (pending_target_group s) \<subseteq> fst ` set (pending s)
     \<and> 0 \<le> next_global_id s"

definition page_of :: "relay \<Rightarrow> string \<Rightarrow> string \<Rightarrow> bool" where
  "page_of s c t \<longleftrightarrow>
     (case map_of (targets s) t of Some e \<Rightarrow> e_parent e = None \<and> e_session e = c | None \<Rightarrow> False)"

definition tabs_ok :: "relay \<Rightarrow> bool" where
  "tabs_ok s \<longleftrightarrow> distinct (map fst (targets s))
     \<and> (\<forall>c t t'. c \<noteq> [] \<longrightarrow> page_of s c t \<longrightarrow> page_of s c t' \<longrightarrow> t = t')"

lemma tabs_ok_sub:
  assumes "tabs_ok s" "distinct (map fst (targets s'))"
    and "\<And>c t. page_of s' c t \<Longrightarrow> page_of s c t"
  shows "tabs_ok s'"
  using assms unfolding tabs_ok_def by blast

lemma tabs_ok_same: "targets s' = targets s \<Longrightarrow> tabs_ok s' = tabs_ok s"
  by (simp add: tabs_ok_def page_of_def)

lemma page_of_delete:
  "targets s' = delete_all ts (targets s) \<Longrightarrow> page_of s' c t \<Longrightarrow> page_of s c t"
  by (auto simp: page_of_def map_of_delete_all split: option.split_asm if_split_asm)

lemma tabs_ok_delete:
  "tabs_ok s \<Longrightarrow> targets s' = delete_all ts (targets s) \<Longrightarrow> tabs_ok s'"
  using tabs_ok_sub [of s s'] page_of_delete distinct_delete_all by (metis tabs_ok_def)

lemma pending_ok_same:
  "pending s' = pending s \<Longrightarrow> next_global_id s' = next_global_id s \<Longrightarrow>
     pending_target_group s' = pending_target_group s \<Longrightarrow> pending_ok s' = pending_ok s"
  by (simp add: pending_ok_def)

lemma keys_update: "fst ` set (AList.update k v m) = insert k (fst ` set m)"
  by (simp flip: dom_map_of_conv_image_fst add: update_conv')

lemma keys_delete: "fst ` set (AList.delete k m) = fst ` set m - {k}"
  by (simp flip: dom_map_of_conv_image_fst add: delete_conv')

lemma keys_delete_all: "fst ` set (delete_all ks m) = fst ` set m - set ks"
  by (auto simp: set_delete_all intro: rev_image_eqI)

section \<open>Commands keep the invariant\<close>

lemma route_set_group_fields [simp]:
  "pending (snd (route_set_group c i ps s)) = pending s"
  "next_global_id (snd (route_set_group c i ps s)) = next_global_id s"
  "pending_target_group (snd (route_set_group c i ps s)) = pending_target_group s"
  "targets (snd (route_set_group c i ps s)) = targets s"
  by (simp_all add: route_set_group_def Let_def split: option.split)

lemma route_attach_fields [simp]:
  "pending (snd (route_attach c i ps s)) = pending s"
  "next_global_id (snd (route_attach c i ps s)) = next_global_id s"
  "pending_target_group (snd (route_attach c i ps s)) = pending_target_group s"
  "targets (snd (route_attach c i ps s)) = targets s"
  by (simp_all add: route_attach_def Let_def split: option.split)

lemma route_forward_fields:
  "targets (snd (route_forward c i m ps ses s)) = targets s"
  "next_global_id (snd (route_forward c i m ps ses s)) = next_gid (next_global_id s)"
  "pending (snd (route_forward c i m ps ses s))
     = AList.update (next_gid (next_global_id s)) (c, i) (pending s)"
  "pending_target_group (snd (route_forward c i m ps ses s)) = pending_target_group s
   \<or> (\<exists>g. pending_target_group (snd (route_forward c i m ps ses s))
        = AList.update (next_gid (next_global_id s)) g (pending_target_group s))"
  by (auto simp: route_forward_def Let_def split: option.split)

lemma route_forward_pending:
  assumes "pending_ok s" "next_global_id s < 2 ^ 63 - 1"
  shows "pending_ok (snd (route_forward c i m ps ses s))"
proof -
  have g: "next_gid (next_global_id s) = next_global_id s + 1"
    using assms(2) by (simp add: next_gid_def)
  note f = route_forward_fields [of c i m ps ses s, unfolded g]
  let ?s = "snd (route_forward c i m ps ses s)"
  have tags: "fst ` set (pending_target_group ?s)
      \<subseteq> insert (next_global_id s + 1) (fst ` set (pending_target_group s))"
    using f(4) by (elim disjE exE) (simp_all only: keys_update subset_insertI order_refl)
  have keys: "fst ` set (pending ?s) = insert (next_global_id s + 1) (fst ` set (pending s))"
    unfolding f(3) by (rule keys_update)
  show ?thesis
    unfolding pending_ok_def
  proof (intro conjI)
    show "distinct (map fst (pending ?s))"
      using assms(1) unfolding f(3) pending_ok_def by (simp add: distinct_update)
    show "\<forall>gid \<in> fst ` set (pending ?s). 0 < gid \<and> gid \<le> next_global_id ?s"
      using assms(1) unfolding keys f(2) pending_ok_def by auto
    show "fst ` set (pending_target_group ?s) \<subseteq> fst ` set (pending ?s)"
      using assms(1) tags unfolding keys pending_ok_def by blast
    show "0 \<le> next_global_id ?s"
      using assms(1) unfolding f(2) pending_ok_def by simp
  qed
qed

lemma if_chain:
  "w = (if b1 then (r1, s) else if b2 then x else if b3 then (r3, s) else if b4 then (r4, s)
     else if b5 then (r5, s) else if b6 then (r6, s) else if b7 then y else z) \<Longrightarrow>
     snd w = s \<or> w = x \<or> w = y \<or> w = z"
  by (auto split: if_split_asm)

lemma route_command_cases:
  obtains "snd (route_client_command c raw s) = s"
  | ps where "snd (route_client_command c raw s) = snd (route_set_group c (raw_id raw) ps s)"
  | ps where "snd (route_client_command c raw s) = snd (route_attach c (raw_id raw) ps s)"
  | m ps ses where "route_client_command c raw s = route_forward c (raw_id raw) m ps ses s"
proof -
  let ?m = "unwrap_or [] (get_str raw ''method'')" and ?ps = "unwrap_or (jobj []) (jget raw ''params'')"
  have "snd (route_client_command c raw s) = s
    \<or> route_client_command c raw s = route_set_group c (raw_id raw) ?ps s
    \<or> route_client_command c raw s = route_attach c (raw_id raw) ?ps s
    \<or> route_client_command c raw s = route_forward c (raw_id raw) ?m ?ps (get_str raw ''sessionId'') s"
    by (rule if_chain) (simp only: route_client_command_def Let_def)
  then show ?thesis
    using that by (elim disjE) simp_all
qed

lemma route_command_pending:
  assumes "pending_ok s" "next_global_id s < 2 ^ 63 - 1"
  shows "pending_ok (snd (route_client_command c raw s))"
  by (rule route_command_cases [of c raw s])
    (use assms route_forward_pending in \<open>auto simp: pending_ok_def\<close>)

lemma route_command_targets [simp]: "targets (snd (route_client_command c raw s)) = targets s"
  by (rule route_command_cases [of c raw s]) (simp_all add: route_forward_fields)

lemma drop_client_fields:
  "pending (drop_client c s) = filter (\<lambda>(gid, (d, v)). d \<noteq> c) (pending s)"
  "next_global_id (drop_client c s) = next_global_id s"
  "targets (drop_client c s) = targets s"
  "pending_target_group (drop_client c s) =
     delete_all (map fst (filter (\<lambda>(gid, (d, v)). d = c) (pending s))) (pending_target_group s)"
  by (simp_all add: drop_client_def Let_def)

lemma drop_client_ok: "pending_ok s \<Longrightarrow> pending_ok (drop_client c s)"
proof -
  assume ok: "pending_ok s"
  let ?dropped = "map fst (filter (\<lambda>(gid, (d, v)). d = c) (pending s))"
  have "gid \<in> fst ` set (filter (\<lambda>(gid, (d, v)). d \<noteq> c) (pending s))"
    if "gid \<in> fst ` set (pending s)" "gid \<notin> set ?dropped" for gid
    using that by (force simp: image_iff)
  then have "fst ` set (pending_target_group s) - set ?dropped
      \<subseteq> fst ` set (filter (\<lambda>(gid, (d, v)). d \<noteq> c) (pending s))"
    using ok unfolding pending_ok_def by blast
  then show ?thesis
    using ok distinct_map_filter unfolding pending_ok_def drop_client_fields keys_delete_all
    by auto
qed

section \<open>Extension messages keep the invariant\<close>

lemma ext_reply_fields:
  "targets (snd (ext_reply msg s)) = targets s"
  "client_groups (snd (ext_reply msg s)) = client_groups s"
  "client_sessions (snd (ext_reply msg s)) = client_sessions s"
  "next_global_id (snd (ext_reply msg s)) = next_global_id s"
  "pending (snd (ext_reply msg s)) = (case Option.bind (jget msg ''id'') as_i64 of
     Some gid \<Rightarrow> AList.delete gid (pending s) | None \<Rightarrow> pending s)"
  "pending_target_group (snd (ext_reply msg s)) = (case Option.bind (jget msg ''id'') as_i64 of
     Some gid \<Rightarrow> AList.delete gid (pending_target_group s) | None \<Rightarrow> pending_target_group s)"
  by (auto simp: ext_reply_def Let_def delete_notin_dom map_of_eq_None_iff bind_eq_Some_conv
      bind_eq_None_conv split: option.split prod.split)

lemma ext_reply_pending:
  assumes "pending_ok s"
  shows "pending_ok (snd (ext_reply msg s))"
proof (cases "Option.bind (jget msg ''id'') as_i64")
  case None
  then show ?thesis using assms by (simp add: pending_ok_def ext_reply_fields)
next
  case (Some gid)
  then show ?thesis
    using assms unfolding pending_ok_def ext_reply_fields Some option.case keys_delete
    by (auto simp: distinct_delete)
qed

lemma if_chain_ext:
  "w = (if b1 then (r1, s) else if b2 then (r2, s) else if b3 then (r3, s) else if b4 then x
     else if b5 then y else if b6 then z else (r7, s)) \<Longrightarrow> snd w = s \<or> w = x \<or> w = y \<or> w = z"
  by (auto split: if_split_asm)

lemma handle_ext_cases:
  obtains "snd (handle_ext_message msg tok s) = s"
  | held where "handle_ext_message msg tok s = ([], retain_held_targets held s)"
  | "is_reply msg" "handle_ext_message msg tok s = ext_reply msg s"
  | "handle_ext_message msg tok s = ext_event msg s"
proof -
  let ?r = "([], case Option.bind (jget msg ''targets'') as_array of
     Some ts \<Rightarrow> retain_held_targets (held_pairs ts) s | None \<Rightarrow> s) :: relay_out list \<times> relay"
  have "snd (handle_ext_message msg tok s) = s \<or> handle_ext_message msg tok s = ?r
    \<or> (is_reply msg \<and> handle_ext_message msg tok s = ext_reply msg s)
    \<or> handle_ext_message msg tok s = ext_event msg s"
    unfolding handle_ext_message_def Let_def by (simp split: if_split)
  then show ?thesis
    using that by (cases "Option.bind (jget msg ''targets'') as_array") auto
qed

lemma handle_ext_pending: "pending_ok s \<Longrightarrow> pending_ok (snd (handle_ext_message msg tok s))"
proof (rule handle_ext_cases [of msg tok s])
  fix held
  assume "pending_ok s" "handle_ext_message msg tok s = ([], retain_held_targets held s)"
  then show ?thesis by (simp add: pending_ok_def)
next
  assume "pending_ok s" "handle_ext_message msg tok s = ext_event msg s"
  then show ?thesis by (simp add: pending_ok_def)
qed (simp_all add: ext_reply_pending)

section \<open>One record per tab\<close>

lemma tabs_ok_map:
  assumes "tabs_ok s" "targets s' = map (\<lambda>(t, e). (t, f e)) (targets s)"
    and "\<And>e. e_session (f e) = e_session e \<and> e_parent (f e) = e_parent e"
  shows "tabs_ok s'"
proof -
  have "map_of (targets s') t = map_option f (map_of (targets s) t)" for t
    unfolding assms(2) by (simp add: map_of_map)
  moreover have "map fst (targets s') = map fst (targets s)"
    unfolding assms(2) by (simp add: case_prod_beta comp_def)
  moreover from calculation(1) have "page_of s' c t = page_of s c t" for c t
    using assms(3) by (cases "map_of (targets s) t") (simp_all add: page_of_def)
  ultimately show ?thesis
    using assms(1) by (simp add: tabs_ok_def)
qed

lemma copy_string_keeps [simp]:
  "e_session (copy_string info k e) = e_session e" "e_parent (copy_string info k e) = e_parent e"
  by (simp_all add: copy_string_def set_info_def split: option.split)

lemma frame_navigated_tabs: "tabs_ok s \<Longrightarrow> tabs_ok (frame_navigated ps ses s)"
proof -
  assume ok: "tabs_ok s"
  show ?thesis
  proof (cases "frame_navigated ps ses s = s")
    case True
    then show ?thesis using ok by simp
  next
    case False
    then obtain c url where "targets (frame_navigated ps ses s) =
        map (\<lambda>(t, e). (t, if e_session e = c then set_info ''url'' (JStr url) e else e)) (targets s)"
      unfolding frame_navigated_def Let_def
      by (cases ses; cases "Option.bind (Option.bind (jget ps ''frame'') (\<lambda>f. jget f ''url'')) as_str")
        (auto split: if_split_asm)
    then show ?thesis
      by (rule tabs_ok_map [OF ok]) (simp add: set_info_def)
  qed
qed

lemma tabs_ok_update:
  assumes "tabs_ok s" "map_of (targets s) t = Some e" "targets s' = AList.update t e' (targets s)"
    and "e_session e' = e_session e" "e_parent e' = e_parent e"
  shows "tabs_ok s'"
proof (rule tabs_ok_sub [OF assms(1)])
  show "distinct (map fst (targets s'))"
    using assms(1,3) by (simp add: tabs_ok_def distinct_update)
  show "page_of s c t'" if "page_of s' c t'" for c t'
    using that assms by (auto simp: page_of_def al.lookup_put split: if_split_asm)
qed

lemma target_info_changed_tabs:
  assumes "tabs_ok s"
  shows "tabs_ok (target_info_changed ps s)"
proof (cases "target_info_changed ps s = s")
  case True
  then show ?thesis using assms by simp
next
  case False
  then obtain t e info where "map_of (targets s) t = Some e" "targets (target_info_changed ps s)
      = AList.update t (copy_string info ''title'' (copy_string info ''url'' e)) (targets s)"
    by (auto simp: target_info_changed_def split: option.split_asm)
  then show ?thesis
    by (rule tabs_ok_update [OF assms]) simp_all
qed

lemma tag_attached_targets [simp]: "targets (tag_attached t info s) = targets s"
  by (simp add: tag_attached_def split: option.split)

lemma page_not_stale:
  assumes "distinct (map fst (targets s))" "page_of (drop_stale t c None s) c t'" "c \<noteq> []"
  shows "t' = t"
proof (rule ccontr)
  assume "t' \<noteq> t"
  obtain e where e: "map_of (targets (drop_stale t c None s)) t' = Some e" "e_parent e = None"
    "e_session e = c"
    using assms(2) by (auto simp: page_of_def split: option.split_asm)
  then have "(t', e) \<in> set (targets s)" "t' \<notin> set (stale_records t c s)"
    using assms(3) map_of_SomeD [of "targets s" t' e]
    by (auto simp: drop_stale_def map_of_delete_all split: if_split_asm)
  then show False
    using \<open>t' \<noteq> t\<close> e by (force simp: stale_records_def)
qed

lemma drop_stale_tabs: "tabs_ok s \<Longrightarrow> tabs_ok (drop_stale t c parent s)"
  unfolding drop_stale_def by (auto intro: tabs_ok_delete)

lemma tab_attached_tabs:
  assumes ok: "tabs_ok s"
  shows "tabs_ok (tab_attached ps ses s)"
proof (cases "tab_attached ps ses s = s")
  case True
  then show ?thesis using ok by simp
next
  case False
  then obtain info t where it: "jget ps ''targetInfo'' = Some info" "get_str info ''targetId'' = Some t"
    by (auto simp: tab_attached_def split: option.split_asm)
  define c where "c = unwrap_or [] (get_str ps ''sessionId'')"
  define parent where "parent = filter_opt (\<lambda>p. p \<noteq> [] \<and> p \<noteq> c) ses"
  define s2 where "s2 = drop_stale t c parent (tag_attached t info s)"
  have tg: "targets (tab_attached ps ses s) =
      AList.update t \<lparr> e_session = c, e_info = info, e_parent = parent \<rparr> (targets s2)"
    by (simp add: tab_attached_def it Let_def flip: c_def parent_def s2_def)
  have ok1: "tabs_ok (tag_attached t info s)"
    using ok tabs_ok_same [OF tag_attached_targets] by simp
  then have ok2: "tabs_ok s2" by (simp add: s2_def drop_stale_tabs)
  have only: "t' = t" if "page_of s2 c t'" "c \<noteq> []" "parent = None" for t'
    using page_not_stale [of "tag_attached t info s" t c t'] ok1 that by (simp add: s2_def tabs_ok_def)
  have page: "page_of (tab_attached ps ses s) d u \<longleftrightarrow>
      (if u = t then parent = None \<and> d = c else page_of s2 d u)" for d u
    unfolding page_of_def tg by (auto simp: al.lookup_put)
  show ?thesis
    unfolding tabs_ok_def
  proof (intro conjI allI impI)
    show "distinct (map fst (targets (tab_attached ps ses s)))"
      using ok2 unfolding tg tabs_ok_def by (simp add: distinct_update)
    fix d u u'
    assume "d \<noteq> []" "page_of (tab_attached ps ses s) d u" "page_of (tab_attached ps ses s) d u'"
    note a = this(1) this(2,3) [unfolded page]
    have uniq: "page_of s2 d u \<Longrightarrow> page_of s2 d u' \<Longrightarrow> u = u'"
      using ok2 a(1) unfolding tabs_ok_def by blast
    show "u = u'"
      using a uniq only by (metis (full_types))
  qed
qed

lemma gone_targets_forget [simp]: "gone_targets c (forget_iframe_children d s) = gone_targets c s"
  by (simp add: gone_targets_def)

lemma detached_targets:
  "targets (snd (detached m ps ses s)) = (case get_str ps ''sessionId'' of None \<Rightarrow> targets s
     | Some c \<Rightarrow> if c \<in> oopif_sessions s then targets s
                 else delete_all (gone_targets c s) (targets s))"
  by (simp add: detached_def Let_def split: option.split)

lemma detached_tabs:
  assumes "tabs_ok s"
  shows "tabs_ok (snd (detached m ps ses s))"
proof -
  show ?thesis
  proof (cases "get_str ps ''sessionId''")
    case None
    then have "targets (snd (detached m ps ses s)) = targets s" by (simp add: detached_targets)
    then show ?thesis using assms tabs_ok_same by blast
  next
    case (Some c)
    show ?thesis
    proof (cases "c \<in> oopif_sessions s")
      case True
      then have "targets (snd (detached m ps ses s)) = targets s" by (simp add: detached_targets Some)
      then show ?thesis using assms tabs_ok_same by blast
    next
      case False
      then have "targets (snd (detached m ps ses s)) = delete_all (gone_targets c s) (targets s)"
        by (simp add: detached_targets Some)
      then show ?thesis by (rule tabs_ok_delete [OF assms])
    qed
  qed
qed

lemma oopif_attached_targets [simp]: "targets (snd (oopif_attached m ps ses s)) = targets s"
  by (simp add: oopif_attached_def Let_def split: option.split)

lemma if_chain_event:
  "w = (if b1 then if b2 then x else (r1, y) else if b3 then z
     else (r2, if b4 then u else if b5 then v else s)) \<Longrightarrow>
   snd w = snd x \<or> snd w = y \<or> w = z \<or> snd w = u \<or> snd w = v \<or> snd w = s"
  by (auto split: if_split_asm)

lemma ext_event_cases:
  obtains m ps ses where "snd (ext_event msg s) = snd (oopif_attached m ps ses s)"
  | ps ses where "snd (ext_event msg s) = tab_attached ps ses s"
  | m ps ses where "ext_event msg s = detached m ps ses s"
  | ps ses where "snd (ext_event msg s) = frame_navigated ps ses s"
  | ps where "snd (ext_event msg s) = target_info_changed ps s"
  | "snd (ext_event msg s) = s"
  using if_chain_event [OF ext_event_def [unfolded Let_def], of msg s] that by (elim disjE) blast+

lemma ext_event_tabs:
  assumes "tabs_ok s"
  shows "tabs_ok (snd (ext_event msg s))"
  by (rule ext_event_cases [of msg s])
    (use assms tabs_ok_same [OF oopif_attached_targets] in \<open>simp_all add: tab_attached_tabs
      detached_tabs frame_navigated_tabs target_info_changed_tabs\<close>)

lemma handle_ext_tabs:
  assumes "tabs_ok s"
  shows "tabs_ok (snd (handle_ext_message msg tok s))"
proof (rule handle_ext_cases [of msg tok s])
  fix held
  assume h: "handle_ext_message msg tok s = ([], retain_held_targets held s)"
  show ?thesis
    unfolding h snd_conv by (rule tabs_ok_delete [OF assms]) (simp add: retain_held_targets_def)
next
  assume "handle_ext_message msg tok s = ext_reply msg s"
  then show ?thesis using assms tabs_ok_same [OF ext_reply_fields(1)] by simp
next
  assume "handle_ext_message msg tok s = ext_event msg s"
  then show ?thesis using ext_event_tabs [OF assms] by simp
qed (use assms in simp)

section \<open>Any sequence of messages\<close>

datatype relay_op =
    Command client_id json
  | FromExt json string
  | Drop client_id
  | Capabilities "string list"

fun relay_step :: "relay_op \<Rightarrow> relay \<Rightarrow> relay" where
  "relay_step (Command c raw) s = snd (route_client_command c raw s)"
| "relay_step (FromExt msg tok) s = snd (handle_ext_message msg tok s)"
| "relay_step (Drop c) s = drop_client c s"
| "relay_step (Capabilities cs) s = set_extension_capabilities cs s"

text \<open>The relay serves fewer than \<open>2 ^ 63\<close> commands, so its id counter does not wrap.\<close>

inductive relay_run :: "relay \<Rightarrow> relay_op list \<Rightarrow> relay \<Rightarrow> bool" where
  relay_nil: "relay_run s [] s"
| relay_cons: "next_global_id s < 2 ^ 63 - 1 \<Longrightarrow> relay_run (relay_step a s) ops s'
    \<Longrightarrow> relay_run s (a # ops) s'"

inductive_simps relay_run_simps [simp]: "relay_run s [] s'" "relay_run s (a # ops) s'"

definition relay_ok :: "relay \<Rightarrow> bool" where
  "relay_ok s \<longleftrightarrow> pending_ok s \<and> tabs_ok s"

lemma relay_step_ok:
  assumes "relay_ok s" "next_global_id s < 2 ^ 63 - 1"
  shows "relay_ok (relay_step a s)"
proof (cases a)
  case (Command c raw)
  then show ?thesis
    using assms route_command_pending tabs_ok_same [OF route_command_targets] by (simp add: relay_ok_def)
next
  case (FromExt msg tok)
  then show ?thesis
    using assms handle_ext_pending handle_ext_tabs by (simp add: relay_ok_def)
next
  case (Drop c)
  then show ?thesis
    using assms drop_client_ok tabs_ok_same [OF drop_client_fields(3)] by (simp add: relay_ok_def)
next
  case (Capabilities cs)
  then show ?thesis
    using assms by (simp add: relay_ok_def set_extension_capabilities_def pending_ok_def
        tabs_ok_def page_of_def)
qed

lemma relay_run_ok: "relay_run s ops s' \<Longrightarrow> relay_ok s \<Longrightarrow> relay_ok s'"
  by (induction rule: relay_run.induct) (simp_all add: relay_step_ok)

lemma new_relay_ok: "relay_ok new_relay"
  by (simp add: relay_ok_def pending_ok_def tabs_ok_def page_of_def new_relay_def)

end
