(* ===== verification/RelayProps.thy ===== *)
theory RelayProps
  imports RelayExt
begin

text \<open>
  What the relay promises its clients: replies reach the client that asked and only that
  client, a client sees the tabs of its group, and the tab records follow the extension.
\<close>

section \<open>Replies\<close>

lemma if_chain_local:
  "w = (if b1 then (Local j1, s) else if b2 then x else if b3 then (Local j3, s)
     else if b4 then (Local j4, s) else if b5 then (Local j5, s) else if b6 then (Local j6, s)
     else if b7 then y else z) \<Longrightarrow>
   fst w = Forward env \<Longrightarrow> (\<exists>j. fst x = Local j) \<Longrightarrow> (\<exists>j. fst y = Local j) \<Longrightarrow> w = z"
  by (auto split: if_split_asm)

lemma local_results:
  "\<exists>j. fst (route_set_group c i ps s) = Local j" "\<exists>j. fst (route_attach c i ps s) = Local j"
  by (auto simp: route_set_group_def route_attach_def local_result_def Let_def split: option.split)

lemma forward_route:
  assumes "route_client_command c raw s = (Forward env, s1)"
  obtains m ps ses where "(Forward env, s1) = route_forward c (raw_id raw) m ps ses s"
proof -
  have "fst (route_client_command c raw s) = Forward env" by (simp add: assms)
  note chain = if_chain_local [OF route_client_command_def [unfolded Let_def local_result_def
      route_version_def route_capabilities_def route_all_targets_def route_get_targets_def]
      this local_results]
  show ?thesis
    by (rule that) (simp only: chain flip: assms)
qed

lemma forward_gid:
  assumes "(Forward env, s1) = route_forward c i m ps ses s"
  shows "jget env ''id'' = Some (jint (next_gid (next_global_id s)))"
  using assms by (auto simp: route_forward_def Let_def)

fun answers :: "int \<Rightarrow> relay_op \<Rightarrow> bool" where
  "answers gid (FromExt msg tok) \<longleftrightarrow> is_reply msg \<and> Option.bind (jget msg ''id'') as_i64 = Some gid"
| "answers gid _ \<longleftrightarrow> False"

lemma handle_reply: "is_reply msg \<Longrightarrow> handle_ext_message msg tok s = ext_reply msg s"
  by (auto simp: handle_ext_message_def Let_def is_reply_def get_str_def)

lemma step_keeps_pending:
  assumes "map_of (pending s) gid = Some (c, v)" "gid \<le> next_global_id s"
    and "next_global_id s < 2 ^ 63 - 1" "\<not> answers gid a" "a \<noteq> Drop c"
  shows "map_of (pending (relay_step a s)) gid = Some (c, v) \<and> gid \<le> next_global_id (relay_step a s)"
proof (cases a)
  case (Command d raw)
  show ?thesis
    unfolding Command relay_step.simps
    by (rule route_command_cases [of d raw s])
      (use assms in \<open>auto simp: route_forward_fields next_gid_def al.lookup_put\<close>)
next
  case (FromExt msg tok)
  show ?thesis
    unfolding FromExt relay_step.simps
    by (rule handle_ext_cases [of msg tok s])
      (use assms FromExt in \<open>auto simp: ext_reply_fields al.lookup_del split: option.split\<close>)
next
  case (Drop d)
  have "map_of (filter (\<lambda>(g, (e, v)). e \<noteq> d) m) gid = Some (c, v)"
    if "map_of m gid = Some (c, v)" "d \<noteq> c" for m
    using that by (induction m) (auto split: if_split_asm)
  then show ?thesis using assms Drop by (simp add: drop_client_fields)
next
  case (Capabilities cs)
  then show ?thesis using assms by (simp add: set_extension_capabilities_def)
qed

lemma run_keeps_pending:
  "relay_run s ops s' \<Longrightarrow> map_of (pending s) gid = Some (c, v) \<Longrightarrow> gid \<le> next_global_id s \<Longrightarrow>
     list_all (\<lambda>a. \<not> answers gid a \<and> a \<noteq> Drop c) ops \<Longrightarrow> map_of (pending s') gid = Some (c, v)"
  by (induction rule: relay_run.induct) (use step_keeps_pending in auto)

lemma ext_reply_out:
  assumes "Option.bind (jget msg ''id'') as_i64 = Some gid" "map_of (pending s) gid = Some (c, v)"
  shows "\<exists>out. fst (ext_reply msg s) = [ToClient (Some c) out] \<and> jget out ''id'' = Some v
    \<and> jget out ''result'' = jget msg ''result''"
proof -
  have "map_of (pending (case map_of (pending_target_group s) gid of None \<Rightarrow> s
      | Some g \<Rightarrow> (let s0 = s\<lparr>pending_target_group := AList.delete gid (pending_target_group s)\<rparr>
          in case Option.bind (Option.bind (jget msg ''result'') (\<lambda>r. jget r ''targetId'')) as_str of
               Some t \<Rightarrow> s0\<lparr>target_group := AList.update t g (target_group s0)\<rparr> | None \<Rightarrow> s0))) gid
      = Some (c, v)"
    using assms(2) by (simp add: Let_def split: option.split)
  then show ?thesis
    using assms(1)
    by (auto simp: ext_reply_def Let_def jobj_def map_of_obj_insert map_of_obj_of
        simp del: obj_insert.simps split: option.split json.split)
qed

text \<open>
  C17: A client gets the reply to its own command, under its own id: after a command has
  been forwarded, whatever other commands, events, replies, disconnections of other clients
  come in between, the extension's reply to the forwarded id goes to that client alone with
  the id the client chose, and the command is then no longer pending.
\<close>
theorem reply_reaches_asker:
  assumes "relay_run new_relay ops0 s" "next_global_id s < 2 ^ 63 - 1"
    and "route_client_command c raw s = (Forward env, s1)" "jget env ''id'' = Some (jint gid)"
    and "relay_run s1 ops s2" "list_all (\<lambda>a. \<not> answers gid a \<and> a \<noteq> Drop c) ops"
    and "is_reply msg" "jget msg ''id'' = Some (jint gid)"
  shows "\<exists>out s3. handle_ext_message msg tok s2 = ([ToClient (Some c) out], s3)
    \<and> jget out ''id'' = Some (raw_id raw) \<and> jget out ''result'' = jget msg ''result''
    \<and> map_of (pending s3) gid = None"
proof -
  obtain m ps ses where f: "(Forward env, s1) = route_forward c (raw_id raw) m ps ses s"
    by (rule forward_route [OF assms(3)])
  have ok: "pending_ok s" using relay_run_ok [OF assms(1) new_relay_ok] by (simp add: relay_ok_def)
  have g: "gid = next_global_id s + 1"
    using forward_gid [OF f] assms(2,4) by (simp add: jint_def next_gid_def)
  have s1: "s1 = snd (route_forward c (raw_id raw) m ps ses s)" using f by (metis snd_conv)
  have p1: "map_of (pending s1) gid = Some (c, raw_id raw)" "gid \<le> next_global_id s1"
    using assms(2) unfolding s1 g by (simp_all add: route_forward_fields next_gid_def al.put_same)
  have p2: "map_of (pending s2) gid = Some (c, raw_id raw)"
    by (rule run_keeps_pending [OF assms(5) p1 assms(6)])
  have i: "Option.bind (jget msg ''id'') as_i64 = Some gid"
    using assms(2,8) ok g by (simp add: jint_def pending_ok_def)
  obtain out where out: "fst (ext_reply msg s2) = [ToClient (Some c) out]"
    "jget out ''id'' = Some (raw_id raw)" "jget out ''result'' = jget msg ''result''"
    using ext_reply_out [OF i p2] by blast
  have "map_of (pending (snd (ext_reply msg s2))) gid = None"
    by (simp add: ext_reply_fields i al.lookup_del)
  then show ?thesis
    using out handle_reply [OF assms(7), of tok s2] by (metis prod.collapse)
qed

definition example_command :: json where
  "example_command = jobj [(''id'', jint 7), (''method'', JStr ''Page.navigate'')]"

definition example_reply :: json where
  "example_reply = jobj [(''id'', jint 1), (''result'', JStr ''done'')]"

lemma example_forward: "route_client_command 4 example_command new_relay
   = (Forward (jobj [(''id'', jint 1), (''method'', JStr ''forwardCDPCommand''),
        (''params'', jobj [(''method'', JStr ''Page.navigate''), (''params'', jobj []), (''sessionId'', JNull)])]),
      new_relay\<lparr>next_global_id := 1, pending := [(1, (4, jint 7))]\<rparr>)"
  by code_simp

lemma reply_reaches_asker_witness:
  "\<exists>out s3. handle_ext_message example_reply ''tok''
       (relay_step (Command 5 example_command)
          (new_relay\<lparr>next_global_id := 1, pending := [(1, (4, jint 7))]\<rparr>))
       = ([ToClient (Some 4) out], s3)
     \<and> jget out ''id'' = Some (raw_id example_command)
     \<and> jget out ''result'' = jget example_reply ''result'' \<and> map_of (pending s3) 1 = None"
  by (rule reply_reaches_asker [OF relay_nil _ example_forward, where ops = "[Command 5 example_command]"])
    (simp_all add: new_relay_def example_reply_def is_reply_def)

section \<open>No reply for anyone else\<close>

lemma set_alist_update: "set (AList.update k v m) \<subseteq> insert (k, v) (set m)"
  by (induction m) auto

lemma set_alist_delete: "set (AList.delete k m) \<subseteq> set m"
  by (auto simp: AList.delete_eq)

text \<open>Where a pending entry comes from: the command it answers was forwarded under its id, and
  since then the id was not answered and the client not dropped.\<close>

lemma step_pending_source:
  assumes "(gid, (c, v)) \<in> set (pending (relay_step a s))"
  shows "((gid, (c, v)) \<in> set (pending s) \<and> \<not> answers gid a \<and> a \<noteq> Drop c)
    \<or> (\<exists>raw env. a = Command c raw \<and> fst (route_client_command c raw s) = Forward env
         \<and> jget env ''id'' = Some (jint gid) \<and> v = raw_id raw)"
proof (cases a)
  case (Command d raw)
  show ?thesis
  proof (rule route_command_cases [of d raw s])
    fix m ps ses
    assume f: "route_client_command d raw s = route_forward d (raw_id raw) m ps ses s"
    obtain env where env: "fst (route_forward d (raw_id raw) m ps ses s) = Forward env"
      by (auto simp: route_forward_def Let_def)
    then have "(Forward env, snd (route_forward d (raw_id raw) m ps ses s))
        = route_forward d (raw_id raw) m ps ses s"
      by (metis prod.collapse)
    then have "jget env ''id'' = Some (jint (next_gid (next_global_id s)))"
      by (rule forward_gid)
    then show ?thesis
      using assms Command env f
        set_alist_update [of "next_gid (next_global_id s)" "(d, raw_id raw)" "pending s"]
      by (auto simp: route_forward_fields)
  qed (use assms Command in auto)
next
  case (FromExt msg tok)
  show ?thesis
  proof (cases "answers gid a")
    case True
    then have "pending (relay_step a s) = AList.delete gid (pending s)"
      by (simp add: FromExt handle_reply ext_reply_fields)
    then show ?thesis using assms by (auto simp: AList.delete_eq)
  next
    case False
    have "(gid, (c, v)) \<in> set (pending s)"
      by (rule handle_ext_cases [of msg tok s])
        (use assms FromExt set_alist_delete [of _ "pending s"]
          in \<open>auto simp: ext_reply_fields split: option.splits\<close>)
    then show ?thesis using False FromExt by simp
  qed
qed (use assms in \<open>auto simp: drop_client_fields set_extension_capabilities_def\<close>)

lemma run_pending_source:
  "relay_run s ops s' \<Longrightarrow> (gid, (c, v)) \<in> set (pending s') \<Longrightarrow>
     ((gid, (c, v)) \<in> set (pending s) \<and> list_all (\<lambda>a. \<not> answers gid a \<and> a \<noteq> Drop c) ops)
     \<or> (\<exists>before raw after u env. ops = before @ Command c raw # after \<and> relay_run s before u
          \<and> fst (route_client_command c raw u) = Forward env \<and> jget env ''id'' = Some (jint gid)
          \<and> v = raw_id raw \<and> list_all (\<lambda>a. \<not> answers gid a \<and> a \<noteq> Drop c) after)"
proof (induction rule: relay_run.induct)
  case (relay_cons s a ops s')
  note ok = relay_cons.hyps(1)
  from relay_cons.IH [OF relay_cons.prems] show ?case
  proof (elim disjE conjE exE)
    assume p: "(gid, (c, v)) \<in> set (pending (relay_step a s))"
      "list_all (\<lambda>a. \<not> answers gid a \<and> a \<noteq> Drop c) ops"
    from step_pending_source [OF p(1)] show ?thesis
    proof (elim disjE conjE exE)
      fix raw env
      assume "a = Command c raw" "fst (route_client_command c raw s) = Forward env"
        "jget env ''id'' = Some (jint gid)" "v = raw_id raw"
      then show ?thesis
        using p(2) by (intro disjI2 exI [of _ "[]"] exI [of _ raw] exI [of _ ops] exI [of _ s] exI [of _ env])
          simp
    qed (use p in simp)
  next
    fix before raw after u env
    assume "ops = before @ Command c raw # after" "relay_run (relay_step a s) before u"
      "fst (route_client_command c raw u) = Forward env" "jget env ''id'' = Some (jint gid)"
      "v = raw_id raw" "list_all (\<lambda>a. \<not> answers gid a \<and> a \<noteq> Drop c) after"
    then show ?thesis
      using ok by (intro disjI2 exI [of _ "a # before"] exI [of _ raw] exI [of _ after] exI [of _ u]
          exI [of _ env]) simp
  qed
qed simp

lemma page_event_broadcast [simp]:
  "page_event s ses ev \<noteq> ToClient (Some c) out" "ToClient (Some c) out \<noteq> page_event s ses ev"
  by (simp_all add: page_event_def split: option.split)

lemma ext_event_broadcast: "ToClient (Some c) out \<notin> set (fst (ext_event msg s))"
  by (simp add: ext_event_def Let_def oopif_attached_def detached_def split: option.split)

lemma to_client_reply:
  assumes "ToClient (Some c) out \<in> set (fst (handle_ext_message msg tok s))"
  shows "fst (handle_ext_message msg tok s) = fst (ext_reply msg s)"
    "ToClient (Some c) out \<in> set (fst (ext_reply msg s))"
proof -
  have "fst (handle_ext_message msg tok s) \<in> {[ext_connect msg tok], [ToExt (jobj [(''method'', JStr ''pong'')])],
      [], fst (ext_reply msg s), fst (ext_event msg s)}"
    unfolding handle_ext_message_def Let_def by (simp split: if_split)
  then show "fst (handle_ext_message msg tok s) = fst (ext_reply msg s)"
    using assms ext_event_broadcast by (fastforce simp: ext_connect_def Let_def)
  then show "ToClient (Some c) out \<in> set (fst (ext_reply msg s))"
    using assms by simp
qed

lemma ext_reply_to:
  assumes "ToClient (Some c) out \<in> set (fst (ext_reply msg s))"
  shows "\<exists>gid v. Option.bind (jget msg ''id'') as_i64 = Some gid \<and> map_of (pending s) gid = Some (c, v)
    \<and> fst (ext_reply msg s) = [ToClient (Some c) out] \<and> jget out ''id'' = Some v
    \<and> jget out ''result'' = jget msg ''result''"
proof (cases "\<exists>gid c v. Option.bind (jget msg ''id'') as_i64 = Some gid \<and> map_of (pending s) gid = Some (c, v)")
  case True
  then obtain gid d v where g: "Option.bind (jget msg ''id'') as_i64 = Some gid"
    "map_of (pending s) gid = Some (d, v)" by blast
  from ext_reply_out [OF g] assms g show ?thesis by auto
next
  case False
  have "Option.bind (Option.bind (jget msg ''id'') as_i64) (map_of (pending s)) = None"
  proof (cases "Option.bind (jget msg ''id'') as_i64")
    case (Some gid)
    then show ?thesis using False by (cases "map_of (pending s) gid") auto
  qed simp
  then have "fst (ext_reply msg s) = [ToClient None (case jget msg ''error'' of
      None \<Rightarrow> (case jget msg ''result'' of Some r \<Rightarrow> jset ''result'' r (jobj [(''id'', unwrap_or JNull (jget msg ''id''))])
        | None \<Rightarrow> jobj [(''id'', unwrap_or JNull (jget msg ''id''))])
    | Some e \<Rightarrow> jset ''error'' (case e of JStr m \<Rightarrow> jobj [(''code'', jint (-32000)), (''message'', JStr m)] | _ \<Rightarrow> e)
        (case jget msg ''result'' of Some r \<Rightarrow> jset ''result'' r (jobj [(''id'', unwrap_or JNull (jget msg ''id''))])
        | None \<Rightarrow> jobj [(''id'', unwrap_or JNull (jget msg ''id''))]))]"
    by (cases "Option.bind (jget msg ''id'') as_i64")
      (auto simp: ext_reply_def Let_def split: option.split json.split)
  then show ?thesis using assms by simp
qed

text \<open>
  C3: A message that the relay addresses to one client goes to nobody else and answers a
  command of that very client: the extension's reply carries the relay-global id under which
  this client's command was forwarded, that id has not been answered since and the client
  has not disconnected since, and the message has the id the client gave the command and the
  extension's result. So a waiting command's reply never goes to another waiting client. (A
  reply whose id no command waits for, as after its client left, is broadcast with the id it
  came with; that is what the code does, and the statement is about addressed messages.)
\<close>
theorem reply_only_to_asker:
  assumes "relay_run new_relay ops s"
    and "ToClient (Some c) out \<in> set (fst (handle_ext_message msg tok s))"
  shows "fst (handle_ext_message msg tok s) = [ToClient (Some c) out]
    \<and> jget out ''result'' = jget msg ''result''
    \<and> (\<exists>gid before raw after u env. Option.bind (jget msg ''id'') as_i64 = Some gid
         \<and> ops = before @ Command c raw # after \<and> relay_run new_relay before u
         \<and> fst (route_client_command c raw u) = Forward env \<and> jget env ''id'' = Some (jint gid)
         \<and> list_all (\<lambda>a. \<not> answers gid a \<and> a \<noteq> Drop c) after
         \<and> jget out ''id'' = Some (raw_id raw))"
proof -
  note r = to_client_reply [OF assms(2)]
  obtain gid v where g: "Option.bind (jget msg ''id'') as_i64 = Some gid"
    "map_of (pending s) gid = Some (c, v)" "jget out ''id'' = Some v"
    "fst (ext_reply msg s) = [ToClient (Some c) out]" "jget out ''result'' = jget msg ''result''"
    using ext_reply_to [OF r(2)] by blast
  have "\<exists>before raw after u env. ops = before @ Command c raw # after \<and> relay_run new_relay before u
      \<and> fst (route_client_command c raw u) = Forward env \<and> jget env ''id'' = Some (jint gid)
      \<and> v = raw_id raw \<and> list_all (\<lambda>a. \<not> answers gid a \<and> a \<noteq> Drop c) after"
    using run_pending_source [OF assms(1) map_of_SomeD [OF g(2)]] by (simp add: new_relay_def)
  then show ?thesis
    using g r(1) by auto blast
qed

lemma reply_only_to_asker_witness:
  "fst (handle_ext_message example_reply ''tok'' (new_relay\<lparr>next_global_id := 1, pending := [(1, (4, jint 7))]\<rparr>))
     = [ToClient (Some 4) (jobj [(''id'', jint 7), (''result'', JStr ''done'')])]"
proof -
  have "relay_run new_relay [Command 4 example_command]
      (new_relay\<lparr>next_global_id := 1, pending := [(1, (4, jint 7))]\<rparr>)"
    by (simp add: example_forward) (simp add: new_relay_def)
  moreover have "ToClient (Some 4) (jobj [(''id'', jint 7), (''result'', JStr ''done'')])
      \<in> set (fst (handle_ext_message example_reply ''tok''
          (new_relay\<lparr>next_global_id := 1, pending := [(1, (4, jint 7))]\<rparr>)))"
    by code_simp
  ultimately show ?thesis
    by (rule reply_only_to_asker [THEN conjunct1])
qed

section \<open>The tabs a client sees\<close>

theorem get_targets_scoped:
  assumes "get_str raw ''method'' = Some ''Target.getTargets''"
  shows "\<exists>infos. route_client_command c raw s
      = (Local (jobj [(''id'', raw_id raw), (''result'', jobj [(''targetInfos'', JArr infos)])]), s)
    \<and> set infos = {e_info e | t e. (t, e) \<in> set (targets s)
        \<and> (case map_of (client_groups s) c of
             Some g \<Rightarrow> map_of (target_group s) t = Some g | None \<Rightarrow> True)}"
proof -
  let ?infos = "map (\<lambda>(t, e). e_info e)
     (filter (\<lambda>(t, e). in_scope (map_of (client_groups s) c) s t) (targets s))"
  have "route_client_command c raw s
      = (Local (jobj [(''id'', raw_id raw), (''result'', jobj [(''targetInfos'', JArr ?infos)])]), s)"
    by (simp add: route_client_command_def assms Let_def route_get_targets_def local_result_def)
  moreover have "set ?infos = {e_info e | t e. (t, e) \<in> set (targets s)
        \<and> (case map_of (client_groups s) c of
             Some g \<Rightarrow> map_of (target_group s) t = Some g | None \<Rightarrow> True)}"
    by (force simp: in_scope_def)
  ultimately show ?thesis by blast
qed

definition example_tabs :: relay where
  "example_tabs = new_relay\<lparr>
     targets := [(''T1'', \<lparr> e_session = ''cb-tab-1'', e_info = JStr ''one'', e_parent = None \<rparr>),
                 (''T2'', \<lparr> e_session = ''cb-tab-2'', e_info = JStr ''two'', e_parent = None \<rparr>)],
     target_group := [(''T1'', ''A''), (''T2'', ''B'')], client_groups := [(4, ''A'')]\<rparr>"

lemma get_targets_scoped_witness:
  "\<exists>infos. route_client_command 4 (jobj [(''method'', JStr ''Target.getTargets'')]) example_tabs
      = (Local (jobj [(''id'', raw_id (jobj [(''method'', JStr ''Target.getTargets'')])),
          (''result'', jobj [(''targetInfos'', JArr infos)])]), example_tabs)
    \<and> set infos = {e_info e | t e. (t, e) \<in> set (targets example_tabs)
        \<and> (case map_of (client_groups example_tabs) 4 of
             Some g \<Rightarrow> map_of (target_group example_tabs) t = Some g | None \<Rightarrow> True)}"
  by (rule get_targets_scoped) (simp add: get_str_def)

text \<open>The clients that the state holds anything of: a pending command, a group or a session
  name.\<close>

definition held_clients :: "relay \<Rightarrow> client_id set" where
  "held_clients s = {c. (\<exists>gid v. (gid, (c, v)) \<in> set (pending s))
     \<or> (\<exists>g. (c, g) \<in> set (client_groups s)) \<or> (\<exists>n. (c, n) \<in> set (client_sessions s))}"

lemma held_clients_command:
  assumes "c \<in> held_clients (snd (route_client_command d raw s))" "c \<noteq> d"
  shows "c \<in> held_clients s"
proof (rule route_command_cases [of d raw s])
  fix ps
  assume "snd (route_client_command d raw s) = snd (route_set_group d (raw_id raw) ps s)"
  then show ?thesis
    using assms set_alist_update [of d _ "client_groups s"] set_alist_update [of d _ "client_sessions s"]
    by (fastforce simp: held_clients_def route_set_group_def Let_def split: option.splits)
next
  fix ps
  assume "snd (route_client_command d raw s) = snd (route_attach d (raw_id raw) ps s)"
  then show ?thesis
    using assms by (simp add: held_clients_def route_attach_def Let_def split: option.splits)
next
  fix m ps ses
  assume f: "route_client_command d raw s = route_forward d (raw_id raw) m ps ses s"
  let ?r = "snd (route_forward d (raw_id raw) m ps ses s)"
  have "client_sessions ?r = client_sessions s"
    "client_groups ?r = client_groups s \<or> (\<exists>g. client_groups ?r = AList.update d g (client_groups s))"
    by (auto simp: route_forward_def Let_def split: option.split)
  moreover have "set (client_groups ?r) \<subseteq> insert (d, g) (set (client_groups s))"
    if "client_groups ?r = AList.update d g (client_groups s)" for g
    unfolding that by (rule set_alist_update)
  moreover have "set (pending ?r)
      \<subseteq> insert (next_gid (next_global_id s), d, raw_id raw) (set (pending s))"
    unfolding route_forward_fields by (rule set_alist_update)
  ultimately show ?thesis
    using assms unfolding f held_clients_def by fastforce
qed (use assms in simp)

lemma held_clients_ext: "held_clients (snd (handle_ext_message msg tok s)) \<subseteq> held_clients s"
  by (rule handle_ext_cases [of msg tok s])
    (auto simp: held_clients_def ext_reply_fields AList.delete_eq split: option.splits)

lemma held_clients_drop: "held_clients (drop_client c s) \<subseteq> held_clients s - {c}"
  by (auto simp: held_clients_def drop_client_def Let_def AList.delete_eq)

lemma step_held_clients:
  assumes "c \<in> held_clients (relay_step a s)"
  shows "(c \<in> held_clients s \<and> a \<noteq> Drop c) \<or> (\<exists>raw. a = Command c raw)"
proof (cases a)
  case (Command d raw)
  then show ?thesis using assms held_clients_command by (cases "c = d") auto
next
  case (FromExt msg tok)
  then show ?thesis using assms held_clients_ext by auto
next
  case (Drop d)
  then show ?thesis using assms held_clients_drop by auto
qed (use assms in \<open>simp add: held_clients_def set_extension_capabilities_def\<close>)

lemma run_held_clients:
  "relay_run s ops s' \<Longrightarrow> c \<in> held_clients s' \<Longrightarrow> (c \<in> held_clients s \<and> Drop c \<notin> set ops)
     \<or> (\<exists>before raw after. ops = before @ Command c raw # after \<and> Drop c \<notin> set after)"
proof (induction rule: relay_run.induct)
  case (relay_cons s a ops s')
  from relay_cons.IH [OF relay_cons.prems] show ?case
  proof (elim disjE conjE exE)
    assume "c \<in> held_clients (relay_step a s)" "Drop c \<notin> set ops"
    then show ?thesis
      using step_held_clients [of c a s] by (metis append_Nil list.set_intros(1) set_ConsD)
  next
    fix before raw after
    assume "ops = before @ Command c raw # after" "Drop c \<notin> set after"
    then show ?thesis by (metis append_Cons)
  qed
qed simp

text \<open>
  C14: Whatever clients and the extension send: ids of pending commands are pairwise
  distinct and were all issued; a group tag for a tab to come is kept only for a command
  that is still pending; every pending command, group and session name belongs to a client
  that has sent a command since it last disconnected, so nothing of a client stays after it
  leaves; and one tab session has at most one page record, whatever stale announcements
  arrive.
\<close>
theorem relay_invariant:
  assumes "relay_run new_relay ops s"
  shows "distinct (map fst (pending s))
    \<and> (\<forall>gid \<in> fst ` set (pending s). 0 < gid \<and> gid \<le> next_global_id s)
    \<and> fst ` set (pending_target_group s) \<subseteq> fst ` set (pending s)
    \<and> (\<forall>c. (\<exists>gid v. (gid, (c, v)) \<in> set (pending s)) \<or> (\<exists>g. (c, g) \<in> set (client_groups s))
           \<or> (\<exists>n. (c, n) \<in> set (client_sessions s)) \<longrightarrow>
         (\<exists>before raw after. ops = before @ Command c raw # after \<and> Drop c \<notin> set after))
    \<and> (\<forall>t e t' e'. map_of (targets s) t = Some e \<longrightarrow> map_of (targets s) t' = Some e' \<longrightarrow>
         e_parent e = None \<longrightarrow> e_parent e' = None \<longrightarrow> e_session e = e_session e' \<longrightarrow>
         e_session e \<noteq> [] \<longrightarrow> t = t')"
proof -
  have ok: "pending_ok s" "tabs_ok s"
    using relay_run_ok [OF assms new_relay_ok] by (simp_all add: relay_ok_def)
  have "t = t'" if "map_of (targets s) t = Some e" "map_of (targets s) t' = Some e'"
    "e_parent e = None" "e_parent e' = None" "e_session e = e_session e'" "e_session e \<noteq> []"
    for t t' e e'
  proof -
    have "page_of s (e_session e) t" "page_of s (e_session e) t'"
      using that by (simp_all add: page_of_def)
    then show ?thesis using ok(2) that(6) unfolding tabs_ok_def by blast
  qed
  note same = this
  have "\<exists>before raw after. ops = before @ Command c raw # after \<and> Drop c \<notin> set after"
    if "(\<exists>gid v. (gid, (c, v)) \<in> set (pending s)) \<or> (\<exists>g. (c, g) \<in> set (client_groups s))
      \<or> (\<exists>n. (c, n) \<in> set (client_sessions s))" for c
    using run_held_clients [OF assms, of c] that by (simp add: held_clients_def new_relay_def)
  note left = this
  have ids: "distinct (map fst (pending s))"
    "\<forall>gid \<in> fst ` set (pending s). 0 < gid \<and> gid \<le> next_global_id s"
    "fst ` set (pending_target_group s) \<subseteq> fst ` set (pending s)"
    using ok(1) by (simp_all add: pending_ok_def)
  show ?thesis
    by (intro conjI allI impI) (rule ids, rule ids, rule ids, erule left, rule same)
qed

lemma relay_invariant_witness:
  "distinct (map fst (pending (relay_step (Command 4 example_command) new_relay)))"
  using relay_invariant [of "[Command 4 example_command]"] by (simp add: new_relay_def)

section \<open>Tab records follow the extension\<close>

definition dropped_targets :: "(string \<times> string) list \<Rightarrow> relay \<Rightarrow> string list" where
  "dropped_targets held s = map fst (filter (\<lambda>(t, e). \<not> is_held held t e) (targets s))"

lemma dropped_iff: "t \<in> set (dropped_targets held s) \<longleftrightarrow> (\<exists>e. (t, e) \<in> set (targets s) \<and> \<not> is_held held t e)"
  by (auto simp: dropped_targets_def image_iff)

lemma dropped_record:
  assumes "distinct (map fst (targets s))" "(t, e) \<in> set (targets s)"
  shows "t \<in> set (dropped_targets held s) \<longleftrightarrow> \<not> is_held held t e"
  unfolding dropped_iff using assms by (metis eq_key_imp_eq_value)

lemma retain_targets:
  assumes "distinct (map fst (targets s))"
  shows "targets (retain_held_targets held s) = filter (\<lambda>(t, e). is_held held t e) (targets s)"
  unfolding retain_held_targets_def fold_drop_fields dropped_targets_def [symmetric] delete_all_filter
  using dropped_record [OF assms] by (intro filter_cong) auto

text \<open>A reported pair is one item with both fields.\<close>

lemma held_pairs_iff:
  "(t, c) \<in> set (held_pairs ts)
     \<longleftrightarrow> (\<exists>x \<in> set ts. get_str x ''targetId'' = Some t \<and> get_str x ''sessionId'' = Some c)"
  unfolding held_pairs_def
  by (induction ts) (auto simp: List.map_filter_simps split: option.split)

lemma is_held_iff:
  "is_held (held_pairs ts) t e \<longleftrightarrow>
     (case e_parent e of
        None \<Rightarrow> \<exists>x \<in> set ts. get_str x ''targetId'' = Some t \<and> get_str x ''sessionId'' = Some (e_session e)
      | Some p \<Rightarrow> \<exists>x \<in> set ts. get_str x ''targetId'' \<noteq> None \<and> get_str x ''sessionId'' = Some p)"
proof (cases "e_parent e")
  case (Some p)
  have "p \<in> snd ` set (held_pairs ts) \<longleftrightarrow> (\<exists>t. (t, p) \<in> set (held_pairs ts))" by force
  then show ?thesis by (simp add: is_held_def Some held_pairs_iff) blast
qed (simp add: is_held_def held_pairs_iff)

text \<open>
  C20: When the extension reports the tabs it holds, the relay's records are brought in step
  exactly: a page record stays if and only if some reported item names its target together
  with its session, and the record of a worker or iframe target stays if and only if some
  reported item names its parent's session. A target whose record goes loses its group tag,
  every other tag stays, nothing is sent, and no client's commands, groups or names change.
\<close>
theorem held_tabs_exact:
  assumes "relay_run new_relay ops s"
    and "get_str msg ''method'' = Some ''relayTargets''" "jget msg ''targets'' = Some (JArr ts)"
    and "handle_ext_message msg tok s = (out, s')"
  shows "out = []
    \<and> (\<forall>t e. (t, e) \<in> set (targets s') \<longleftrightarrow> (t, e) \<in> set (targets s) \<and>
         (case e_parent e of
            None \<Rightarrow> \<exists>x \<in> set ts. get_str x ''targetId'' = Some t \<and> get_str x ''sessionId'' = Some (e_session e)
          | Some p \<Rightarrow> \<exists>x \<in> set ts. get_str x ''targetId'' \<noteq> None \<and> get_str x ''sessionId'' = Some p))
    \<and> (\<forall>t. map_of (target_group s') t =
         (if map_of (targets s) t \<noteq> None \<and> map_of (targets s') t = None then None
          else map_of (target_group s) t))
    \<and> pending s' = pending s \<and> client_groups s' = client_groups s
    \<and> client_sessions s' = client_sessions s"
proof -
  let ?h = "held_pairs ts"
  let ?s = "retain_held_targets ?h s"
  have d: "distinct (map fst (targets s))"
    using relay_run_ok [OF assms(1) new_relay_ok] by (simp add: relay_ok_def tabs_ok_def)
  have h: "handle_ext_message msg tok s = ([], ?s)"
    using assms(2,3) by (simp add: handle_ext_message_def Let_def)
  have tg: "targets ?s = filter (\<lambda>(t, e). is_held ?h t e) (targets s)"
    by (rule retain_targets [OF d])
  have gone: "t \<in> set (dropped_targets ?h s) \<longleftrightarrow> map_of (targets s) t \<noteq> None \<and> map_of (targets ?s) t = None"
    for t
  proof -
    have "targets ?s = delete_all (dropped_targets ?h s) (targets s)"
      by (simp add: retain_held_targets_def dropped_targets_def)
    moreover have "map_of (targets s) t \<noteq> None" if "t \<in> set (dropped_targets ?h s)"
      using that unfolding dropped_iff by (auto simp: map_of_eq_None_iff intro: rev_image_eqI)
    ultimately show ?thesis by (auto simp: map_of_delete_all)
  qed
  have "map_of (target_group ?s) t = (if t \<in> set (dropped_targets ?h s) then None
      else map_of (target_group s) t)" for t
    unfolding retain_held_targets_def fold_drop_fields dropped_targets_def [symmetric]
      map_of_delete_all ..
  then have tags: "\<forall>t. map_of (target_group ?s) t =
      (if map_of (targets s) t \<noteq> None \<and> map_of (targets ?s) t = None then None
       else map_of (target_group s) t)"
    unfolding gone by blast
  have "\<forall>t e. (t, e) \<in> set (targets ?s) \<longleftrightarrow> (t, e) \<in> set (targets s) \<and>
      (case e_parent e of
         None \<Rightarrow> \<exists>x \<in> set ts. get_str x ''targetId'' = Some t \<and> get_str x ''sessionId'' = Some (e_session e)
       | Some p \<Rightarrow> \<exists>x \<in> set ts. get_str x ''targetId'' \<noteq> None \<and> get_str x ''sessionId'' = Some p)"
    unfolding tg by (simp add: is_held_iff)
  with tags show ?thesis
    using assms(4) unfolding h by (elim Pair_inject, hypsubst) (intro conjI refl retain_fields)
qed

text \<open>Two tabs and a worker of the first; then the extension reports the first tab under its
  session and the second under another one.\<close>

definition attach_event :: "string \<Rightarrow> string \<Rightarrow> json \<Rightarrow> json" where
  "attach_event t c ses = jobj [(''method'', JStr ''forwardCDPEvent''), (''params'', jobj
     [(''method'', JStr ''Target.attachedToTarget''), (''sessionId'', ses), (''params'', jobj
        [(''sessionId'', JStr c), (''targetInfo'', jobj [(''targetId'', JStr t)])])])]"

definition example_attached :: relay where
  "example_attached = new_relay\<lparr>targets :=
     [(''T1'', \<lparr> e_session = ''c1'', e_info = jobj [(''targetId'', JStr ''T1'')], e_parent = None \<rparr>),
      (''T2'', \<lparr> e_session = ''c2'', e_info = jobj [(''targetId'', JStr ''T2'')], e_parent = None \<rparr>),
      (''W1'', \<lparr> e_session = ''w1'', e_info = jobj [(''targetId'', JStr ''W1'')], e_parent = Some ''c1'' \<rparr>)]\<rparr>"

lemma example_attached_run: "relay_run new_relay [FromExt (attach_event ''T1'' ''c1'' JNull) ''tok'',
    FromExt (attach_event ''T2'' ''c2'' JNull) ''tok'', FromExt (attach_event ''W1'' ''w1'' (JStr ''c1'')) ''tok'']
    example_attached"
  unfolding relay_run_simps by code_simp

definition example_report :: "json list" where
  "example_report = [jobj [(''targetId'', JStr ''T1''), (''sessionId'', JStr ''c1'')],
     jobj [(''targetId'', JStr ''T2''), (''sessionId'', JStr ''c9'')]]"

definition example_held :: json where
  "example_held = jobj [(''method'', JStr ''relayTargets''), (''targets'', JArr example_report)]"

lemma example_held_fields:
  "get_str example_held ''method'' = Some ''relayTargets''"
  "jget example_held ''targets'' = Some (JArr example_report)"
  by (simp_all add: example_held_def get_str_def)

definition example_kept :: relay where
  "example_kept = example_attached\<lparr>targets :=
     filter (\<lambda>(t, e). t \<noteq> ''T2'') (targets example_attached)\<rparr>"

lemma held_tabs_exact_witness:
  "(''W1'', \<lparr> e_session = ''w1'', e_info = jobj [(''targetId'', JStr ''W1'')], e_parent = Some ''c1'' \<rparr>)
      \<in> set (targets example_kept)
    \<and> (''T2'', \<lparr> e_session = ''c2'', e_info = jobj [(''targetId'', JStr ''T2'')], e_parent = None \<rparr>)
      \<notin> set (targets example_kept)"
proof -
  have "handle_ext_message example_held ''tok'' example_attached = ([], example_kept)"
    by code_simp
  note k = held_tabs_exact [OF example_attached_run example_held_fields this,
      THEN conjunct2, THEN conjunct1, rule_format]
  show ?thesis
    unfolding k by (simp add: example_attached_def example_report_def get_str_def)
qed

text \<open>The iframe sessions below a session.\<close>

inductive below :: "(string \<times> string) list \<Rightarrow> string \<Rightarrow> string \<Rightarrow> bool" for parents c where
  below_child: "(i, c) \<in> set parents \<Longrightarrow> below parents c i"
| below_step: "below parents c p \<Longrightarrow> (i, p) \<in> set parents \<Longrightarrow> below parents c i"

text \<open>Between two rounds: what is left was there, what has gone is below, and every iframe
  that has been removed is among the sessions that have gone.\<close>

definition forget_inv ::
  "(string \<times> string) list \<Rightarrow> string set \<Rightarrow> string \<Rightarrow> string list \<Rightarrow> (string \<times> string) list
     \<Rightarrow> string set \<Rightarrow> bool" where
  "forget_inv orig sess c gone parents sessions \<longleftrightarrow> set parents \<subseteq> set orig \<and> c \<in> set gone
     \<and> (\<forall>g \<in> set gone. g = c \<or> below orig c g)
     \<and> (\<forall>(i, p) \<in> set orig - set parents. i \<in> set gone \<and> below orig c i)
     \<and> sessions = sess - fst ` (set orig - set parents)"

lemma children_iff: "i \<in> set (children_of gone parents) \<longleftrightarrow> (\<exists>p \<in> set gone. (i, p) \<in> set parents)"
  by (auto simp: children_of_def image_iff)

lemma forget_inv_step:
  assumes inv: "forget_inv orig sess c gone parents sessions"
  shows "forget_inv orig sess c (children_of gone parents @ gone)
    (delete_all (children_of gone parents) parents) (sessions - set (children_of gone parents))"
proof -
  let ?ch = "children_of gone parents"
  have ch: "below orig c g" if g: "g \<in> set ?ch" for g
  proof -
    obtain p where "p \<in> set gone" "(g, p) \<in> set parents" using g unfolding children_iff by blast
    moreover from this have "(g, p) \<in> set orig" "p = c \<or> below orig c p"
      using inv unfolding forget_inv_def by blast+
    ultimately show ?thesis
      by (metis below_child below_step)
  qed
  have left: "set orig - set (delete_all ?ch parents)
      = (set orig - set parents) \<union> {(i, p) \<in> set parents. i \<in> set ?ch}"
    using inv by (auto simp: forget_inv_def set_delete_all)
  have keys: "fst ` {(i, p) \<in> set parents. i \<in> set ?ch} = set ?ch"
    unfolding children_iff by (auto simp: children_iff image_iff)
  have "sessions - set ?ch = sess - fst ` (set orig - set (delete_all ?ch parents))"
    using inv unfolding left image_Un keys forget_inv_def by blast
  moreover have "i \<in> set (?ch @ gone) \<and> below orig c i"
    if "(i, p) \<in> set orig - set (delete_all ?ch parents)" for i p
    using that inv ch unfolding left forget_inv_def by auto blast+
  moreover have "set (delete_all ?ch parents) \<subseteq> set orig"
    using inv by (auto simp: forget_inv_def set_delete_all)
  ultimately show ?thesis
    using inv ch unfolding forget_inv_def by auto
qed

lemma forget_inv_end:
  assumes inv: "forget_inv orig sess c gone parents sessions" and d: "distinct (map fst orig)"
    and fin: "children_of gone parents = []"
  shows "set parents = {(i, p) \<in> set orig. \<not> below orig c i}"
    "sessions = sess - {i. below orig c i}"
proof -
  have no: "p \<notin> set gone" if "(i, p) \<in> set parents" for i p
    using children_iff [of i gone parents] fin that by auto
  have uniq: "p' = p" if "(i, p) \<in> set orig" "(i, p') \<in> set orig" for i p p'
    using that d by (metis eq_key_imp_eq_value)
  have out: "i \<in> set gone \<and> (i, p') \<notin> set parents" if "(i, p) \<in> set orig" "p \<in> set gone" for i p p'
  proof -
    have "(i, p) \<notin> set parents" using no that by blast
    then have "i \<in> set gone" using inv that unfolding forget_inv_def by blast
    moreover have "(i, p') \<notin> set parents"
      using \<open>(i, p) \<notin> set parents\<close> inv uniq [OF that(1)] unfolding forget_inv_def by blast
    ultimately show ?thesis by blast
  qed
  have gone: "i \<in> set gone \<and> (\<forall>p. (i, p) \<notin> set parents)" if "below orig c i" for i
    using that
  proof induction
    case (below_child i)
    have "c \<in> set gone" using inv unfolding forget_inv_def by blast
    then show ?case using out [OF below_child] by blast
  next
    case (below_step p i)
    then show ?case using out by blast
  qed
  show "set parents = {(i, p) \<in> set orig. \<not> below orig c i}"
    using inv gone unfolding forget_inv_def by blast
  have "fst ` (set orig - set parents) = {i. below orig c i}"
  proof
    show "fst ` (set orig - set parents) \<subseteq> {i. below orig c i}"
      using inv unfolding forget_inv_def by fastforce
    show "{i. below orig c i} \<subseteq> fst ` (set orig - set parents)"
    proof
      fix i assume "i \<in> {i. below orig c i}"
      then obtain p where "(i, p) \<in> set orig" "(i, p) \<notin> set parents"
        using gone by (auto elim: below.cases)
      then show "i \<in> fst ` (set orig - set parents)" by force
    qed
  qed
  then show "sessions = sess - {i. below orig c i}"
    using inv unfolding forget_inv_def by blast
qed

lemma forget_loop_exact:
  assumes "forget_inv orig sess c gone parents sessions" "distinct (map fst orig)"
  shows "set (fst (forget_loop gone parents sessions)) = {(i, p) \<in> set orig. \<not> below orig c i}
    \<and> snd (forget_loop gone parents sessions) = sess - {i. below orig c i}"
  using assms
proof (induction gone parents sessions rule: forget_loop.induct)
  case (1 gone parents sessions)
  show ?case
  proof (cases "children_of gone parents = []")
    case True
    then show ?thesis
      using forget_inv_end [OF "1.prems" True] by (simp add: forget_loop.simps [of gone])
  next
    case False
    then show ?thesis
      using "1.IH" [OF refl False forget_inv_step [OF "1.prems"(1)] "1.prems"(2)]
      by (simp add: forget_loop.simps [of gone] Let_def)
  qed
qed

lemma forget_iframe_exact:
  assumes "distinct (map fst (oopif_parents s))"
  shows "set (oopif_parents (forget_iframe_children c s))
      = {(i, p) \<in> set (oopif_parents s). \<not> below (oopif_parents s) c i}"
    "oopif_sessions (forget_iframe_children c s)
      = oopif_sessions s - {i. below (oopif_parents s) c i}"
proof -
  have inv: "forget_inv (oopif_parents s) (oopif_sessions s) c [c] (oopif_parents s) (oopif_sessions s)"
    by (auto simp: forget_inv_def)
  show "set (oopif_parents (forget_iframe_children c s))
      = {(i, p) \<in> set (oopif_parents s). \<not> below (oopif_parents s) c i}"
    "oopif_sessions (forget_iframe_children c s)
      = oopif_sessions s - {i. below (oopif_parents s) c i}"
    using forget_loop_exact [OF inv assms]
    by (simp_all add: forget_iframe_children_def split: prod.split) (metis fst_conv, metis snd_conv)
qed

text \<open>
  C39: When a tab's session detaches, the tab goes and nothing else does: a target record
  stays if and only if it is neither of that session nor a child of it; the targets whose
  records go lose their group tags and every other tag stays; the iframe sessions below that
  session, at any depth, are forgotten and no others; and nothing else of the relay changes
  (records and parents keyed by distinct ids, as the code's hash maps are).
\<close>
theorem detach_clears_tab:
  assumes "distinct (map fst (targets s))" "distinct (map fst (oopif_parents s))"
    and "get_str params ''sessionId'' = Some c" "c \<notin> oopif_sessions s"
    and "detached m params ses s = (out, s')"
  shows "out = []
    \<and> (\<forall>t e. (t, e) \<in> set (targets s')
         \<longleftrightarrow> (t, e) \<in> set (targets s) \<and> e_session e \<noteq> c \<and> e_parent e \<noteq> Some c)
    \<and> (\<forall>t. map_of (target_group s') t =
         (if \<exists>e. (t, e) \<in> set (targets s) \<and> (e_session e = c \<or> e_parent e = Some c) then None
          else map_of (target_group s) t))
    \<and> set (oopif_parents s') = {(i, p) \<in> set (oopif_parents s). \<not> below (oopif_parents s) c i}
    \<and> oopif_sessions s' = oopif_sessions s - {i. below (oopif_parents s) c i}
    \<and> s' = s\<lparr>targets := targets s', target_group := target_group s',
         oopif_parents := oopif_parents s', oopif_sessions := oopif_sessions s'\<rparr>"
proof -
  let ?s1 = "forget_iframe_children c s" and ?ts = "gone_targets c s"
  let ?s = "?s1\<lparr>target_group := delete_all ?ts (target_group ?s1), targets := delete_all ?ts (targets ?s1)\<rparr>"
  have "detached m params ses s = ([], ?s)"
    using assms(3,4) by (simp add: detached_def Let_def)
  then have out: "out = []" and s': "s' = ?s"
    using assms(5) by simp_all
  have gone: "t \<in> set ?ts \<longleftrightarrow> (\<exists>e. (t, e) \<in> set (targets s) \<and> (e_session e = c \<or> e_parent e = Some c))"
    for t by (auto simp: gone_targets_def image_iff)
  have "(t, e) \<in> set (targets s')
      \<longleftrightarrow> (t, e) \<in> set (targets s) \<and> e_session e \<noteq> c \<and> e_parent e \<noteq> Some c" for t e
    using eq_key_imp_eq_value [OF assms(1)] by (auto simp: s' set_delete_all gone)
  note recs = this
  have tags: "map_of (target_group s') t =
      (if \<exists>e. (t, e) \<in> set (targets s) \<and> (e_session e = c \<or> e_parent e = Some c) then None
       else map_of (target_group s) t)" for t
    by (simp add: s' map_of_delete_all gone)
  have "oopif_parents s' = oopif_parents ?s1" "oopif_sessions s' = oopif_sessions ?s1"
    by (simp_all add: s')
  note frames = forget_iframe_exact [OF assms(2), of c, folded this]
  have rest: "s' = s\<lparr>targets := targets s', target_group := target_group s',
      oopif_parents := oopif_parents s', oopif_sessions := oopif_sessions s'\<rparr>"
    by (simp add: s' forget_iframe_children_def split: prod.split)
  show ?thesis
    by (intro conjI allI) (rule out recs tags frames rest)+
qed

definition example_detach :: relay where
  "example_detach = example_attached\<lparr>oopif_parents := [(''f2'', ''f1''), (''f1'', ''c1''), (''f3'', ''c2'')],
     oopif_sessions := {''f1'', ''f2'', ''f3''}\<rparr>"

definition example_detached :: relay where
  "example_detached = example_detach\<lparr>targets := filter (\<lambda>(t, e). t = ''T2'') (targets example_detach),
     oopif_parents := [(''f3'', ''c2'')], oopif_sessions := {''f3''}\<rparr>"

lemma detach_clears_tab_witness:
  "{''f3''} = {''f1'', ''f2'', ''f3''} - {i. below [(''f2'', ''f1''), (''f1'', ''c1''), (''f3'', ''c2'')] ''c1'' i}"
proof -
  have "distinct (map fst (targets example_detach))" "distinct (map fst (oopif_parents example_detach))"
    "get_str (jobj [(''sessionId'', JStr ''c1'')]) ''sessionId'' = Some ''c1''"
    "''c1'' \<notin> oopif_sessions example_detach"
    by (simp_all add: example_detach_def example_attached_def get_str_def)
  moreover have "detached ''Target.detachedFromTarget'' (jobj [(''sessionId'', JStr ''c1'')]) None example_detach
      = ([], example_detached)"
    by code_simp
  ultimately have "oopif_sessions example_detached = oopif_sessions example_detach
      - {i. below (oopif_parents example_detach) ''c1'' i}"
    by (rule detach_clears_tab [THEN conjunct2, THEN conjunct2, THEN conjunct2, THEN conjunct2, THEN conjunct1])
  then show ?thesis by (simp add: example_detach_def example_detached_def)
qed

end
