(* ===== verification/TrackedRequests.thy ===== *)
theory TrackedRequests
  imports Json
begin

text \<open>
  The daemon's log of tracked requests: \<open>native/tracked_requests.rs\<close>, and what
  \<open>native/actions.rs\<close> does with it (recording the three \<open>Network\<close> events, listing,
  the detail of one request, and the \<open>expect request\<close> condition). The log keeps the
  newest 1000 entries, cuts what one entry may hold, and counts positions from the start of
  the daemon, so that a mark taken before entries were evicted still names the same point.

  An abstract log remembers everything that was ever recorded and where it was last cleared;
  the refinement lemmas show that every answer of the log is the answer computed from that
  history. A JSON value that is no string is measured by its printed text, so the printer is
  the parameter \<open>sj\<close>. Sequence numbers are \<open>nat\<close>: a \<open>u64\<close> of them does not wrap
  before 2 ^ 64 requests.
\<close>


section \<open>Entries and their caps\<close>

record tracked_request =
  tq_session :: "string option"
  tq_url :: string
  tq_method :: string
  tq_headers :: json
  tq_timestamp :: nat
  tq_type :: string
  tq_id :: string
  tq_post :: "string option"
  tq_status :: "int option"
  tq_resp_headers :: "json option"
  tq_mime :: "string option"
  tq_truncated :: "string list"

record tracked_requests =
  tl_entries :: "tracked_request list"
  tl_start :: nat
  tl_cleared :: nat
  tl_evicted_ids :: "string list"

definition no_requests :: tracked_requests where
  "no_requests = \<lparr> tl_entries = [], tl_start = 0, tl_cleared = 0, tl_evicted_ids = [] \<rparr>"

definition max_tracked_requests :: nat where
  "max_tracked_requests = 1000"

definition max_post_data_bytes :: nat where
  "max_post_data_bytes = 64 * 1024"

definition max_header_bytes :: nat where
  "max_header_bytes = 16 * 1024"

text \<open>The loop that moves back to a character boundary; index 0 is one.\<close>

primrec boundary_from :: "string \<Rightarrow> nat \<Rightarrow> nat" where
  "boundary_from s 0 = 0"
| "boundary_from s (Suc n) =
     (if is_char_boundary s (Suc n) then Suc n else boundary_from s n)"

definition truncate_at_boundary :: "string \<Rightarrow> nat \<Rightarrow> string \<times> bool" where
  "truncate_at_boundary s limit =
     (if length s \<le> limit then (s, False) else (take (boundary_from s limit) s, True))"

definition value_size :: "(json \<Rightarrow> string) \<Rightarrow> json \<Rightarrow> nat" where
  "value_size sj v = (case as_str v of Some s \<Rightarrow> length s | None \<Rightarrow> length (sj v))"

definition headers_size :: "(json \<Rightarrow> string) \<Rightarrow> obj \<Rightarrow> nat" where
  "headers_size sj m = sum_list (map (\<lambda>(k, v). length k + value_size sj v) m)"

fun keep_headers :: "(json \<Rightarrow> string) \<Rightarrow> nat \<Rightarrow> obj \<Rightarrow> obj \<Rightarrow> obj" where
  "keep_headers sj remaining [] kept = kept"
| "keep_headers sj remaining ((name, v) # m) kept =
     (let need = length name + value_size sj v
      in if need \<le> remaining
         then keep_headers sj (remaining - need) m (obj_insert name v kept)
         else if length name < remaining
         then (case v of
                 JStr s \<Rightarrow>
                   obj_insert name
                     (JStr (fst (truncate_at_boundary s (remaining - length name)))) kept
               | _ \<Rightarrow> kept)
         else kept)"

definition cap_headers :: "(json \<Rightarrow> string) \<Rightarrow> json \<Rightarrow> nat \<Rightarrow> json \<times> bool" where
  "cap_headers sj headers limit =
     (case headers of
        JObj m \<Rightarrow>
          if headers_size sj m \<le> limit then (headers, False)
          else (JObj (keep_headers sj limit m []), True)
      | _ \<Rightarrow> (headers, False))"

definition note_truncated :: "string \<Rightarrow> tracked_request \<Rightarrow> tracked_request" where
  "note_truncated field r =
     (if field \<in> set (tq_truncated r) then r
      else r\<lparr>tq_truncated := tq_truncated r @ [field]\<rparr>)"

definition cap_post :: "tracked_request \<Rightarrow> tracked_request" where
  "cap_post r =
     (case tq_post r of
        None \<Rightarrow> r
      | Some p \<Rightarrow>
          (let (p', cut) = truncate_at_boundary p max_post_data_bytes;
               r1 = r\<lparr>tq_post := Some p'\<rparr>
           in if cut then note_truncated ''postData'' r1 else r1))"

definition cap_request_headers ::
  "(json \<Rightarrow> string) \<Rightarrow> tracked_request \<Rightarrow> tracked_request" where
  "cap_request_headers sj r =
     (let (h, cut) = cap_headers sj (tq_headers r) max_header_bytes;
          r1 = r\<lparr>tq_headers := h\<rparr>
      in if cut then note_truncated ''headers'' r1 else r1)"

definition cap_response_headers ::
  "(json \<Rightarrow> string) \<Rightarrow> tracked_request \<Rightarrow> tracked_request" where
  "cap_response_headers sj r =
     (case tq_resp_headers r of
        None \<Rightarrow> r
      | Some v \<Rightarrow>
          (let (h, cut) = cap_headers sj v max_header_bytes;
               r1 = r\<lparr>tq_resp_headers := Some h\<rparr>
           in if cut then note_truncated ''responseHeaders'' r1 else r1))"

definition cap_entry :: "(json \<Rightarrow> string) \<Rightarrow> tracked_request \<Rightarrow> tracked_request" where
  "cap_entry sj r = cap_response_headers sj (cap_request_headers sj (cap_post r))"

section \<open>The log\<close>

definition push_request ::
  "(json \<Rightarrow> string) \<Rightarrow> tracked_request \<Rightarrow> tracked_requests \<Rightarrow> tracked_requests" where
  "push_request sj request s =
     (let r = cap_entry sj request;
          s1 = (if max_tracked_requests \<le> length (tl_entries s)
                then (case tl_entries s of
                        [] \<Rightarrow> s
                      | old # rest \<Rightarrow>
                          s\<lparr>tl_entries := rest, tl_start := tl_start s + 1,
                            tl_evicted_ids :=
                              (if max_tracked_requests \<le> length (tl_evicted_ids s)
                               then tl (tl_evicted_ids s) else tl_evicted_ids s) @ [tq_id old]\<rparr>)
                else s)
      in s1\<lparr>tl_entries := tl_entries s1 @ [r]\<rparr>)"

definition clear_requests :: "tracked_requests \<Rightarrow> tracked_requests" where
  "clear_requests s =
     (let n = tl_start s + length (tl_entries s)
      in \<lparr> tl_entries = [], tl_start = n, tl_cleared = n, tl_evicted_ids = [] \<rparr>)"

definition mark_requests :: "tracked_requests \<Rightarrow> nat" where
  "mark_requests s = tl_start s + length (tl_entries s)"

text \<open>\<open>saturating_sub\<close> is the subtraction of \<open>nat\<close>.\<close>

definition requests_since :: "nat \<Rightarrow> tracked_requests \<Rightarrow> tracked_request list \<times> nat" where
  "requests_since m s =
     (drop (m - tl_start s) (tl_entries s), tl_start s - max m (tl_cleared s))"

definition evicted_requests :: "tracked_requests \<Rightarrow> nat" where
  "evicted_requests s = tl_start s - tl_cleared s"

definition was_evicted :: "string \<Rightarrow> tracked_requests \<Rightarrow> bool" where
  "was_evicted i s \<longleftrightarrow> i \<in> set (tl_evicted_ids s)"

section \<open>What the events write\<close>

record cdp_event =
  ev_method :: string
  ev_params :: json
  ev_session :: "string option"

definition sent_request :: "nat \<Rightarrow> cdp_event \<Rightarrow> json \<Rightarrow> tracked_request" where
  "sent_request now e request =
     \<lparr> tq_session = ev_session e,
       tq_url = unwrap_or [] (get_str request ''url''),
       tq_method = unwrap_or ''GET'' (get_str request ''method''),
       tq_headers = unwrap_or (jobj []) (jget request ''headers''),
       tq_timestamp = now,
       tq_type = unwrap_or ''Other'' (get_str (ev_params e) ''type''),
       tq_id = unwrap_or [] (get_str (ev_params e) ''requestId''),
       tq_post = get_str request ''postData'',
       tq_status = None, tq_resp_headers = None, tq_mime = None, tq_truncated = [] \<rparr>"

definition socket_request :: "nat \<Rightarrow> cdp_event \<Rightarrow> tracked_request" where
  "socket_request now e =
     \<lparr> tq_session = ev_session e,
       tq_url = unwrap_or [] (get_str (ev_params e) ''url''),
       tq_method = ''GET'',
       tq_headers = jobj [],
       tq_timestamp = now,
       tq_type = ''WebSocket'',
       tq_id = unwrap_or [] (get_str (ev_params e) ''requestId''),
       tq_post = None,
       tq_status = None, tq_resp_headers = None, tq_mime = None, tq_truncated = [] \<rparr>"

text \<open>\<open>iter_mut().rev().find(..)\<close>: the newest entry that matches is changed in place.\<close>

fun update_first :: "('a \<Rightarrow> bool) \<Rightarrow> ('a \<Rightarrow> 'a) \<Rightarrow> 'a list \<Rightarrow> 'a list" where
  "update_first P f [] = []"
| "update_first P f (x # xs) = (if P x then f x # xs else x # update_first P f xs)"

definition update_newest :: "('a \<Rightarrow> bool) \<Rightarrow> ('a \<Rightarrow> 'a) \<Rightarrow> 'a list \<Rightarrow> 'a list" where
  "update_newest P f xs = rev (update_first P f (rev xs))"

definition answered :: "(json \<Rightarrow> string) \<Rightarrow> json \<Rightarrow> tracked_request \<Rightarrow> tracked_request" where
  "answered sj response r =
     cap_entry sj
       (r\<lparr>tq_status := Option.bind (jget response ''status'') as_i64,
          tq_mime := get_str response ''mimeType'',
          tq_resp_headers := jget response ''headers''\<rparr>)"

definition answers_request :: "cdp_event \<Rightarrow> tracked_request \<Rightarrow> bool" where
  "answers_request e r \<longleftrightarrow>
     tq_id r = unwrap_or [] (get_str (ev_params e) ''requestId'')
     \<and> tq_session r = ev_session e"

definition response_received ::
  "(json \<Rightarrow> string) \<Rightarrow> cdp_event \<Rightarrow> json \<Rightarrow> tracked_requests \<Rightarrow> tracked_requests" where
  "response_received sj e response s =
     s\<lparr>tl_entries := update_newest (answers_request e) (answered sj response) (tl_entries s)\<rparr>"

definition track_event ::
  "(json \<Rightarrow> string) \<Rightarrow> nat \<Rightarrow> cdp_event \<Rightarrow> tracked_requests \<Rightarrow> tracked_requests" where
  "track_event sj now e s =
     (if ev_method e = ''Network.requestWillBeSent''
      then (case jget (ev_params e) ''request'' of
              Some request \<Rightarrow> push_request sj (sent_request now e request) s
            | None \<Rightarrow> s)
      else if ev_method e = ''Network.webSocketCreated''
      then push_request sj (socket_request now e) s
      else if ev_method e = ''Network.responseReceived''
      then (case jget (ev_params e) ''response'' of
              Some response \<Rightarrow> response_received sj e response s
            | None \<Rightarrow> s)
      else s)"

section \<open>Filters and the commands that read the log\<close>

text \<open>The division of \<open>i64\<close>, which truncates.\<close>

definition tdiv :: "int \<Rightarrow> int \<Rightarrow> int" where
  "tdiv a b = (if 0 \<le> a then a div b else - ((- a) div b))"

definition matches_status_filter :: "unicode \<Rightarrow> int option \<Rightarrow> string \<Rightarrow> bool" where
  "matches_status_filter u status f0 =
     (case status of
        None \<Rightarrow> False
      | Some code \<Rightarrow>
          (let f = lowercase u f0
           in case parse_i64 f of
                Some exact \<Rightarrow> code = exact
              | None \<Rightarrow>
                  (case (if length f = 3 \<and> ends_with f ''xx''
                         then parse_i64 (take 1 f) else None) of
                     Some p \<Rightarrow> tdiv code 100 = p
                   | None \<Rightarrow>
                       (case split_once (CHR 0x2D) f of
                          Some (a, b) \<Rightarrow>
                            (case (parse_i64 a, parse_i64 b) of
                               (Some lo, Some hi) \<Rightarrow> lo \<le> code \<and> code \<le> hi
                             | _ \<Rightarrow> False)
                        | None \<Rightarrow> False))))"

definition request_matches ::
  "unicode \<Rightarrow> tracked_request \<Rightarrow> string option \<Rightarrow> string option \<Rightarrow> string option \<Rightarrow> string list
    \<Rightarrow> bool" where
  "request_matches u r flt meth status types \<longleftrightarrow>
     (case flt of Some f \<Rightarrow> contains (tq_url r) f | None \<Rightarrow> True)
     \<and> (types = [] \<or> lowercase u (tq_type r) \<in> set types)
     \<and> (case meth of Some m \<Rightarrow> eq_ignore_ascii_case (tq_method r) m | None \<Rightarrow> True)
     \<and> (case status of Some t \<Rightarrow> matches_status_filter u (tq_status r) t | None \<Rightarrow> True)"

definition compare_count :: "string \<Rightarrow> nat \<Rightarrow> nat \<Rightarrow> bool" where
  "compare_count op actual expected =
     (if op = ''eq'' then actual = expected
      else if op = ''ne'' then actual \<noteq> expected
      else if op = ''gt'' then actual > expected
      else if op = ''lt'' then actual < expected
      else if op = ''ge'' then actual \<ge> expected
      else if op = ''le'' then actual \<le> expected
      else False)"

text \<open>The regular expressions are a library's: \<open>rx\<close> is \<open>None\<close> for an invalid pattern.\<close>

definition predicate_match ::
  "(string \<Rightarrow> (string \<Rightarrow> bool) option) \<Rightarrow> string \<Rightarrow> string \<Rightarrow> string \<Rightarrow> bool \<Rightarrow> bool" where
  "predicate_match rx predicate haystack needle regex =
     (if regex \<or> predicate = ''matches''
      then (case rx needle of Some m \<Rightarrow> m haystack | None \<Rightarrow> False)
      else if predicate = ''equals'' then haystack = needle
      else if predicate = ''contains'' then contains haystack needle
      else False)"

definition type_list :: "unicode \<Rightarrow> json \<Rightarrow> string list" where
  "type_list u cmd =
     (case get_str cmd ''type'' of
        Some t \<Rightarrow> map (\<lambda>s. lowercase u (trim s)) (split_on (CHR 0x2C) t)
      | None \<Rightarrow> [])"

definition selects :: "unicode \<Rightarrow> json \<Rightarrow> tracked_request \<Rightarrow> bool" where
  "selects u cmd r =
     request_matches u r (get_str cmd ''filter'') (get_str cmd ''method'') (get_str cmd ''status'')
       (type_list u cmd)"

text \<open>The serialized entry; the session stays inside the daemon.\<close>

definition optional_field :: "string \<Rightarrow> json option \<Rightarrow> (string \<times> json) list" where
  "optional_field k v = (case v of Some x \<Rightarrow> [(k, x)] | None \<Rightarrow> [])"

definition request_json :: "tracked_request \<Rightarrow> json" where
  "request_json r = jobj
     ([(''url'', JStr (tq_url r)), (''method'', JStr (tq_method r)), (''headers'', tq_headers r),
       (''timestamp'', JNum (JInt (int (tq_timestamp r)))), (''resourceType'', JStr (tq_type r)),
       (''requestId'', JStr (tq_id r))]
      @ optional_field ''postData'' (map_option JStr (tq_post r))
      @ optional_field ''status'' (map_option (JNum \<circ> JInt) (tq_status r))
      @ optional_field ''responseHeaders'' (tq_resp_headers r)
      @ optional_field ''mimeType'' (map_option JStr (tq_mime r))
      @ (if tq_truncated r = [] then [] else [(''truncated'', JArr (map JStr (tq_truncated r)))]))"

text \<open>\<open>network requests\<close>; \<open>origin\<close> is the page's URL when it could be read.\<close>

definition handle_requests ::
  "unicode \<Rightarrow> string option \<Rightarrow> json \<Rightarrow> tracked_requests \<Rightarrow> json \<times> tracked_requests" where
  "handle_requests u origin cmd s =
     (if Option.bind (jget cmd ''clear'') as_bool = Some True
      then (jobj [(''cleared'', JBool True)], clear_requests s)
      else
        (let response =
               jobj [(''requests'', JArr (map request_json (filter (selects u cmd) (tl_entries s))))];
             response1 =
               (case filter_opt (\<lambda>o1. o1 \<noteq> []) origin of
                  Some o1 \<Rightarrow> jset ''origin'' (JStr o1) response
                | None \<Rightarrow> response);
             evicted = evicted_requests s
         in (if 0 < evicted then jset ''evicted'' (JNum (JInt (int evicted))) response1
             else response1, s)))"





text \<open>\<open>expect request\<close>.\<close>

definition expect_request :: "unicode \<Rightarrow> json \<Rightarrow> tracked_requests \<Rightarrow> bool \<times> nat" where
  "expect_request u cmd s =
     (let n = length (filter (selects u cmd) (tl_entries s))
      in (case Option.bind (jget cmd ''count'') as_u64 of
            Some want \<Rightarrow> n = want
          | None \<Rightarrow> 1 \<le> n, n))"

section \<open>What one entry may hold\<close>

lemma boundary_from_le: "boundary_from s n \<le> n"
  by (induction n) auto

lemma boundary_from_boundary: "is_char_boundary s (boundary_from s n)"
  by (induction n) (auto simp: is_char_boundary_def)

lemma truncate_length: "length (fst (truncate_at_boundary s n)) \<le> n"
  using boundary_from_le [of s n] by (auto simp: truncate_at_boundary_def)

lemma headers_size_insert:
  "headers_size sj (obj_insert k v m) \<le> headers_size sj m + length k + value_size sj v"
  by (induction k v m rule: obj_insert.induct) (auto simp: headers_size_def)

lemma value_size_truncated: "value_size sj (JStr (fst (truncate_at_boundary s n))) \<le> n"
  using truncate_length [of s n] by (simp add: value_size_def)

lemma keep_headers_size:
  "headers_size sj (keep_headers sj remaining m kept) \<le> headers_size sj kept + remaining"
proof (induction sj remaining m kept rule: keep_headers.induct)
  case (1 sj remaining kept)
  then show ?case by simp
next
  case (2 sj remaining name v m kept)
  let ?need = "length name + value_size sj v"
  show ?case
  proof (cases "?need \<le> remaining")
    case True
    then show ?thesis
      using 2 [OF refl True] headers_size_insert [of sj name v kept] by (simp add: Let_def)
  next
    case False
    show ?thesis
    proof (cases v)
      case (JStr s)
      let ?t = "JStr (fst (truncate_at_boundary s (remaining - length name)))"
      show ?thesis
        using False JStr headers_size_insert [of sj name ?t kept]
          value_size_truncated [of sj s "remaining - length name"]
        by (auto simp: Let_def)
    qed (use False in \<open>simp_all add: Let_def\<close>)
  qed
qed

definition capped_headers :: "(json \<Rightarrow> string) \<Rightarrow> json \<Rightarrow> bool" where
  "capped_headers sj v =
     (case v of JObj m \<Rightarrow> headers_size sj m \<le> max_header_bytes | _ \<Rightarrow> True)"

definition capped :: "(json \<Rightarrow> string) \<Rightarrow> tracked_request \<Rightarrow> bool" where
  "capped sj r \<longleftrightarrow>
     (case tq_post r of Some p \<Rightarrow> length p \<le> max_post_data_bytes | None \<Rightarrow> True)
     \<and> capped_headers sj (tq_headers r)
     \<and> (case tq_resp_headers r of Some v \<Rightarrow> capped_headers sj v | None \<Rightarrow> True)"

lemma cap_headers_capped: "capped_headers sj (fst (cap_headers sj v max_header_bytes))"
  using keep_headers_size [of sj max_header_bytes _ "[]"]
  by (auto simp: cap_headers_def capped_headers_def headers_size_def split: json.splits)

lemma note_truncated_sel [simp]:
  "tq_post (note_truncated f r) = tq_post r" "tq_headers (note_truncated f r) = tq_headers r"
  "tq_resp_headers (note_truncated f r) = tq_resp_headers r" "tq_id (note_truncated f r) = tq_id r"
  "tq_session (note_truncated f r) = tq_session r" "tq_url (note_truncated f r) = tq_url r"
  "tq_method (note_truncated f r) = tq_method r" "tq_type (note_truncated f r) = tq_type r"
  "tq_status (note_truncated f r) = tq_status r"
  by (simp_all add: note_truncated_def)

lemmas cap_defs = cap_entry_def cap_post_def cap_request_headers_def cap_response_headers_def

lemma cap_entry_id [simp]: "tq_id (cap_entry sj r) = tq_id r"
  by (simp add: cap_defs Let_def split: prod.split option.split)

lemma cap_entry_fields:
  "tq_headers (cap_entry sj r) = fst (cap_headers sj (tq_headers r) max_header_bytes)"
  "tq_post (cap_entry sj r) =
     map_option (\<lambda>p. fst (truncate_at_boundary p max_post_data_bytes)) (tq_post r)"
  "tq_resp_headers (cap_entry sj r) =
     map_option (\<lambda>v. fst (cap_headers sj v max_header_bytes)) (tq_resp_headers r)"
  by (auto simp: cap_defs Let_def split: prod.split option.split)

lemma cap_entry_capped: "capped sj (cap_entry sj r)"
  by (auto simp: capped_def cap_entry_fields cap_headers_capped truncate_length split: option.split)

section \<open>The log as a bounded log\<close>

lemma push_entries:
  "tl_entries (push_request sj r s) =
     (if max_tracked_requests \<le> length (tl_entries s) then tl (tl_entries s) else tl_entries s)
       @ [cap_entry sj r]"
  by (cases "tl_entries s") (simp_all add: push_request_def Let_def)

interpretation rl: total_log tl_entries "push_request sj" "\<lambda>_ _. True" "cap_entry sj"
    max_tracked_requests for sj
  by unfold_locales (simp_all add: push_entries max_tracked_requests_def)

definition log_ok :: "(json \<Rightarrow> string) \<Rightarrow> tracked_requests \<Rightarrow> bool" where
  "log_ok sj s \<longleftrightarrow> length (tl_entries s) \<le> max_tracked_requests
     \<and> length (tl_evicted_ids s) \<le> max_tracked_requests
     \<and> list_all (capped sj) (tl_entries s)"

lemma log_ok_none: "log_ok sj no_requests"
  by (simp add: log_ok_def no_requests_def)

lemma push_evicted_ids:
  "length (tl_evicted_ids s) \<le> max_tracked_requests \<Longrightarrow>
     length (tl_evicted_ids (push_request sj r s)) \<le> max_tracked_requests"
  by (cases "tl_entries s") (auto simp: push_request_def Let_def max_tracked_requests_def)

lemma list_all_tl: "list_all P xs \<Longrightarrow> list_all P (tl xs)"
  by (cases xs) auto

lemma log_ok_push: "log_ok sj s \<Longrightarrow> log_ok sj (push_request sj r s)"
  using rl.push_bound [of s sj r] push_evicted_ids [of s sj r]
  by (auto simp: log_ok_def push_entries cap_entry_capped list_all_tl)

lemma log_ok_clear: "log_ok sj (clear_requests s)"
  by (simp add: log_ok_def clear_requests_def Let_def)

lemma length_update_first [simp]: "length (update_first P f xs) = length xs"
  by (induction xs) auto

lemma length_update_newest [simp]: "length (update_newest P f xs) = length xs"
  by (simp add: update_newest_def)

lemma list_all_update_first:
  "list_all Q xs \<Longrightarrow> (\<And>x. Q (f x)) \<Longrightarrow> list_all Q (update_first P f xs)"
  by (induction xs) auto

lemma list_all_update_newest:
  "list_all Q xs \<Longrightarrow> (\<And>x. Q (f x)) \<Longrightarrow> list_all Q (update_newest P f xs)"
  by (simp add: update_newest_def list_all_update_first)

lemma map_update_first: "(\<And>x. g (f x) = g x) \<Longrightarrow> map g (update_first P f xs) = map g xs"
  by (induction xs) auto

lemma map_update_newest: "(\<And>x. g (f x) = g x) \<Longrightarrow> map g (update_newest P f xs) = map g xs"
  by (simp add: update_newest_def map_update_first rev_map [symmetric])

lemma answered_id [simp]: "tq_id (answered sj resp r) = tq_id r"
  by (simp add: answered_def)

lemma log_ok_response: "log_ok sj s \<Longrightarrow> log_ok sj (response_received sj e resp s)"
  by (simp add: log_ok_def response_received_def list_all_update_newest answered_def cap_entry_capped)

lemma log_ok_event: "log_ok sj s \<Longrightarrow> log_ok sj (track_event sj now e s)"
  by (simp add: track_event_def log_ok_push log_ok_response split: option.split)

text \<open>What happens to the log: an event that was received, or \<open>network requests --clear\<close>.\<close>

datatype log_op = LogEvent nat cdp_event | LogClear

fun log_step :: "(json \<Rightarrow> string) \<Rightarrow> log_op \<Rightarrow> tracked_requests \<Rightarrow> tracked_requests" where
  "log_step sj (LogEvent now e) s = track_event sj now e s"
| "log_step sj LogClear s = clear_requests s"

lemma log_ok_step: "log_ok sj s \<Longrightarrow> log_ok sj (log_step sj op s)"
  by (cases op) (simp_all add: log_ok_event log_ok_clear)

text \<open>
  C33: Whatever events arrive and whenever the log is cleared, the log never holds more than
  1000 requests or 1000 evicted ids, and no entry ever holds more than 64 KiB of post data
  or more than 16 KiB of header names and values on either side, also after its response
  came in.
\<close>
theorem request_log_bounded: "log_ok sj (fold (log_step sj) ops no_requests)"
proof -
  have "log_ok sj s \<Longrightarrow> log_ok sj (fold (log_step sj) ops s)" for s
    by (induction ops arbitrary: s) (simp_all add: log_ok_step)
  then show ?thesis using log_ok_none by blast
qed

section \<open>The abstract log\<close>

text \<open>
  Everything recorded since the daemon started, and the position of the last clear. The
  entries still readable are the newest 1000 of those after the clear; a response changes a
  readable entry only.
\<close>

type_synonym request_history = "tracked_request list \<times> nat"

definition kept_from :: "request_history \<Rightarrow> nat" where
  "kept_from a = (case a of (h, c) \<Rightarrow> max c (length h - max_tracked_requests))"

definition history_event ::
  "(json \<Rightarrow> string) \<Rightarrow> nat \<Rightarrow> cdp_event \<Rightarrow> request_history \<Rightarrow> request_history" where
  "history_event sj now e a =
     (case a of (h, c) \<Rightarrow>
       if ev_method e = ''Network.requestWillBeSent''
       then (case jget (ev_params e) ''request'' of
               Some request \<Rightarrow> (h @ [cap_entry sj (sent_request now e request)], c)
             | None \<Rightarrow> a)
       else if ev_method e = ''Network.webSocketCreated''
       then (h @ [cap_entry sj (socket_request now e)], c)
       else if ev_method e = ''Network.responseReceived''
       then (case jget (ev_params e) ''response'' of
               Some response \<Rightarrow>
                 (take (kept_from a) h
                    @ update_newest (answers_request e) (answered sj response)
                        (drop (kept_from a) h), c)
             | None \<Rightarrow> a)
       else a)"

fun history_step :: "(json \<Rightarrow> string) \<Rightarrow> log_op \<Rightarrow> request_history \<Rightarrow> request_history" where
  "history_step sj (LogEvent now e) a = history_event sj now e a"
| "history_step sj LogClear a = (case a of (h, c) \<Rightarrow> (h, length h))"

definition represents :: "tracked_requests \<Rightarrow> request_history \<Rightarrow> bool" where
  "represents s a \<longleftrightarrow>
     (case a of (h, c) \<Rightarrow>
       c \<le> length h
       \<and> tl_entries s = drop (kept_from a) h
       \<and> tl_start s = kept_from a
       \<and> tl_cleared s = c
       \<and> tl_evicted_ids s =
           lastn max_tracked_requests (map tq_id (drop c (take (kept_from a) h))))"

lemma represents_none: "represents no_requests ([], 0)"
  by (simp add: represents_def no_requests_def kept_from_def lastn_def)

lemma kept_from_bounds:
  "c \<le> length h \<Longrightarrow> c \<le> kept_from (h, c) \<and> kept_from (h, c) \<le> length h"
  by (simp add: kept_from_def)

lemma lastn_push:
  assumes "0 < n"
  shows "(if n \<le> length (lastn n xs) then tl (lastn n xs) else lastn n xs) @ [x]
    = lastn n (xs @ [x])"
proof (cases "n \<le> length xs")
  case True
  then have "tl (lastn n xs) = drop (Suc (length xs - n)) xs"
    by (simp add: lastn_def drop_Suc tl_drop)
  with True assms show ?thesis by (simp add: lastn_def Suc_diff_le)
next
  case False
  then show ?thesis by (simp add: lastn_def)
qed

lemma represents_push:
  assumes r: "represents s (h, c)"
  shows "represents (push_request sj q s) (h @ [cap_entry sj q], c)"
proof -
  let ?n = "kept_from (h, c)" and ?x = "cap_entry sj q" and ?M = max_tracked_requests
  have c: "c \<le> length h" and e: "tl_entries s = drop ?n h" and st: "tl_start s = ?n"
    and cl: "tl_cleared s = c"
    and ev: "tl_evicted_ids s = lastn ?M (map tq_id (drop c (take ?n h)))"
    using r by (simp_all add: represents_def)
  note nb = kept_from_bounds [OF c]
  have M0: "0 < ?M" by (simp add: max_tracked_requests_def)
  show ?thesis
  proof (cases "?M \<le> length (drop ?n h)")
    case True
    then have n': "kept_from (h @ [?x], c) = Suc ?n" and lt: "?n < length h"
      using nb by (auto simp: kept_from_def max_tracked_requests_def)
    then have d: "drop ?n h = h ! ?n # drop (Suc ?n) h"
      by (simp add: Cons_nth_drop_Suc)
    have "drop c (take (Suc ?n) h) = drop c (take ?n h) @ [h ! ?n]"
      using lt nb by (simp add: take_Suc_conv_app_nth)
    then have ids: "lastn ?M (map tq_id (drop c (take (Suc ?n) h))) =
        (if ?M \<le> length (tl_evicted_ids s) then tl (tl_evicted_ids s) else tl_evicted_ids s)
          @ [tq_id (h ! ?n)]"
      using lastn_push [OF M0, of "map tq_id (drop c (take ?n h))" "tq_id (h ! ?n)", folded ev]
      by (simp only: map_append list.map)
    have full: "?M \<le> length (tl_entries s)"
      using True e by simp
    have "push_request sj q s = s\<lparr>tl_entries := drop (Suc ?n) h @ [?x], tl_start := Suc ?n,
        tl_evicted_ids := lastn ?M (map tq_id (drop c (take (Suc ?n) h)))\<rparr>"
      unfolding ids using full e d st by (simp add: push_request_def Let_def)
    then show ?thesis
      using n' lt c cl by (simp add: represents_def)
  next
    case False
    then have n': "kept_from (h @ [?x], c) = ?n"
      using nb c by (auto simp: kept_from_def max_tracked_requests_def)
    have "push_request sj q s = s\<lparr>tl_entries := drop ?n h @ [?x]\<rparr>"
      using False e by (simp add: push_request_def Let_def)
    then show ?thesis
      using n' nb c st cl ev by (simp add: represents_def)
  qed
qed

lemma represents_clear:
  assumes "represents s (h, c)"
  shows "represents (clear_requests s) (h, length h)"
  using assms kept_from_bounds [of c h]
  by (auto simp: represents_def clear_requests_def Let_def kept_from_def lastn_def)

lemma represents_response:
  assumes r: "represents s (h, c)"
  shows "represents (response_received sj e resp s)
    (take (kept_from (h, c)) h
       @ update_newest (answers_request e) (answered sj resp) (drop (kept_from (h, c)) h), c)"
proof -
  let ?n = "kept_from (h, c)"
  let ?h = "take ?n h @ update_newest (answers_request e) (answered sj resp) (drop ?n h)"
  have c: "c \<le> length h" using r by (simp add: represents_def)
  note nb = kept_from_bounds [OF c]
  then have l: "length ?h = length h" and m: "length (take ?n h) = ?n" by simp_all
  then have n': "kept_from (?h, c) = ?n" by (simp add: kept_from_def)
  have "take ?n ?h = take ?n h" "drop ?n ?h = update_newest (answers_request e) (answered sj resp) (drop ?n h)"
    using m by simp_all
  then show ?thesis
    using r l n' by (simp add: represents_def response_received_def)
qed

lemma represents_event:
  assumes "represents s a"
  shows "represents (track_event sj now e s) (history_event sj now e a)"
  using assms represents_push represents_response
  by (cases a) (simp add: track_event_def history_event_def split: option.split)

lemma represents_step:
  "represents s a \<Longrightarrow> represents (log_step sj op s) (history_step sj op a)"
  by (cases op; cases a) (simp_all add: represents_event represents_clear)

lemma represents_run:
  "represents s a \<Longrightarrow> represents (fold (log_step sj) ops s) (fold (history_step sj) ops a)"
  by (induction ops arbitrary: s a) (simp_all add: represents_step)

lemma represents_answers:
  assumes "represents s (h, c)"
  shows "mark_requests s = length h"
    and "requests_since m s =
      (drop (max m (kept_from (h, c))) h, kept_from (h, c) - max m c)"
    and "evicted_requests s = kept_from (h, c) - c"
proof -
  let ?n = "kept_from (h, c)"
  have c: "c \<le> length h" and s: "tl_entries s = drop ?n h" "tl_start s = ?n" "tl_cleared s = c"
    using assms by (simp_all add: represents_def)
  show "mark_requests s = length h" "evicted_requests s = ?n - c"
    using kept_from_bounds [OF c] s by (simp_all add: mark_requests_def evicted_requests_def)
  have "m - ?n + ?n = max m ?n" by simp
  then show "requests_since m s = (drop (max m ?n) h, ?n - max m c)"
    using s by (simp add: requests_since_def)
qed

text \<open>
  C6: The bounded log answers as the history of everything recorded would: after any events
  and clears its entries are the newest 1000 recorded since the last clear (each with its
  response), a mark is the number of requests ever recorded, reading since a mark gives
  exactly the requests recorded after it that are still kept together with how many of them
  were evicted, and the ids it calls evicted are those of the newest 1000 requests evicted
  since the clear.
\<close>
theorem request_log_refines:
  fixes sj ops
  defines "s \<equiv> fold (log_step sj) ops no_requests"
    and "h \<equiv> fst (fold (history_step sj) ops ([], 0))"
    and "c \<equiv> snd (fold (history_step sj) ops ([], 0))"
    and "n \<equiv> kept_from (fold (history_step sj) ops ([], 0))"
  shows "tl_entries s = drop n h
    \<and> mark_requests s = length h
    \<and> requests_since m s = (drop (max m n) h, n - max m c)
    \<and> evicted_requests s = n - c
    \<and> (was_evicted i s
         \<longleftrightarrow> i \<in> set (lastn max_tracked_requests (map tq_id (drop c (take n h)))))"
proof -
  have hc: "fold (history_step sj) ops ([], 0) = (h, c)" by (simp add: h_def c_def)
  have r: "represents s (h, c)"
    using represents_run [OF represents_none, of sj ops] unfolding s_def hc .
  have n: "n = kept_from (h, c)" by (simp add: n_def hc)
  show ?thesis
    using represents_answers [OF r] r by (simp add: n represents_def was_evicted_def)
qed

section \<open>The status filter\<close>

text \<open>The filter \<open>lo-hi\<close>, and the class filter \<open>Nxx\<close>.\<close>

lemma split_once_show_nat:
  "split_once (CHR 0x2D) (show_nat lo @ CHR 0x2D # show_nat hi) = Some (show_nat lo, show_nat hi)"
proof -
  have "c \<noteq> CHR 0x2D" if "c \<in> set (show_nat lo)" for c
    using that show_nat_list_digits [of lo] digit_not_sign by (auto simp: list_all_iff)
  then show ?thesis
    by (simp add: split_once_def takeWhile_append dropWhile_append)
qed

theorem status_filter_exact:
  assumes "lo < 2 ^ 63" "hi < 2 ^ 63" "d < 10" "0 \<le> code"
    and "lowercase u (show_nat lo) = show_nat lo"
    and "lowercase u (show_nat lo @ CHR 0x2D # show_nat hi) = show_nat lo @ CHR 0x2D # show_nat hi"
    and "lowercase u (show_nat d @ ''xx'') = show_nat d @ ''xx''"
  shows "(matches_status_filter u (Some code) (show_nat lo) \<longleftrightarrow> code = int lo)
    \<and> (matches_status_filter u (Some code) (show_nat lo @ CHR 0x2D # show_nat hi)
         \<longleftrightarrow> int lo \<le> code \<and> code \<le> int hi)
    \<and> (matches_status_filter u (Some code) (show_nat d @ ''xx'') \<longleftrightarrow> code div 100 = int d)
    \<and> \<not> matches_status_filter u None f"
proof (intro conjI)
  show "matches_status_filter u (Some code) (show_nat lo) \<longleftrightarrow> code = int lo"
    using assms parse_i64_show_nat [of lo] by (simp add: matches_status_filter_def Let_def)
  have nd: "parse_i64 (show_nat lo @ CHR 0x2D # show_nat hi) = None"
    by (rule parse_i64_not_digits [of "CHR 0x2D"]) (simp_all add: is_ascii_digit_def)
  have hi: "last (show_nat hi) \<noteq> CHR 0x78"
    using show_nat_list_digits [of hi] show_nat_nonempty [of hi] digit_not_sign
    by (metis last_in_set list_all_iff)
  have "\<not> ends_with (show_nat lo @ CHR 0x2D # show_nat hi) ''xx''"
  proof
    assume "ends_with (show_nat lo @ CHR 0x2D # show_nat hi) ''xx''"
    then obtain t where "show_nat lo @ CHR 0x2D # show_nat hi = t @ ''xx''"
      by (auto simp: ends_with_iff)
    then have "last (show_nat lo @ CHR 0x2D # show_nat hi) = last (t @ ''xx'')" by simp
    with hi show False by simp
  qed
  then show "matches_status_filter u (Some code) (show_nat lo @ CHR 0x2D # show_nat hi)
      \<longleftrightarrow> int lo \<le> code \<and> code \<le> int hi"
    using assms nd parse_i64_show_nat
    by (simp add: matches_status_filter_def Let_def split_once_show_nat)
  have "length (show_nat d) = 1"
    using assms(3) by (simp add: show_nat.simps [of d])
  moreover have "parse_i64 (show_nat d @ ''xx'') = None"
    by (rule parse_i64_not_digits [of "CHR 0x78"]) (simp_all add: is_ascii_digit_def)
  moreover have "d < 2 ^ 63" using assms(3) by simp
  ultimately show "matches_status_filter u (Some code) (show_nat d @ ''xx'') \<longleftrightarrow> code div 100 = int d"
    using assms parse_i64_show_nat [of d]
    by (simp add: matches_status_filter_def Let_def ends_with_def tdiv_def)
  show "\<not> matches_status_filter u None f"
    by (simp add: matches_status_filter_def)
qed

lemma status_filter_exact_witness:
  "matches_status_filter ascii_tables (Some 404) ''4xx''
    \<and> matches_status_filter ascii_tables (Some 404) ''400-499''"
proof -
  have s: "show_nat 400 = ''400''" "show_nat 499 = ''499''" "show_nat 4 = ''4''"
    by (code_simp, code_simp, code_simp)
  show ?thesis
    using status_filter_exact [of 400 499 4 404 ascii_tables "''x''"]
    by (simp add: s to_ascii_lowercase_def ascii_lower_char_def)
qed

section \<open>What is told about a dropped request\<close>






end
