(* ===== verification/PageReloads.thy ===== *)
theory PageReloads
  imports Json Url TrackedRequests
begin

text \<open>
  The note that a reload explains an error (\<open>native/page_reloads.rs\<close>, and
  \<open>note_observed_reloads\<close> of \<open>native/actions.rs\<close>): the log of the page's top-level
  navigations, the sentence composed from it, which errors get it, and the handler that
  appends it to a failed command's reply. Instants are numbers of one clock; the URL parser
  is the parameter of theory \<open>Url\<close>.
\<close>


section \<open>The log of top-level navigations\<close>

record top_navigation =
  tn_at :: nat
  tn_url :: string
  tn_loader :: "string option"

record navigation_log =
  nl_entries :: "top_navigation list"
  nl_lagged :: "nat option"
  nl_previous :: "(nat \<times> string) option"

definition no_navigations :: navigation_log where
  "no_navigations = \<lparr> nl_entries = [], nl_lagged = None, nl_previous = None \<rparr>"

definition max_navigations :: nat where
  "max_navigations = 64"

definition note_marker :: string where
  "note_marker = ''Observed while it ran: the page''"

definition top_level_navigation :: "string \<Rightarrow> json \<Rightarrow> (string \<times> string option) option" where
  "top_level_navigation meth params =
     (if meth \<noteq> ''Page.frameNavigated'' then None
      else
        (case jget params ''frame'' of
           None \<Rightarrow> None
         | Some frame \<Rightarrow>
             if (case get_str frame ''parentId'' of Some p \<Rightarrow> p \<noteq> [] | None \<Rightarrow> False) then None
             else
               (case get_str frame ''url'' of
                  None \<Rightarrow> None
                | Some url \<Rightarrow> Some (url, get_str frame ''loaderId''))))"

definition same_loader :: "top_navigation \<Rightarrow> navigation_log \<Rightarrow> bool" where
  "same_loader n l \<longleftrightarrow>
     tn_loader n \<noteq> None \<and> nl_entries l \<noteq> [] \<and> tn_loader (last (nl_entries l)) = tn_loader n"

definition record_navigation :: "top_navigation \<Rightarrow> navigation_log \<Rightarrow> navigation_log" where
  "record_navigation n l =
     (if same_loader n l then l
      else l\<lparr>nl_entries :=
               (if max_navigations \<le> length (nl_entries l) then tl (nl_entries l)
                else nl_entries l) @ [n]\<rparr>)"

definition note_lag :: "nat \<Rightarrow> navigation_log \<Rightarrow> navigation_log" where
  "note_lag at l = l\<lparr>nl_lagged := Some at\<rparr>"

definition command_ended :: "nat \<Rightarrow> string \<Rightarrow> navigation_log \<Rightarrow> navigation_log" where
  "command_ended at url l = l\<lparr>nl_previous := Some (at, url)\<rparr>"

section \<open>Composing the note\<close>

definition without_fragment :: "string \<Rightarrow> string" where
  "without_fragment url = takeWhile (\<lambda>c. c \<noteq> CHR 0x23) url"

definition url_path :: "url_parser \<Rightarrow> string \<Rightarrow> string" where
  "url_path up url =
     (case up url of
        Some p \<Rightarrow> if u_cannot_be_a_base p then u_scheme p @ '':'' else u_path p
      | None \<Rightarrow> ''(an unparsable URL)'')"

definition times_text :: "nat \<Rightarrow> string" where
  "times_text n = (if n = 1 then ''once'' else show_nat n @ '' times'')"

record note_facts =
  nf_reloaded :: bool
  nf_during :: nat
  nf_before :: nat
  nf_first_command :: bool
  nf_lower_bound :: bool
  nf_last_path :: string

definition compose_note :: "note_facts \<Rightarrow> string" where
  "compose_note f =
     (let verb = if nf_reloaded f then ''reloaded'' else ''navigated'';
          at_least = if nf_lower_bound f then ''at least '' else [];
          since = if nf_first_command f then ''before it started''
                  else ''since the previous command ended'';
          counts =
            (if nf_before f = 0
             then at_least @ times_text (nf_during f) @ '' during this command''
             else if nf_during f = 0
             then at_least @ times_text (nf_before f) @ '' '' @ since
             else at_least @ times_text (nf_during f) @ '' during this command and ''
                    @ times_text (nf_before f) @ '' '' @ since);
          mid = if nf_reloaded f then ''reload'' else ''navigation''
      in note_marker @ '' '' @ verb @ '' '' @ counts @ '' (last: '' @ nf_last_path f
           @ ''). A command that lands mid-'' @ mid
           @ '' loses its document and the page's execution contexts with it. Let the page settle (`chrome-use wait --load load`) and retry; a page that keeps reloading on its own (a dev server's reload loop, for one) has to be stopped first.'')"

text \<open>The navigations since the previous command ended, or all of them before the first.\<close>

definition in_window :: "navigation_log \<Rightarrow> top_navigation list" where
  "in_window l =
     filter (\<lambda>n. case nl_previous l of Some (start, _) \<Rightarrow> start \<le> tn_at n | None \<Rightarrow> True)
       (nl_entries l)"

definition note_for :: "url_parser \<Rightarrow> nat \<Rightarrow> navigation_log \<Rightarrow> string option" where
  "note_for up started l =
     (let ws = in_window l
      in if ws = [] then None
         else
           (let during = length (filter (\<lambda>n. started \<le> tn_at n) ws);
                first = unwrap_or (without_fragment (tn_url (hd ws)))
                          (filter_opt (\<lambda>u. u \<noteq> [])
                             (map_option (\<lambda>(_, u). without_fragment u) (nl_previous l)));
                lower = (case (nl_lagged l, nl_previous l) of
                           (Some lag, Some (start, _)) \<Rightarrow> start \<le> lag
                         | (Some _, None) \<Rightarrow> True
                         | (None, _) \<Rightarrow> False)
            in Some (compose_note
                 \<lparr> nf_reloaded = list_all (\<lambda>n. without_fragment (tn_url n) = first) ws,
                   nf_during = during, nf_before = length ws - during,
                   nf_first_command = (nl_previous l = None), nf_lower_bound = lower,
                   nf_last_path = url_path up (tn_url (last ws)) \<rparr>)))"

section \<open>Which errors get it\<close>

definition is_relay_timeout :: "string \<Rightarrow> bool" where
  "is_relay_timeout e \<longleftrightarrow> contains e ''relay timeout after''
     \<and> \<not> contains e ''budget already scaled with the payload''"

definition error_wants_note :: "string \<Rightarrow> bool" where
  "error_wants_note e \<longleftrightarrow>
     \<not> contains e note_marker
     \<and> (contains e ''target drifted''
        \<or> contains e ''isolation_unavailable''
        \<or> contains e ''Wait timed out after''
        \<or> contains e ''Execution context was destroyed''
        \<or> contains e ''Cannot find context with specified id''
        \<or> contains e ''CDP command timed out after''
        \<or> is_relay_timeout e)"

definition action_navigates :: "string \<Rightarrow> bool" where
  "action_navigates action \<longleftrightarrow>
     action \<in> set [''launch'', ''navigate'', ''reload'', ''back'', ''forward'', ''tab_new'', ''a11y'', ''script'']"

definition append_note :: "string \<Rightarrow> string \<Rightarrow> string" where
  "append_note err nt =
     (let trimmed = trim_end err;
          sep = (if CHR 0x0A \<in> set trimmed then [CHR 0x0A]
                 else if trimmed \<noteq> [] \<and> last trimmed \<in> {CHR 0x2E, CHR 0x21, CHR 0x3F} then '' ''
                 else ''. '')
      in trimmed @ sep @ nt)"

definition wants_reload_note :: "json \<Rightarrow> json \<Rightarrow> bool" where
  "wants_reload_note cmd response \<longleftrightarrow>
     jidx response ''success'' = JBool False
     \<and> \<not> action_navigates (unwrap_or [] (get_str cmd ''action''))
     \<and> (case as_str (jidx response ''error'') of Some e \<Rightarrow> error_wants_note e | None \<Rightarrow> False)"

text \<open>
  \<open>drained\<close> are the navigations still queued when the note is wanted; \<open>now\<close> and
  \<open>url\<close> the time and the active URL at the end of the command.
\<close>

definition note_observed_reloads ::
  "url_parser \<Rightarrow> json \<Rightarrow> nat \<Rightarrow> top_navigation list \<Rightarrow> nat \<Rightarrow> string \<Rightarrow> json
    \<Rightarrow> navigation_log \<Rightarrow> json \<times> navigation_log" where
  "note_observed_reloads up cmd started drained now url response l =
     (let wants = wants_reload_note cmd response;
          l1 = (if wants then fold record_navigation drained l else l);
          response1 =
            (if wants
             then (case (note_for up started l1, as_str (jidx response ''error'')) of
                     (Some nt, Some err) \<Rightarrow> jset ''error'' (JStr (append_note err nt)) response
                   | _ \<Rightarrow> response)
             else response)
      in (response1, command_ended now url l1))"

section \<open>The log is bounded\<close>

interpretation nl: bounded_log nl_entries record_navigation "\<lambda>n l. \<not> same_loader n l" id
    max_navigations
  by unfold_locales (auto simp: record_navigation_def max_navigations_def)

text \<open>No two neighbouring entries are reports of the same navigation.\<close>

definition navigations_ok :: "navigation_log \<Rightarrow> bool" where
  "navigations_ok l \<longleftrightarrow> length (nl_entries l) \<le> max_navigations
     \<and> successively (\<lambda>a b. tn_loader b = None \<or> tn_loader a \<noteq> tn_loader b) (nl_entries l)"

lemma successively_tl: "successively P xs \<Longrightarrow> successively P (tl xs)"
  by (cases xs) (auto simp: successively_Cons)

lemma successively_snoc_last:
  "successively P xs \<Longrightarrow> (xs \<noteq> [] \<Longrightarrow> P (last xs) x) \<Longrightarrow> successively P (xs @ [x])"
  by (cases "xs = []") (simp_all add: successively_append_iff)

lemma navigations_ok_none: "navigations_ok no_navigations"
  by (simp add: navigations_ok_def no_navigations_def)

lemma navigations_ok_record:
  assumes "navigations_ok l"
  shows "navigations_ok (record_navigation n l)"
proof (cases "same_loader n l")
  case True
  with assms show ?thesis by (simp add: record_navigation_def)
next
  case False
  let ?P = "\<lambda>a b. tn_loader b = None \<or> tn_loader a \<noteq> tn_loader b"
  let ?old = "if max_navigations \<le> length (nl_entries l) then tl (nl_entries l) else nl_entries l"
  have "successively ?P ?old"
    using assms by (simp add: navigations_ok_def successively_tl)
  moreover have "?P (last ?old) n" if "?old \<noteq> []"
    using that False by (auto simp: same_loader_def last_tl split: if_splits)
  ultimately have "successively ?P (?old @ [n])"
    by (rule successively_snoc_last)
  then show ?thesis
    using assms False nl.push_bound [of l n]
    by (simp add: navigations_ok_def record_navigation_def)
qed

lemma navigations_ok_run: "navigations_ok l \<Longrightarrow> navigations_ok (fold record_navigation ns l)"
  by (induction ns arbitrary: l) (simp_all add: navigations_ok_record)

section \<open>The note\<close>

lemma contains_append: "contains t p \<Longrightarrow> contains (s @ t) p"
  unfolding contains_iff by (metis append.assoc)

lemma contains_append_left: "contains s p \<Longrightarrow> contains (s @ t) p"
  unfolding contains_iff by (metis append.assoc)

lemma compose_note_marked: "contains (compose_note f) note_marker"
  unfolding compose_note_def Let_def by (rule contains_append_left) (rule contains_refl)

lemma note_for_marked: "note_for up started l = Some nt \<Longrightarrow> contains nt note_marker"
  by (auto simp: note_for_def Let_def compose_note_marked split: if_splits)

lemma note_for_Some_iff: "(\<exists>nt. note_for up started l = Some nt) \<longleftrightarrow> in_window l \<noteq> []"
  by (simp add: note_for_def Let_def)

lemma append_note_marked: "contains nt note_marker \<Longrightarrow> \<not> error_wants_note (append_note err nt)"
  by (simp add: error_wants_note_def append_note_def Let_def contains_append)

lemma note_observed_response:
  "fst (note_observed_reloads up cmd started drained now url response l) =
     (if wants_reload_note cmd response
      then (case (note_for up started (fold record_navigation drained l),
                  as_str (jidx response ''error'')) of
              (Some nt, Some err) \<Rightarrow> jset ''error'' (JStr (append_note err nt)) response
            | _ \<Rightarrow> response)
      else response)"
  by (simp add: note_observed_reloads_def Let_def)

lemma wants_reload_note_object:
  assumes "wants_reload_note cmd response"
  shows "\<exists>m. response = JObj m"
  using assms by (cases response) (auto simp: wants_reload_note_def jidx_def)

lemma noted_wants_no_more:
  assumes "wants_reload_note cmd response" "contains nt note_marker"
  shows "\<not> wants_reload_note cmd' (jset ''error'' (JStr (append_note err nt)) response)"
proof -
  obtain m where "response = JObj m" using wants_reload_note_object [OF assms(1)] by blast
  then show ?thesis
    using append_note_marked [OF assms(2)]
    by (simp add: wants_reload_note_def jidx_def map_of_obj_insert)
qed

text \<open>
  C29: A reload note is added at most once: when a nested command has added it, no command
  around it (whatever it is, and whatever it saw navigate) changes the reply again.
\<close>
theorem reload_note_once:
  assumes "fst (note_observed_reloads up cmd started drained now url response l) \<noteq> response"
  defines "noted \<equiv> fst (note_observed_reloads up cmd started drained now url response l)"
  shows "fst (note_observed_reloads up' cmd' started' drained' now' url' noted l') = noted"
proof -
  let ?l = "fold record_navigation drained l"
  have w: "wants_reload_note cmd response"
    using assms(1) by (auto simp: note_observed_response split: if_splits)
  with assms(1) obtain nt err where n: "note_for up started ?l = Some nt"
    and r: "noted = jset ''error'' (JStr (append_note err nt)) response"
    by (auto simp: note_observed_response noted_def split: option.splits)
  have "\<not> wants_reload_note cmd' noted"
    unfolding r by (rule noted_wants_no_more [OF w note_for_marked [OF n]])
  then show ?thesis by (simp add: note_observed_response)
qed

theorem reload_note_needs_navigation:
  assumes "navigations_ok l"
    and "note_observed_reloads up cmd started drained now url response l = (r', l')"
  shows "navigations_ok l' \<and> nl_previous l' = Some (now, url)
    \<and> (r' \<noteq> response \<longrightarrow>
         (\<exists>n \<in> set (nl_entries (fold record_navigation drained l)).
             (\<forall>p. nl_previous (fold record_navigation drained l) = Some p \<longrightarrow> fst p \<le> tn_at n))
         \<and> (\<exists>err nt. get_str response ''error'' = Some err
              \<and> r' = jset ''error'' (JStr (append_note err nt)) response
              \<and> starts_with (append_note err nt) (trim_end err)))"
proof -
  let ?l = "fold record_navigation drained l"
  have l': "l' = command_ended now url (if wants_reload_note cmd response then ?l else l)"
    and r': "r' = fst (note_observed_reloads up cmd started drained now url response l)"
    using assms(2) by (auto simp: note_observed_reloads_def Let_def)
  have ok: "navigations_ok l'" "nl_previous l' = Some (now, url)"
    using assms(1) navigations_ok_run [of l drained]
    by (simp_all add: l' command_ended_def navigations_ok_def)
  moreover have "(\<exists>n \<in> set (nl_entries ?l). \<forall>p. nl_previous ?l = Some p \<longrightarrow> fst p \<le> tn_at n)
      \<and> (\<exists>err nt. get_str response ''error'' = Some err
           \<and> r' = jset ''error'' (JStr (append_note err nt)) response
           \<and> starts_with (append_note err nt) (trim_end err))" if "r' \<noteq> response"
  proof
    from that obtain nt err where n: "note_for up started ?l = Some nt"
      and e: "as_str (jidx response ''error'') = Some err"
      and r: "r' = jset ''error'' (JStr (append_note err nt)) response"
      by (auto simp: note_observed_response r' split: option.splits if_splits)
    have "in_window ?l \<noteq> []" using n note_for_Some_iff by blast
    then obtain x where x: "x \<in> set (in_window ?l)" by (cases "in_window ?l") auto
    then show "\<exists>n \<in> set (nl_entries ?l). \<forall>p. nl_previous ?l = Some p \<longrightarrow> fst p \<le> tn_at n"
      by (auto simp: in_window_def split: option.splits)
    have "get_str response ''error'' = Some err"
      using e by (auto simp: jidx_def get_str_def unwrap_or_def split: option.splits)
    moreover have "starts_with (append_note err nt) (trim_end err)"
      by (simp add: append_note_def Let_def starts_with_iff)
    ultimately show "\<exists>err nt. get_str response ''error'' = Some err
        \<and> r' = jset ''error'' (JStr (append_note err nt)) response
        \<and> starts_with (append_note err nt) (trim_end err)"
      using r by blast
  qed
  ultimately show ?thesis by blast
qed

section \<open>A page that reloaded under a wait\<close>

definition timed_out :: json where
  "timed_out = jobj [(''success'', JBool False), (''error'', JStr ''Wait timed out after 5ms'')]"

definition reloaded_log :: navigation_log where
  "reloaded_log = \<lparr> nl_entries = [\<lparr> tn_at = 3, tn_url = ''http://a/b'', tn_loader = Some ''L'' \<rparr>],
     nl_lagged = None, nl_previous = Some (1, ''http://a/b'') \<rparr>"

lemma timed_out_wants: "wants_reload_note (jobj [(''action'', JStr ''wait'')]) timed_out"
  by (simp add: timed_out_def wants_reload_note_def jidx_def get_str_def action_navigates_def
      error_wants_note_def note_marker_def starts_with_def)

lemma reloaded_log_window: "in_window reloaded_log \<noteq> []"
  by (simp add: in_window_def reloaded_log_def)

lemma timed_out_noted:
  "fst (note_observed_reloads up (jobj [(''action'', JStr ''wait'')]) 2 [] 4 ''http://a/b'' timed_out
     reloaded_log) \<noteq> timed_out"
proof -
  obtain nt where n: "note_for up 2 reloaded_log = Some nt"
    using reloaded_log_window note_for_Some_iff by blast
  have e: "as_str (jidx timed_out ''error'') = Some ''Wait timed out after 5ms''"
    by (simp add: timed_out_def jidx_def)
  have c: "contains (append_note ''Wait timed out after 5ms'' nt) note_marker"
    using note_for_marked [OF n] by (simp add: append_note_def Let_def contains_append)
  have "append_note ''Wait timed out after 5ms'' nt \<noteq> ''Wait timed out after 5ms''"
  proof
    assume "append_note ''Wait timed out after 5ms'' nt = ''Wait timed out after 5ms''"
    with c have "contains ''Wait timed out after 5ms'' note_marker" by simp
    then show False by (simp add: note_marker_def starts_with_def)
  qed
  then have "jget (jset ''error'' (JStr (append_note ''Wait timed out after 5ms'' nt)) timed_out) ''error''
      \<noteq> jget timed_out ''error''"
    by (simp add: timed_out_def jobj_def map_of_obj_insert map_of_obj_of)
  then show ?thesis
    using timed_out_wants n e by (auto simp: note_observed_response)
qed

lemma reload_note_once_witness:
  "let noted = fst (note_observed_reloads simple_parser (jobj [(''action'', JStr ''wait'')]) 2 [] 4
                 ''http://a/b'' timed_out reloaded_log)
   in fst (note_observed_reloads simple_parser (jobj []) 1 [] 5 ''http://a/b'' noted reloaded_log)
        = noted"
  unfolding Let_def by (rule reload_note_once [OF timed_out_noted])

lemma reload_note_needs_navigation_witness:
  "\<exists>r' l'. note_observed_reloads simple_parser (jobj [(''action'', JStr ''wait'')]) 2 [] 4
       ''http://a/b'' timed_out reloaded_log = (r', l') \<and> r' \<noteq> timed_out \<and> navigations_ok l'"
proof -
  have ok: "navigations_ok reloaded_log"
    by (simp add: navigations_ok_def reloaded_log_def max_navigations_def)
  obtain r' l' where run: "note_observed_reloads simple_parser (jobj [(''action'', JStr ''wait'')]) 2 []
      4 ''http://a/b'' timed_out reloaded_log = (r', l')" by force
  then show ?thesis
    using reload_note_needs_navigation [OF ok run] timed_out_noted [of simple_parser] by auto
qed

end
