(* ===== verification/CommandLine.thy ===== *)
theory CommandLine
  imports Json
begin

text \<open>
  The command line's own lexical layer (\<open>commands.rs\<close>): parse errors and the advice printed
  with them, the edit distance behind "did you mean", the shell-like splitting of a batch
  step, the clipboard permission flag, and the flags stamped onto every parsed command.
  Command-line words are strings; a clock-derived request id is the parameter \<open>i\<close> of every
  parser.
\<close>

section \<open>Words, options and positions\<close>

text \<open>\<open>xs.iter().position(p)\<close>.\<close>

fun position :: "('a \<Rightarrow> bool) \<Rightarrow> 'a list \<Rightarrow> nat option" where
  "position P [] = None"
| "position P (x # xs) = (if P x then Some 0 else map_option Suc (position P xs))"

lemma position_None [simp]: "position P xs = None \<longleftrightarrow> (\<forall>x \<in> set xs. \<not> P x)"
  by (induction xs) auto

lemma position_Some:
  "position P xs = Some n \<longleftrightarrow> n < length xs \<and> P (xs ! n) \<and> (\<forall>k < n. \<not> P (xs ! k))"
proof (induction xs arbitrary: n)
  case Nil
  then show ?case by simp
next
  case (Cons x xs)
  then show ?case
    by (cases n) (auto simp: less_Suc_eq_0_disj)
qed

text \<open>The value after the first occurrence of a flag.\<close>

definition flag_value :: "string \<Rightarrow> string list \<Rightarrow> string option" where
  "flag_value name rest =
     Option.bind (position (\<lambda>s. s = name) rest) (\<lambda>n. get_at rest (n + 1))"

text \<open>\<open>if let Some(x) = v { cmd[k] = json!(x) }\<close>.\<close>

definition set_opt :: "string \<Rightarrow> json option \<Rightarrow> json \<Rightarrow> json" where
  "set_opt k v cmd = (case v of Some x \<Rightarrow> jset k x cmd | None \<Rightarrow> cmd)"

definition set_if :: "string \<Rightarrow> bool \<Rightarrow> json \<Rightarrow> json" where
  "set_if k b cmd = (if b then jset k (JBool True) cmd else cmd)"

definition set_str :: "string \<Rightarrow> string option \<Rightarrow> json \<Rightarrow> json" where
  "set_str k v cmd = set_opt k (map_option JStr v) cmd"

definition jnat :: "nat \<Rightarrow> json" where
  "jnat n = JNum (JInt (int n))"

text \<open>A command: its request id, its action and its fields.\<close>

definition command :: "string \<Rightarrow> string \<Rightarrow> (string \<times> json) list \<Rightarrow> json" where
  "command i action kvs = jobj ([(''id'', JStr i), (''action'', JStr action)] @ kvs)"

lemma jget_command [simp]:
  "jget (command i a kvs) k =
     (case map_of (rev kvs) k of Some v \<Rightarrow> Some v
      | None \<Rightarrow> if k = ''action'' then Some (JStr a) else if k = ''id'' then Some (JStr i) else None)"
  by (simp add: command_def map_add_def split: option.split)

lemma is_object_jset [simp]: "is_object v \<Longrightarrow> is_object (jset k x v)"
  by (auto simp: is_object_def)

lemma is_object_command [simp]: "is_object (command i a kvs)"
  by (simp add: command_def)

lemma jget_jset: "is_object v \<Longrightarrow> jget (jset k x v) k' = (if k' = k then Some x else jget v k')"
  by (auto simp: is_object_def map_of_obj_insert)

lemma is_object_set_str [simp]: "is_object v \<Longrightarrow> is_object (set_str k x v)"
  by (simp add: set_str_def set_opt_def split: option.split)

lemma jget_set_str:
  "is_object v \<Longrightarrow> jget (set_str k x v) k' =
     (if k' = k \<and> x \<noteq> None then map_option JStr x else jget v k')"
  by (cases x) (simp_all add: set_str_def set_opt_def jget_jset)

section \<open>Parse errors\<close>


datatype parse_error =
    UnknownCommand string
  | UnknownSubcommand string "string list"
  | MissingArguments string string
  | InvalidValue string string
  | InvalidSessionName string

definition KNOWN_COMMANDS :: "string list" where
  "KNOWN_COMMANDS =
     [''open'', ''navigate'', ''addinitscript'', ''removeinitscript'', ''read'', ''expect'', ''extract'',
      ''script'', ''teach'', ''form'', ''click'', ''fill'', ''type'', ''press'', ''snapshot'', ''a11y'',
      ''screenshot'', ''eval'', ''get'', ''text'', ''html'', ''frames'', ''diagnose'', ''find'', ''wait'',
      ''scroll'', ''hover'', ''select'', ''select-text'', ''paste'', ''check'', ''uncheck'', ''tab'', ''tabs'',
      ''close'', ''back'', ''forward'', ''reload'', ''sessions'', ''status'', ''daemon'', ''doctor'', ''diag'',
      ''upgrade'', ''connect'', ''cookies'', ''mouse'', ''keyboard'', ''stream'', ''frame'', ''profiles'',
      ''title'', ''url'', ''is'', ''drag'', ''solve-slider'', ''dialog'', ''upload'', ''download'',
      ''download-url'', ''downloads'', ''site'', ''box'', ''adopt'', ''canvas'', ''viewport'', ''resize'',
      ''keep'', ''done'']"

definition is_known_command :: "string \<Rightarrow> bool" where
  "is_known_command name \<longleftrightarrow> name \<in> set KNOWN_COMMANDS"

text \<open>
  The Levenshtein distance by two rows: \<open>row_cells\<close> fills the row from the left, given the
  previous row and the cell just written.
\<close>

fun row_cells :: "'a \<Rightarrow> 'a list \<Rightarrow> nat list \<Rightarrow> nat \<Rightarrow> nat list" where
  "row_cells ca (cb # bs) (p # q # ps) left =
     (let c = min (min (q + 1) (left + 1)) (p + (if ca = cb then 0 else 1))
      in c # row_cells ca bs (q # ps) c)"
| "row_cells ca _ _ left = []"

definition next_row :: "nat \<Rightarrow> 'a \<Rightarrow> 'a list \<Rightarrow> nat list \<Rightarrow> nat list" where
  "next_row n ca b prev = (n + 1) # row_cells ca b prev (n + 1)"

fun edit_rows :: "nat \<Rightarrow> 'a list \<Rightarrow> 'a list \<Rightarrow> nat list \<Rightarrow> nat list" where
  "edit_rows n [] b prev = prev"
| "edit_rows n (ca # a) b prev = edit_rows (n + 1) a b (next_row n ca b prev)"

definition edit_distance :: "string \<Rightarrow> string \<Rightarrow> nat" where
  "edit_distance s t =
     (let a = utf8_chars s; b = utf8_chars t
      in edit_rows 0 a b [0..<length b + 1] ! length b)"

definition guessed_command :: "unicode \<Rightarrow> string \<Rightarrow> string option" where
  "guessed_command u input =
     (let c = lowercase u input in
      if c \<in> set [''js'', ''javascript'', ''exec'', ''execute'', ''evaluate'', ''run''] then Some (''eval '<js>'' @ [CHR 0x27])
      else if c \<in> set [''requests'', ''request'', ''xhr''] then Some ''network requests''
      else if c = ''har'' then Some ''network har start   (then `network har stop <path>`)''
      else if c \<in> set [''logs'', ''log'', ''console-logs''] then Some ''console''
      else if c = ''links''
      then Some (''snapshot -i -f link   (links are listed as `link '' @ [CHR 0x22, CHR 0xE2, CHR 0x80, CHR 0xA6, CHR 0x22] @ '' [ref=eN]`)'')
      else if c \<in> set [''innertext'', ''page-text'']
      then Some ''get text body   (or `read` for the main content)''
      else None)"

text \<open>\<open>min_by_key\<close>: the first of the smallest.\<close>

fun min_by :: "('a \<Rightarrow> nat) \<Rightarrow> 'a list \<Rightarrow> 'a option" where
  "min_by f [] = None"
| "min_by f (x # xs) =
     (case min_by f xs of None \<Rightarrow> Some x | Some y \<Rightarrow> Some (if f x \<le> f y then x else y))"

definition nearest_command :: "unicode \<Rightarrow> string \<Rightarrow> string option" where
  "nearest_command u input =
     (let lower = lowercase u input in
      case find (\<lambda>c. starts_with c lower \<or> starts_with lower c) KNOWN_COMMANDS of
        Some c \<Rightarrow> Some c
      | None \<Rightarrow>
          (let max_dist = (if length lower \<le> 4 then 1 else 2)
           in min_by (edit_distance lower)
                (filter (\<lambda>c. edit_distance lower c \<le> max_dist) KNOWN_COMMANDS)))"

text \<open>\<open>session_error\<close> is the text that the session-name validation gives.\<close>

definition format_error :: "unicode \<Rightarrow> (string \<Rightarrow> string) \<Rightarrow> parse_error \<Rightarrow> string" where
  "format_error u session_error e =
     (case e of
        UnknownCommand c \<Rightarrow>
          (case or_else (map_option (\<lambda>g. ''Use: chrome-use '' @ g) (guessed_command u c))
                  (map_option (\<lambda>n. ''Did you mean: chrome-use '' @ n @ ''?'') (nearest_command u c)) of
             Some nxt \<Rightarrow> ''Unknown command: '' @ c @ [CHR 0x0A] @ nxt
           | None \<Rightarrow> ''Unknown command: '' @ c)
      | UnknownSubcommand s valid \<Rightarrow>
          ''Unknown subcommand: '' @ s @ [CHR 0x0A] @ ''Valid options: '' @ join '', '' valid
      | MissingArguments ctx usage \<Rightarrow>
          ''Missing arguments for: '' @ ctx @ [CHR 0x0A] @ ''Usage: chrome-use '' @ usage
      | InvalidValue message usage \<Rightarrow> message @ [CHR 0x0A] @ ''Usage: chrome-use '' @ usage
      | InvalidSessionName name \<Rightarrow> session_error name)"

section \<open>Splitting a batch step\<close>



section \<open>The clipboard permission\<close>

definition CLIPBOARD_FLAG :: string where
  "CLIPBOARD_FLAG = ''--allow-clipboard-fallback''"

definition CLIPBOARD_USAGE :: string where
  "CLIPBOARD_USAGE = ''fill <selector> <text> [--allow-clipboard-fallback] | get value <selector> [--allow-clipboard-fallback]''"

fun clipboard_scan :: "nat \<Rightarrow> nat \<Rightarrow> string list \<Rightarrow> bool \<Rightarrow> parse_error + bool" where
  "clipboard_scan boundary index [] allow = Inr allow"
| "clipboard_scan boundary index (a # as) allow =
     (if starts_with a (CLIPBOARD_FLAG @ ''='')
      then Inl (InvalidValue ''--allow-clipboard-fallback takes no value'' CLIPBOARD_USAGE)
      else if a = CLIPBOARD_FLAG
      then (if index + 1 \<noteq> boundary \<or> allow
            then Inl (InvalidValue
                   ''--allow-clipboard-fallback takes no value and must be the last option''
                   CLIPBOARD_USAGE)
            else clipboard_scan boundary (index + 1) as True)
      else clipboard_scan boundary (index + 1) as allow)"

definition editor_clipboard_args ::
  "string list \<Rightarrow> nat \<Rightarrow> parse_error + (string list \<times> bool)" where
  "editor_clipboard_args args required =
     (let boundary = unwrap_or (length args) (position (\<lambda>a. a = ''--'') args)
      in and_then (clipboard_scan boundary required (drop required (take boundary args)) False)
           (\<lambda>allow. Inr (map snd (filter (\<lambda>(k, a). k \<noteq> boundary \<and> \<not> (allow \<and> k + 1 = boundary))
              (enumerate 0 args)), allow)))"

section \<open>Cookies given as a header\<close>

definition cookie_piece :: "string \<Rightarrow> json option" where
  "cookie_piece p =
     (case split_once (CHR 0x3D) (trim p) of
        None \<Rightarrow> None
      | Some (a, b) \<Rightarrow>
          if trim a = [] then None
          else Some (jobj [(''name'', JStr (trim a)), (''value'', JStr (trim b))]))"

definition parse_cookie_header :: "string \<Rightarrow> json list result" where
  "parse_cookie_header header =
     (let out = List.map_filter cookie_piece (split_on (CHR 0x3B) header)
      in if out = [] then Inl ''no cookies found in input'' else Inr out)"

section \<open>Flags stamped on a command\<close>

record cli_flags =
  allow_focus_recovery :: bool
  default_timeout :: "nat option"
  if_present :: bool
  observe_flag :: bool
  settle_ms :: "nat option"
  with_screenshot :: "string option"
  new_tab_flag :: bool
  tab_flag :: "string option"
  tab_force :: bool
  tab_label :: "string option"
  headers_flag :: "string option"
  allowed_domains_flag :: "string list option"

definition has_key :: "json \<Rightarrow> string \<Rightarrow> bool" where
  "has_key v k \<longleftrightarrow> jget v k \<noteq> None"

definition stamp_timeout :: "cli_flags \<Rightarrow> json \<Rightarrow> json" where
  "stamp_timeout fl cmd =
     (case get_str cmd ''action'' of
        Some action \<Rightarrow>
          if starts_with action ''wait'' \<and> \<not> has_key cmd ''timeout''
          then set_opt ''timeout'' (map_option jnat (default_timeout fl)) cmd else cmd
      | None \<Rightarrow> cmd)"

definition stamp_tab :: "cli_flags \<Rightarrow> json \<Rightarrow> json" where
  "stamp_tab fl cmd =
     (case tab_flag fl of
        None \<Rightarrow> cmd
      | Some t \<Rightarrow>
          set_if ''forceTab'' (tab_force fl)
            (if has_key cmd ''tabId'' \<or> has_key cmd ''tab'' then cmd else jset ''tabId'' (JStr t) cmd))"

definition stamp_label :: "cli_flags \<Rightarrow> json \<Rightarrow> json" where
  "stamp_label fl cmd =
     (case tab_label fl of
        None \<Rightarrow> cmd
      | Some l \<Rightarrow> if has_key cmd ''label'' then cmd else jset ''label'' (JStr l) cmd)"

definition stamp_command_flags :: "cli_flags \<Rightarrow> json \<Rightarrow> json" where
  "stamp_command_flags fl cmd =
     stamp_label fl
       (stamp_tab fl
         (set_if ''newTab'' (new_tab_flag fl)
           (set_str ''withScreenshot'' (with_screenshot fl)
             (set_opt ''settleMs'' (map_option jnat (settle_ms fl))
               (set_if ''observe'' (observe_flag fl)
                 (set_if ''ifPresent'' (if_present fl)
                   (stamp_timeout fl
                     (set_if ''allowFocusRecovery'' (allow_focus_recovery fl) cmd))))))))"

section \<open>The edit distance is the least number of edits\<close>

text \<open>
  The specification: turning one list into another by deleting, inserting or replacing an
  element at the end of what was compared so far; keeping an equal element is free.
\<close>

inductive edits :: "nat \<Rightarrow> 'a list \<Rightarrow> 'a list \<Rightarrow> bool" where
  edits_Nil: "edits 0 [] []"
| edits_delete: "edits n a b \<Longrightarrow> edits (Suc n) (a @ [x]) b"
| edits_insert: "edits n a b \<Longrightarrow> edits (Suc n) a (b @ [y])"
| edits_replace: "edits n a b \<Longrightarrow> edits (if x = y then n else Suc n) (a @ [x]) (b @ [y])"

text \<open>The recursive distance, on the reversed lists.\<close>

fun lev :: "'a list \<Rightarrow> 'a list \<Rightarrow> nat" where
  "lev [] b = length b"
| "lev (x # a) [] = Suc (length a)"
| "lev (x # a) (y # b) =
     min (min (lev a (y # b) + 1) (lev (x # a) b + 1)) (lev a b + (if x = y then 0 else 1))"

lemma lev_Nil [simp]: "lev a [] = length a"
  by (cases a) simp_all

lemma lev_Cons_left: "lev (x # a) b \<le> Suc (lev a b)"
  by (cases b) simp_all

lemma lev_Cons_right: "lev a (y # b) \<le> Suc (lev a b)"
  by (cases a) simp_all

lemma lev_Cons_both: "lev (x # a) (y # b) \<le> (if x = y then lev a b else Suc (lev a b))"
  by simp

lemma lev_le_edits: "edits n a b \<Longrightarrow> lev (rev a) (rev b) \<le> n"
proof (induction rule: edits.induct)
  case (edits_delete n a b x)
  then show ?case using lev_Cons_left [of x "rev a" "rev b"] by simp
next
  case (edits_insert n a b y)
  then show ?case using lev_Cons_right [of "rev a" y "rev b"] by simp
next
  case (edits_replace n a b x y)
  then show ?case using lev_Cons_both [of x "rev a" y "rev b"] by (auto split: if_splits)
qed simp

lemma edits_all_inserted: "edits (length b) [] b"
proof (induction b rule: rev_induct)
  case Nil
  then show ?case using edits_Nil by simp
next
  case (snoc y b)
  then show ?case using edits_insert [of "length b" "[]" b y] by simp
qed

lemma edits_all_deleted: "edits (length a) a []"
proof (induction a rule: rev_induct)
  case Nil
  then show ?case using edits_Nil by simp
next
  case (snoc x a)
  then show ?case using edits_delete [of "length a" a "[]" x] by simp
qed

lemma edits_lev: "edits (lev ra rb) (rev ra) (rev rb)"
proof (induction ra rb rule: lev.induct)
  case (1 b)
  then show ?case using edits_all_inserted [of "rev b"] by simp
next
  case (2 x a)
  then show ?case using edits_all_deleted [of "rev (x # a)"] by simp
next
  case (3 x a y b)
  let ?n = "lev (x # a) (y # b)"
  have "?n = Suc (lev a (y # b)) \<or> ?n = Suc (lev (x # a) b)
      \<or> ?n = (if x = y then lev a b else Suc (lev a b))"
    by (simp add: min_def)
  then consider "?n = Suc (lev a (y # b))" | "?n = Suc (lev (x # a) b)"
    | "?n = (if x = y then lev a b else Suc (lev a b))"
    by blast
  then show ?case
  proof cases
    case 1
    then show ?thesis using edits_delete [OF 3(1), of x] by simp
  next
    case 2
    then show ?thesis using edits_insert [OF 3(2), of y] by simp
  next
    case c: 3
    have "edits ?n (rev a @ [x]) (rev b @ [y])"
      unfolding c by (rule edits_replace [OF 3(3)])
    then show ?thesis by simp
  qed
qed

text \<open>Row \<open>a\<close> of the table, for what remains of the other word.\<close>

fun lev_row :: "'a list \<Rightarrow> 'a list \<Rightarrow> 'a list \<Rightarrow> nat list" where
  "lev_row ra rb [] = [lev ra rb]"
| "lev_row ra rb (y # bs) = lev ra rb # lev_row ra (y # rb) bs"

lemma lev_row_hd: "\<exists>qs. lev_row ra rb bs = lev ra rb # qs"
  by (cases bs) simp_all

lemma row_cells_lev:
  "row_cells ca bs (lev_row ra rb bs) (lev (ca # ra) rb) = tl (lev_row (ca # ra) rb bs)"
proof (induction bs arbitrary: rb)
  case Nil
  then show ?case by simp
next
  case (Cons y bs)
  obtain qs where q: "lev_row ra (y # rb) bs = lev ra (y # rb) # qs"
    using lev_row_hd by blast
  obtain qs' where q': "lev_row (ca # ra) (y # rb) bs = lev (ca # ra) (y # rb) # qs'"
    using lev_row_hd by blast
  show ?case
    using Cons [of "y # rb"] q q' by (simp add: Let_def)
qed

lemma next_row_lev:
  "next_row (length ra) ca b (lev_row ra [] b) = lev_row (ca # ra) [] b"
proof -
  obtain qs where "lev_row (ca # ra) [] b = lev (ca # ra) [] # qs"
    using lev_row_hd by blast
  then show ?thesis
    using row_cells_lev [of ca b ra "[]"] by (simp add: next_row_def)
qed

lemma edit_rows_lev:
  "edit_rows (length ra) a b (lev_row ra [] b) = lev_row (rev a @ ra) [] b"
proof (induction a arbitrary: ra)
  case Nil
  then show ?case by simp
next
  case (Cons ca a)
  show ?case using Cons [of "ca # ra"] by (simp add: next_row_lev)
qed

lemma lev_row_Nil: "lev_row [] rb bs = [length rb..<length rb + length bs + 1]"
proof (induction bs arbitrary: rb)
  case Nil
  then show ?case by simp
next
  case (Cons y bs)
  have "[length rb..<length rb + length (y # bs) + 1]
      = length rb # [Suc (length rb)..<length rb + length (y # bs) + 1]"
    by (rule upt_conv_Cons) simp
  then show ?case
    using Cons [of "y # rb"] by (simp del: upt_Suc)
qed

lemma lev_row_last: "lev_row ra rb bs ! length bs = lev ra (rev bs @ rb)"
  by (induction bs arbitrary: rb) simp_all

lemma edit_distance_lev: "edit_distance s t = lev (rev (utf8_chars s)) (rev (utf8_chars t))"
proof -
  let ?a = "utf8_chars s" and ?b = "utf8_chars t"
  have "edit_rows 0 ?a ?b [0..<length ?b + 1] = lev_row (rev ?a) [] ?b"
    using edit_rows_lev [of "[]" ?a ?b] lev_row_Nil [of "[]" ?b] by simp
  then show ?thesis
    by (simp add: edit_distance_def Let_def lev_row_last)
qed

lemma edit_distance_edits: "edits (edit_distance s t) (utf8_chars s) (utf8_chars t)"
  using edits_lev [of "rev (utf8_chars s)" "rev (utf8_chars t)"] by (simp add: edit_distance_lev)

lemma edit_distance_le: "edits n (utf8_chars s) (utf8_chars t) \<Longrightarrow> edit_distance s t \<le> n"
  unfolding edit_distance_lev by (rule lev_le_edits)

text \<open>
  C27: The two-row computation of the edit distance is the Levenshtein distance: the least
  number of characters deleted, inserted or replaced that turns one word into the other.
\<close>
theorem edit_distance_least:
  "edit_distance s t = (LEAST n. edits n (utf8_chars s) (utf8_chars t))"
  by (rule Least_equality [symmetric]) (rule edit_distance_edits, rule edit_distance_le)

section \<open>Suggestions\<close>

lemma min_by_Some:
  "min_by f xs = Some x \<Longrightarrow> x \<in> set xs \<and> (\<forall>y \<in> set xs. f x \<le> f y)"
proof (induction xs arbitrary: x)
  case Nil
  then show ?case by simp
next
  case (Cons a xs)
  show ?case
  proof (cases "min_by f xs")
    case None
    with Cons show ?thesis by (cases xs) (auto split: option.splits)
  next
    case (Some y)
    then show ?thesis
      using Cons.prems Cons.IH [OF Some] by (auto split: if_splits)
  qed
qed

lemma min_by_None [simp]: "min_by f xs = None \<longleftrightarrow> xs = []"
  by (cases xs) (auto split: option.splits)

lemma nearest_command_cases:
  assumes "nearest_command u input = Some c"
  obtains "is_known_command c" "starts_with c (lowercase u input) \<or> starts_with (lowercase u input) c"
  | "is_known_command c"
    "edit_distance (lowercase u input) c \<le> (if length (lowercase u input) \<le> 4 then 1 else 2)"
    "\<forall>d. is_known_command d \<longrightarrow>
       edit_distance (lowercase u input) c \<le> edit_distance (lowercase u input) d"
proof -
  let ?l = "lowercase u input" and ?P = "\<lambda>c. starts_with c (lowercase u input) \<or> starts_with (lowercase u input) c"
  show ?thesis
  proof (cases "find ?P KNOWN_COMMANDS")
    case (Some d)
    then have "d = c" using assms by (simp add: nearest_command_def Let_def)
    then show ?thesis
      using find_SomeD [OF Some] that(1) by (simp add: is_known_command_def)
  next
    case None
    let ?m = "if length ?l \<le> 4 then 1 else (2::nat)"
    let ?near = "filter (\<lambda>c. edit_distance ?l c \<le> ?m) KNOWN_COMMANDS"
    have m: "min_by (edit_distance ?l) ?near = Some c"
      using assms None unfolding nearest_command_def Let_def by simp
    have "\<forall>d. is_known_command d \<longrightarrow> edit_distance ?l c \<le> edit_distance ?l d"
    proof (intro allI impI)
      fix d assume d: "is_known_command d"
      show "edit_distance ?l c \<le> edit_distance ?l d"
      proof (cases "edit_distance ?l d \<le> ?m")
        case True
        then have "d \<in> set ?near" using d by (simp add: is_known_command_def)
        then show ?thesis using min_by_Some [OF m] by blast
      next
        case False
        then show ?thesis using min_by_Some [OF m] by auto
      qed
    qed
    moreover have "is_known_command c" "edit_distance ?l c \<le> ?m"
      using min_by_Some [OF m] by (simp_all add: is_known_command_def)
    ultimately show ?thesis using that(2) by blast
  qed
qed

theorem suggestion_is_close:
  assumes "nearest_command u input = Some c"
  shows "is_known_command c
    \<and> (starts_with c (lowercase u input) \<or> starts_with (lowercase u input) c
       \<or> (\<exists>n \<le> (if length (lowercase u input) \<le> 4 then 1 else 2).
            edits n (utf8_chars (lowercase u input)) (utf8_chars c)
            \<and> (\<forall>d m. is_known_command d \<longrightarrow> edits m (utf8_chars (lowercase u input)) (utf8_chars d)
                 \<longrightarrow> n \<le> m)))"
  using assms
proof (rule nearest_command_cases)
  assume k: "is_known_command c"
    and d: "edit_distance (lowercase u input) c \<le> (if length (lowercase u input) \<le> 4 then 1 else 2)"
    and m: "\<forall>d. is_known_command d \<longrightarrow>
       edit_distance (lowercase u input) c \<le> edit_distance (lowercase u input) d"
  show ?thesis
    using k d m edit_distance_edits edit_distance_le by (meson order_trans)
qed blast

lemma example_nearest: "nearest_command ascii_tables ''clck'' = Some ''click''"
  by code_simp

lemma suggestion_is_close_witness: "is_known_command ''click''"
  using suggestion_is_close [OF example_nearest] by blast

section \<open>Shell quoting\<close>










section \<open>Clipboard permission\<close>

lemma clipboard_scan_Inr:
  "clipboard_scan boundary index as allow = Inr b \<Longrightarrow>
     b = (allow \<or> CLIPBOARD_FLAG \<in> set as)
     \<and> (\<forall>k < length as. as ! k = CLIPBOARD_FLAG \<longrightarrow> index + k + 1 = boundary)"
proof (induction boundary index as allow rule: clipboard_scan.induct)
  case (1 boundary index allow)
  then show ?case by simp
next
  case (2 boundary index a as allow)
  from 2(3) have nv: "\<not> starts_with a (CLIPBOARD_FLAG @ ''='')"
    by (auto split: if_splits)
  show ?case
  proof (cases "a = CLIPBOARD_FLAG")
    case True
    then have c: "index + 1 = boundary" "\<not> allow"
      and r: "clipboard_scan boundary (index + 1) as True = Inr b"
      using 2(3) nv by (auto split: if_splits)
    have "b = (True \<or> CLIPBOARD_FLAG \<in> set as)
        \<and> (\<forall>k < length as. as ! k = CLIPBOARD_FLAG \<longrightarrow> index + 1 + k + 1 = boundary)"
      using 2(1) [OF nv True _ r] c by simp
    then show ?thesis
      using True c by (auto simp: nth_Cons split: nat.splits)
  next
    case False
    then have r: "clipboard_scan boundary (index + 1) as allow = Inr b"
      using 2(3) nv by simp
    have "b = (allow \<or> CLIPBOARD_FLAG \<in> set as)
        \<and> (\<forall>k < length as. as ! k = CLIPBOARD_FLAG \<longrightarrow> index + 1 + k + 1 = boundary)"
      by (rule 2(2) [OF nv False r])
    then show ?thesis
      using False by (auto simp: nth_Cons split: nat.splits)
  qed
qed

lemma filter_enumerate_all:
  "(\<And>k. n \<le> k \<Longrightarrow> k < n + length xs \<Longrightarrow> P k) \<Longrightarrow>
     map snd (filter (\<lambda>(k, a). P k) (enumerate n xs)) = xs"
  by (induction xs arbitrary: n) auto

lemma filter_enumerate_none:
  "(\<And>k. n \<le> k \<Longrightarrow> k < n + length xs \<Longrightarrow> \<not> P k) \<Longrightarrow>
     filter (\<lambda>(k, a). P k) (enumerate n xs) = []"
  by (induction xs arbitrary: n) auto

lemma filter_enumerate_append:
  "map snd (filter (\<lambda>(k, a). P k) (enumerate 0 (A @ M @ R))) =
     map snd (filter (\<lambda>(k, a). P k) (enumerate 0 A))
     @ map snd (filter (\<lambda>(k, a). P k) (enumerate (length A) M))
     @ map snd (filter (\<lambda>(k, a). P k) (enumerate (length A + length M) R))"
  by (simp add: enumerate_append_eq)

lemma editor_rest:
  assumes b: "b \<le> length args" and a: "allow \<Longrightarrow> 0 < b"
  shows "map snd (filter (\<lambda>(k, a). k \<noteq> b \<and> \<not> (allow \<and> k + 1 = b)) (enumerate 0 args))
    = take (if allow then b - 1 else b) args @ drop (Suc b) args"
proof -
  let ?P = "\<lambda>k. k \<noteq> b \<and> \<not> (allow \<and> k + 1 = b)" and ?c = "if allow then b - 1 else b"
  let ?A = "take ?c args" and ?M = "drop ?c (take (Suc b) args)" and ?R = "drop (Suc b) args"
  have "?A @ ?M = take (Suc b) args"
    using append_take_drop_id [of ?c "take (Suc b) args"] by (simp add: min_def split: if_splits)
  then have args: "args = ?A @ ?M @ ?R"
    by (metis append.assoc append_take_drop_id)
  have la: "length ?A = ?c" using b by auto
  have "map snd (filter (\<lambda>(k, a). ?P k) (enumerate 0 ?A)) = ?A"
    by (rule filter_enumerate_all) (auto simp: la split: if_splits)
  moreover have "filter (\<lambda>(k, a). ?P k) (enumerate ?c ?M) = []"
    by (rule filter_enumerate_none) (use a in \<open>auto split: if_splits\<close>)
  moreover have "map snd (filter (\<lambda>(k, a). ?P k) (enumerate (?c + length ?M) ?R)) = ?R"
  proof (cases "b < length args")
    case True
    then have "?c + length ?M = Suc b" by auto
    then show ?thesis by (intro filter_enumerate_all) auto
  qed simp
  ultimately show ?thesis
    using filter_enumerate_append [of ?P ?A ?M ?R] unfolding args [symmetric] la
    by (simp only: list.map append_Nil)
qed

definition clipboard_boundary :: "string list \<Rightarrow> nat" where
  "clipboard_boundary args = unwrap_or (length args) (position (\<lambda>a. a = ''--'') args)"

lemma clipboard_boundary_le: "clipboard_boundary args \<le> length args"
  by (auto simp: clipboard_boundary_def unwrap_or_def position_Some split: option.split)

theorem clipboard_permission:
  assumes "editor_clipboard_args args required = Inr (rest, allow)"
  defines "b \<equiv> clipboard_boundary args"
  shows "(allow \<longleftrightarrow> required < b \<and> args ! (b - 1) = CLIPBOARD_FLAG)
    \<and> rest = take (if allow then b - 1 else b) args @ drop (Suc b) args"
proof -
  let ?opts = "drop required (take b args)"
  have b: "b \<le> length args" by (simp add: b_def clipboard_boundary_le)
  from assms(1) have sc: "clipboard_scan b required ?opts False = Inr allow"
    and r: "rest = map snd (filter (\<lambda>(k, a). k \<noteq> b \<and> \<not> (allow \<and> k + 1 = b)) (enumerate 0 args))"
    by (auto simp: editor_clipboard_args_def Let_def and_then_Inr_iff b_def clipboard_boundary_def)
  from clipboard_scan_Inr [OF sc] have al: "allow \<longleftrightarrow> CLIPBOARD_FLAG \<in> set ?opts"
    and at: "\<And>k. k < length ?opts \<Longrightarrow> ?opts ! k = CLIPBOARD_FLAG \<Longrightarrow> required + k + 1 = b"
    by auto
  have "allow \<longleftrightarrow> required < b \<and> args ! (b - 1) = CLIPBOARD_FLAG"
  proof
    assume allow
    then obtain k where k: "k < length ?opts" "?opts ! k = CLIPBOARD_FLAG"
      using al by (auto simp: in_set_conv_nth)
    then have "required + k + 1 = b" using at by blast
    then show "required < b \<and> args ! (b - 1) = CLIPBOARD_FLAG"
      using k b by auto
  next
    assume h: "required < b \<and> args ! (b - 1) = CLIPBOARD_FLAG"
    then have "?opts ! (b - 1 - required) = CLIPBOARD_FLAG" "b - 1 - required < length ?opts"
      using b by auto
    then show allow using al nth_mem by metis
  qed
  then show ?thesis
    using r editor_rest [OF b, of allow] by auto
qed

lemma clipboard_permission_witness:
  "editor_clipboard_args [''#e'', ''--allow-clipboard-fallback''] 2
     = Inr ([''#e'', ''--allow-clipboard-fallback''], False)
   \<and> \<not> (2 < clipboard_boundary [''#e'', ''--allow-clipboard-fallback''])"
proof -
  have e: "editor_clipboard_args [''#e'', ''--allow-clipboard-fallback''] 2
      = Inr ([''#e'', ''--allow-clipboard-fallback''], False)"
    by code_simp
  have b: "clipboard_boundary [''#e'', ''--allow-clipboard-fallback''] = 2"
    by code_simp
  show ?thesis
    using clipboard_permission [OF e] e by (simp add: b)
qed

end
