(* ===== verification/PageCommands.thy ===== *)
theory PageCommands
  imports CommandLine
begin

text \<open>
  Command parsers that read or act on the page (\<open>commands.rs\<close>): \<open>get\<close>, \<open>is\<close>,
  \<open>form\<close>, \<open>extract\<close>, \<open>find\<close>, \<open>pick\<close>, \<open>tab list\<close> and \<open>mouse\<close>. Each takes
  the words after the command's name and the request id and answers a command for the daemon
  or a parse error. What a parser reads from outside (a file, standard input, a JSON text, a
  decimal fraction, Rust's debug quoting) is a field of the environment.
\<close>


record parse_env =
  pe_read_file :: "string \<Rightarrow> string + string"
  pe_stdin :: string
  pe_json :: "string \<Rightarrow> string + json"
  pe_f64 :: "string \<Rightarrow> jnum option"
  pe_var :: "string \<Rightarrow> string option"
  pe_debug :: "string \<Rightarrow> string"

type_synonym parsed = "parse_error + json"

definition need :: "string \<Rightarrow> string \<Rightarrow> string list \<Rightarrow> nat \<Rightarrow> parse_error + string" where
  "need context usage rest n = ok_or (MissingArguments context usage) (get_at rest n)"

lemma need_Inr [simp]: "need c usage rest n = Inr s \<longleftrightarrow> get_at rest n = Some s"
  by (simp add: need_def)

definition any_of :: "string list \<Rightarrow> string list \<Rightarrow> bool" where
  "any_of flags rest \<longleftrightarrow> list_ex (\<lambda>a. a \<in> set flags) rest"

definition parse_i32 :: "string \<Rightarrow> int option" where
  "parse_i32 s = filter_opt (\<lambda>v. - (2 ^ 31) \<le> v \<and> v < 2 ^ 31) (parse_i64 s)"

definition jint_val :: "int \<Rightarrow> json" where
  "jint_val v = JNum (JInt v)"

section \<open>get and is\<close>

definition parse_get_text :: "string list \<Rightarrow> string \<Rightarrow> json" where
  "parse_get_text rest i =
     (if any_of [''--all-frames'', ''--frames'', ''-a''] (tl rest)
      then command i ''gettext'' [(''allFrames'', JBool True)]
      else if any_of [''--pierce'', ''--shadow'', ''--deep''] (tl rest)
      then command i ''gettext'' [(''pierce'', JBool True)]
      else if any_of [''--main'', ''--readable'', ''-m''] (tl rest)
      then command i ''gettext'' [(''main'', JBool True)]
      else
        (case find (\<lambda>a. \<not> starts_with a ''--'') (tl rest) of
           Some sel \<Rightarrow> command i ''gettext'' [(''selector'', JStr sel)]
         | None \<Rightarrow> command i ''gettext'' [(''allFrames'', JBool True)]))"

definition get_valid :: "string list" where
  "get_valid = [''text'', ''html'', ''value'', ''attr'', ''url'', ''title'', ''count'', ''box'', ''styles'', ''cdp-url'']"

text \<open>The five subcommands whose one argument is a selector.\<close>

definition selector_command ::
  "string \<Rightarrow> string \<Rightarrow> string \<Rightarrow> string list \<Rightarrow> string \<Rightarrow> parsed" where
  "selector_command context usage action rest i =
     and_then (need context usage rest 1) (\<lambda>sel.
       Inr (command i action [(''selector'', JStr sel)]))"

definition parse_get_value :: "string list \<Rightarrow> string \<Rightarrow> parsed" where
  "parse_get_value rest i =
     and_then (editor_clipboard_args (tl rest) 1) (\<lambda>(editor_args, allow).
       and_then (need ''get value'' ''get value <selector>'' editor_args 0) (\<lambda>sel.
         Inr (set_if ''allowClipboardFallback'' allow
           (command i ''inputvalue'' [(''selector'', JStr sel),
              (''revealValues'', JBool (any_of [''--reveal-values''] editor_args))]))))"

definition parse_get :: "string list \<Rightarrow> string \<Rightarrow> parsed" where
  "parse_get rest i =
     (case get_at rest 0 of
        None \<Rightarrow> Inl (MissingArguments ''get''
          ''get <text|html|value|attr|url|title|count|box|styles|cdp-url> [args...]'')
      | Some sub \<Rightarrow>
          if sub = ''text''
          then Inr (set_if ''includeHidden'' (any_of [''--include-hidden''] (tl rest))
                 (parse_get_text rest i))
          else if sub = ''html'' then selector_command ''get html'' ''get html <selector>'' ''innerhtml'' rest i
          else if sub = ''value'' then parse_get_value rest i
          else if sub = ''attr'' then
            and_then (need ''get attr'' ''get attr <selector> <attribute>'' rest 1) (\<lambda>sel.
              and_then (need ''get attr'' ''get attr <selector> <attribute>'' rest 2) (\<lambda>attr.
                Inr (command i ''getattribute'' [(''selector'', JStr sel), (''attribute'', JStr attr)])))
          else if sub = ''url'' then Inr (command i ''url'' [])
          else if sub = ''cdp-url'' then Inr (command i ''cdp_url'' [])
          else if sub = ''title'' then Inr (command i ''title'' [])
          else if sub = ''count'' then selector_command ''get count'' ''get count <selector>'' ''count'' rest i
          else if sub = ''box'' then selector_command ''get box'' ''get box <selector>'' ''boundingbox'' rest i
          else if sub = ''styles'' then selector_command ''get styles'' ''get styles <selector>'' ''styles'' rest i
          else Inl (UnknownSubcommand sub get_valid))"

definition parse_is :: "string list \<Rightarrow> string \<Rightarrow> parsed" where
  "parse_is rest i =
     (case get_at rest 0 of
        None \<Rightarrow> Inl (MissingArguments ''is'' ''is <visible|enabled|checked> <selector>'')
      | Some sub \<Rightarrow>
          if sub = ''visible'' then selector_command ''is visible'' ''is visible <selector>'' ''isvisible'' rest i
          else if sub = ''enabled'' then selector_command ''is enabled'' ''is enabled <selector>'' ''isenabled'' rest i
          else if sub = ''checked'' then selector_command ''is checked'' ''is checked <selector>'' ''ischecked'' rest i
          else Inl (UnknownSubcommand sub [''visible'', ''enabled'', ''checked'']))"

section \<open>form fill and extract\<close>

definition form_usage :: string where
  "form_usage = ''form fill --map <json> [--submit <selector|text>]  (also --map-file <path> / --stdin)''"

fun form_options ::
  "parse_env \<Rightarrow> string list \<Rightarrow> string option \<Rightarrow> string option
    \<Rightarrow> parse_error + (string option \<times> string option)" where
  "form_options e [] m submit = Inr (m, submit)"
| "form_options e (a # r) m submit =
     (if a = ''--map'' then form_options e (drop 1 r) (get_at r 0) submit
      else if a = ''--map-file'' then
        (case get_at r 0 of
           None \<Rightarrow> Inl (MissingArguments ''form fill --map-file'' form_usage)
         | Some p \<Rightarrow>
             (case pe_read_file e p of
                Inl err \<Rightarrow> Inl (InvalidValue
                  (''form fill --map-file: cannot read '' @ p @ '': '' @ err) form_usage)
              | Inr t \<Rightarrow> form_options e (drop 1 r) (Some t) submit))
      else if a = ''--stdin'' then form_options e r (Some (pe_stdin e)) submit
      else if a = ''--submit'' then form_options e (drop 1 r) m (get_at r 0)
      else form_options e r m submit)"

definition parse_form :: "parse_env \<Rightarrow> string list \<Rightarrow> string \<Rightarrow> parsed" where
  "parse_form e rest i =
     (if get_at rest 0 \<noteq> Some ''fill''
      then Inl (UnknownSubcommand (unwrap_or [] (get_at rest 0)) [''fill''])
      else
        and_then (form_options e (tl rest) None None) (\<lambda>(m, submit).
          and_then (ok_or (MissingArguments ''form fill'' form_usage) m) (\<lambda>text.
            case pe_json e (trim text) of
              Inl err \<Rightarrow> Inl (InvalidValue (''form fill --map is not valid JSON: '' @ err) form_usage)
            | Inr (JObj kvs) \<Rightarrow>
                if kvs = [] then Inl (InvalidValue ''form fill --map must be a non-empty JSON object'' form_usage)
                else Inr (set_str ''submit'' submit (command i ''form_fill'' [(''map'', JObj kvs)]))
            | Inr _ \<Rightarrow> Inl (InvalidValue ''form fill --map must be a non-empty JSON object'' form_usage))))"

text \<open>The first array in an object whose first element is a non-empty object.\<close>

definition fields_of :: "json \<Rightarrow> obj option" where
  "fields_of v =
     (case v of
        JArr (JObj fs # _) \<Rightarrow> if fs = [] then None else Some fs
      | _ \<Rightarrow> None)"

fun first_fields :: "json list \<Rightarrow> obj option" where
  "first_fields [] = None"
| "first_fields (v # vs) = or_else (fields_of v) (first_fields vs)"

definition normalize_extract_schema :: "json \<Rightarrow> json result" where
  "normalize_extract_schema schema =
     (if (case jget schema ''fields'' of Some f \<Rightarrow> is_object f | None \<Rightarrow> False) then Inr schema
      else
        (case first_fields (case schema of JObj m \<Rightarrow> map snd m | _ \<Rightarrow> []) of
           Some fs \<Rightarrow> Inr (jobj [(''fields'', JObj fs)])
         | None \<Rightarrow> Inl (''extract schema needs a '' @ [CHR 0x22] @ ''fields'' @ [CHR 0x22] @ '' object, or an array-shaped schema like {'' @ [CHR 0x22] @ ''items'' @ [CHR 0x22] @ '':[{'' @ [CHR 0x22] @ ''title'' @ [CHR 0x22] @ '':'' @ [CHR 0x22, CHR 0xE2, CHR 0x80, CHR 0xA6, CHR 0x22] @ '','' @ [CHR 0x22] @ ''url'' @ [CHR 0x22] @ '':'' @ [CHR 0x22, CHR 0xE2, CHR 0x80, CHR 0xA6, CHR 0x22] @ ''}]}'')))"

definition extract_usage :: string where
  "extract_usage = ''extract --schema <json> | --schema-file <path> | --stdin  [--frame <f>]''"

definition extract_source :: "parse_env \<Rightarrow> string list \<Rightarrow> parse_error + string" where
  "extract_source e rest =
     (if get_at rest 0 = Some ''--schema'' then need ''extract --schema'' extract_usage rest 1
      else if get_at rest 0 = Some ''--schema-file'' then
        and_then (need ''extract --schema-file'' extract_usage rest 1) (\<lambda>p.
          case pe_read_file e p of
            Inl err \<Rightarrow> Inl (InvalidValue
              (''extract --schema-file: cannot read '' @ p @ '': '' @ err) extract_usage)
          | Inr t \<Rightarrow> Inr t)
      else if get_at rest 0 = Some ''--stdin'' then Inr (pe_stdin e)
      else Inl (MissingArguments ''extract'' extract_usage))"

definition parse_extract :: "parse_env \<Rightarrow> string list \<Rightarrow> string \<Rightarrow> parsed" where
  "parse_extract e rest i =
     and_then (if get_at rest 0 = Some ''--frame''
               then (case get_at rest 1 of
                       None \<Rightarrow> Inl (InvalidValue ''extract --frame requires a value'' extract_usage)
                     | Some v \<Rightarrow> Inr (Some v, drop 2 rest))
               else Inr (None, rest)) (\<lambda>(frame, rest1).
       and_then (extract_source e rest1) (\<lambda>text.
         case pe_json e (trim text) of
           Inl err \<Rightarrow> Inl (InvalidValue (''extract schema is not valid JSON: '' @ err) extract_usage)
         | Inr v \<Rightarrow>
             (case normalize_extract_schema v of
                Inl message \<Rightarrow> Inl (InvalidValue message extract_usage)
              | Inr schema \<Rightarrow>
                  Inr (set_str ''frame'' frame (command i ''extract'' [(''schema'', schema)])))))"

section \<open>find\<close>

definition find_strategies :: "string list" where
  "find_strategies = [''role'', ''text'', ''label'', ''placeholder'', ''alt'', ''title'', ''testid'']"

definition find_usage :: string where
  "find_usage = ''find <role|text|label|placeholder|alt|title|testid> <value> [action] [text] [--name <name>] [--exact] [--within <CSS|@ref>]''"

record find_options =
  fo_within :: "string option"
  fo_name :: "string option"
  fo_exact :: bool
  fo_words :: "string list"

definition find_value :: "string list \<Rightarrow> parse_error + string" where
  "find_value r =
     ok_or (InvalidValue ''find option needs a nonempty value'' find_usage)
       (filter_opt (\<lambda>v. v \<noteq> [] \<and> \<not> starts_with v ''--'') (get_at r 0))"

fun find_scan ::
  "string \<Rightarrow> string list \<Rightarrow> find_options \<Rightarrow> parse_error + find_options" where
  "find_scan strategy [] fo = Inr fo"
| "find_scan strategy (a # r) fo =
     (if a = ''--'' then Inr (fo\<lparr>fo_words := fo_words fo @ r\<rparr>)
      else if a = ''--within'' then
        (case find_value r of
           Inl err \<Rightarrow> Inl err
         | Inr v \<Rightarrow>
             if fo_within fo \<noteq> None then Inl (InvalidValue ''find --within given twice'' find_usage)
             else find_scan strategy (drop 1 r) (fo\<lparr>fo_within := Some v\<rparr>))
      else if a = ''--name'' then
        (case find_value r of
           Inl err \<Rightarrow> Inl err
         | Inr v \<Rightarrow>
             if strategy \<noteq> ''role'' then Inl (InvalidValue ''find --name applies only to role'' find_usage)
             else if fo_name fo \<noteq> None then Inl (InvalidValue ''find --name given twice'' find_usage)
             else find_scan strategy (drop 1 r) (fo\<lparr>fo_name := Some v\<rparr>))
      else if a = ''--exact'' then
        (if get_at r 0 = Some ''true'' \<or> get_at r 0 = Some ''false''
         then find_scan strategy (drop 1 r) (fo\<lparr>fo_exact := (get_at r 0 = Some ''true'')\<rparr>)
         else find_scan strategy r (fo\<lparr>fo_exact := True\<rparr>))
      else if starts_with a ''-'' then
        Inl (InvalidValue ''unknown find option; use --within, --name, --exact, or -- before literal text'' find_usage)
      else find_scan strategy r (fo\<lparr>fo_words := fo_words fo @ [a]\<rparr>))"

definition find_verbs :: "string list" where
  "find_verbs = [''locate'', ''click'', ''fill'', ''type'', ''focus'', ''check'', ''uncheck'', ''hover'', ''text'']"

definition find_action_of :: "string \<Rightarrow> string" where
  "find_action_of s =
     (if s = ''role'' then ''getbyrole'' else if s = ''text'' then ''getbytext''
      else if s = ''label'' then ''getbylabel'' else if s = ''placeholder'' then ''getbyplaceholder''
      else if s = ''alt'' then ''getbyalttext'' else if s = ''title'' then ''getbytitle''
      else ''getbytestid'')"

definition find_parameter_of :: "string \<Rightarrow> string" where
  "find_parameter_of s =
     (if s = ''alt'' \<or> s = ''title'' then ''text'' else if s = ''testid'' then ''testId'' else s)"

definition find_command ::
  "string \<Rightarrow> string \<Rightarrow> string \<Rightarrow> find_options \<Rightarrow> parsed" where
  "find_command strategy v i fo =
     (let action = unwrap_or ''locate'' (get_at (fo_words fo) 0); text = drop 1 (fo_words fo)
      in if action \<notin> set find_verbs then Inl (InvalidValue ''unsupported find action'' find_usage)
         else if action \<in> {''fill'', ''type''} \<and> text = []
         then Inl (InvalidValue ''find fill/type needs text'' find_usage)
         else if action \<notin> {''fill'', ''type''} \<and> text \<noteq> []
         then Inl (InvalidValue ''unexpected find positional arguments'' find_usage)
         else Inr (set_str ''value'' (if text = [] then None else Some (join '' '' text))
                (set_str ''name'' (fo_name fo)
                  (set_str ''within'' (fo_within fo)
                    (jset (find_parameter_of strategy) (JStr v)
                      (command i (find_action_of strategy)
                        [(''subaction'', JStr action), (''exact'', JBool (fo_exact fo))]))))))"

text \<open>The older grammar: no option checking, and every other word is a query.\<close>

definition legacy_usage :: "string \<Rightarrow> string" where
  "legacy_usage loc =
     (if loc = ''role'' then ''find role <role> [action] [--name <name>] [--exact]''
      else if loc = ''text'' then ''find text <text> [action] [--exact]''
      else if loc = ''label'' then ''find label <label> [action] [text] [--exact]''
      else if loc = ''placeholder'' then ''find placeholder <text> [action] [text] [--exact]''
      else if loc = ''alt'' then ''find alt <text> [action] [--exact]''
      else if loc = ''title'' then ''find title <text> [action] [--exact]''
      else if loc = ''testid'' then ''find testid <id> [action] [text]''
      else if loc = ''first'' then ''find first <selector> [action] [text]''
      else if loc = ''last'' then ''find last <selector> [action] [text]''
      else ''find <locator> <value> [action] [text]'')"

fun legacy_options ::
  "string \<Rightarrow> string list \<Rightarrow> string option \<Rightarrow> bool \<Rightarrow> string list
    \<Rightarrow> parse_error + (string option \<times> bool \<times> string list)" where
  "legacy_options loc [] name exact parts = Inr (name, exact, parts)"
| "legacy_options loc (a # r) name exact parts =
     (if a = ''--exact'' then legacy_options loc r name True parts
      else if a = ''--name'' then
        (case get_at r 0 of
           None \<Rightarrow> Inl (MissingArguments (''find '' @ loc)
             ''find role <role> [action] [--name <name>] [--exact]'')
         | Some n \<Rightarrow> legacy_options loc (drop 1 r) (Some n) exact parts)
      else legacy_options loc r name exact (parts @ [a]))"

definition legacy_command ::
  "string \<Rightarrow> string \<Rightarrow> string \<Rightarrow> string \<Rightarrow> string option \<Rightarrow> bool \<Rightarrow> string list \<Rightarrow> json" where
  "legacy_command loc v i sub name exact parts =
     (let filled = set_str ''value'' (if parts = [] then None else Some (join '' '' parts));
          s = (''subaction'', JStr sub); x = (''exact'', JBool exact)
      in if loc = ''role'' then
           filled (command i ''getbyrole'' [(''role'', JStr v), s, (''name'', jstr_opt name), x])
         else if loc = ''text'' then command i ''getbytext'' [(''text'', JStr v), s, x]
         else if loc = ''label'' then filled (command i ''getbylabel'' [(''label'', JStr v), s, x])
         else if loc = ''placeholder''
         then filled (command i ''getbyplaceholder'' [(''placeholder'', JStr v), s, x])
         else if loc = ''alt'' then command i ''getbyalttext'' [(''text'', JStr v), s, x]
         else if loc = ''title'' then command i ''getbytitle'' [(''text'', JStr v), s, x]
         else if loc = ''testid'' then filled (command i ''getbytestid'' [(''testId'', JStr v), s])
         else filled (command i ''nth''
                [(''selector'', JStr v), (''index'', jint_val (if loc = ''first'' then 0 else - 1)), s]))"

definition find_nth :: "string list \<Rightarrow> string \<Rightarrow> parsed" where
  "find_nth rest i =
     (let miss = MissingArguments ''find nth'' ''find nth <index> <selector> [action] [text]'' in
      and_then (ok_or miss (get_at rest 1)) (\<lambda>idx.
        and_then (ok_or miss (parse_i32 idx)) (\<lambda>n.
          and_then (ok_or miss (get_at rest 2)) (\<lambda>sel.
            Inr (set_str ''value'' (if 4 < length rest then Some (join '' '' (drop 4 rest)) else None)
              (command i ''nth'' [(''selector'', JStr sel), (''index'', jint_val n),
                 (''subaction'', JStr (unwrap_or ''locate'' (get_at rest 3)))]))))))"

definition parse_find_legacy :: "string list \<Rightarrow> string \<Rightarrow> parsed" where
  "parse_find_legacy rest i =
     (case get_at rest 0 of
        None \<Rightarrow> Inl (MissingArguments ''find'' ''find <locator> <value> [action] [text]'')
      | Some loc \<Rightarrow>
          if loc = ''query'' then
            (if get_at rest 1 = None
             then Inl (MissingArguments ''find query'' ''find query <natural-language description>'')
             else Inr (command i ''findfuzzy'' [(''query'', JStr (join '' '' (tl rest)))]))
          else if loc \<in> set (find_strategies @ [''first'', ''last'']) then
            and_then (need (''find '' @ loc) (legacy_usage loc) rest 1) (\<lambda>v.
              let verb = filter_opt (\<lambda>s. \<not> starts_with s ''--'') (get_at rest 2)
              in and_then (legacy_options loc (drop (if verb \<noteq> None then 3 else 2) rest)
                     None False []) (\<lambda>(name, exact, parts).
                   Inr (legacy_command loc v i (unwrap_or ''locate'' verb) name exact parts)))
          else if loc = ''nth'' then find_nth rest i
          else Inr (command i ''findfuzzy'' [(''query'', JStr (join '' '' rest))]))"

definition parse_find :: "string list \<Rightarrow> string \<Rightarrow> parsed" where
  "parse_find rest i =
     (case get_at rest 0 of
        None \<Rightarrow> parse_find_legacy rest i
      | Some strategy \<Rightarrow>
          if strategy \<notin> set find_strategies then parse_find_legacy rest i
          else
            and_then (need ''find'' find_usage rest 1) (\<lambda>v.
              and_then (find_scan strategy (drop 2 rest)
                  \<lparr> fo_within = None, fo_name = None, fo_exact = False, fo_words = [] \<rparr>) (\<lambda>fo.
                find_command strategy v i fo)))"

section \<open>pick, tab list and mouse\<close>

definition PICK_USAGE :: string where
  "PICK_USAGE = (''pick <selector|@ref> --option '' @ [CHR 0x22] @ ''<text>'' @ [CHR 0x22] @ ''  (or: pick <selector|@ref> '' @ [CHR 0x22] @ ''<text>'' @ [CHR 0x22] @ '')'')"

definition parse_pick_args :: "parse_env \<Rightarrow> string list \<Rightarrow> parse_error + (string \<times> string)" where
  "parse_pick_args e rest =
     (let missing = MissingArguments ''pick'' PICK_USAGE;
          is_option = (\<lambda>a. a = ''--option'' \<or> a = ''-o'')
      in and_then (ok_or missing (filter_opt (\<lambda>s. \<not> is_option s) (get_at rest 0))) (\<lambda>sel.
           and_then
             (case position is_option rest of
                Some p \<Rightarrow>
                  if p \<noteq> 1
                  then Inl (InvalidValue
                    (''pick: unexpected '' @ pe_debug e (join '' '' (drop 1 (take p rest)))
                     @ '' before --option; give the target, then --option and the option text'')
                    PICK_USAGE)
                  else Inr (join '' '' (drop (p + 1) rest))
              | None \<Rightarrow>
                  (case find (\<lambda>a. starts_with a ''--'') (tl rest) of
                     Some flag \<Rightarrow> Inl (InvalidValue (''pick: unknown flag '' @ pe_debug e flag) PICK_USAGE)
                   | None \<Rightarrow> Inr (join '' '' (tl rest))))
             (\<lambda>option. if trim option = [] then Inl missing else Inr (sel, option))))"

definition pick_command :: "parse_env \<Rightarrow> string list \<Rightarrow> string \<Rightarrow> parsed" where
  "pick_command e rest i =
     and_then (parse_pick_args e rest) (\<lambda>(sel, option).
       Inr (command i ''pick'' [(''selector'', JStr sel), (''option'', JStr option)]))"

definition TAB_LIST_USAGE :: string where
  "TAB_LIST_USAGE = ''tab list [--full] [--all [--limit <n>]]''"

definition tab_list_command ::
  "parse_env \<Rightarrow> string \<Rightarrow> string list \<Rightarrow> bool \<Rightarrow> string option \<Rightarrow> parsed" where
  "tab_list_command e i rest full limit =
     (let cmd = set_if ''full'' full (command i ''tab_list'' []);
          all = ''--all'' \<in> set rest
      in and_then
           (if ''--limit'' \<in> set rest then
              (if \<not> all then
                 Inl (InvalidValue ''--limit applies to `tab list --all` only'' TAB_LIST_USAGE)
               else
                 (case filter_opt (\<lambda>n. 1 \<le> n) (Option.bind limit parse_u64) of
                    None \<Rightarrow> Inl (InvalidValue (''--limit needs a positive number of rows, got ''
                      @ pe_debug e (unwrap_or [] limit)) TAB_LIST_USAGE)
                  | Some n \<Rightarrow> Inr (jset ''limit'' (jnat n) cmd)))
            else Inr cmd)
           (\<lambda>cmd1. Inr (set_if ''all'' all cmd1)))"

definition parse_mouse :: "string list \<Rightarrow> string \<Rightarrow> parsed" where
  "parse_mouse rest i =
     (let miss = MissingArguments ''mouse move'' ''mouse move <x> <y>'';
          button = (''button'', JStr (unwrap_or ''left'' (get_at rest 1)))
      in case get_at rest 0 of
           None \<Rightarrow> Inl (MissingArguments ''mouse'' ''mouse <move|down|up|wheel> [args...]'')
         | Some sub \<Rightarrow>
             if sub = ''move'' then
               and_then (ok_or miss (get_at rest 1)) (\<lambda>xs.
                 and_then (ok_or miss (get_at rest 2)) (\<lambda>ys.
                   and_then (ok_or miss (parse_i32 xs)) (\<lambda>x.
                     and_then (ok_or miss (parse_i32 ys)) (\<lambda>y.
                       Inr (command i ''mousemove'' [(''x'', jint_val x), (''y'', jint_val y)])))))
             else if sub = ''down'' then Inr (command i ''mousedown'' [button])
             else if sub = ''up'' then Inr (command i ''mouseup'' [button])
             else if sub = ''wheel'' then
               Inr (command i ''wheel''
                 [(''deltaX'', jint_val (unwrap_or 0 (Option.bind (get_at rest 2) parse_i32))),
                  (''deltaY'', jint_val (unwrap_or 100 (Option.bind (get_at rest 1) parse_i32)))])
             else Inl (UnknownSubcommand sub [''move'', ''down'', ''up'', ''wheel'']))"
end
