(* ===== verification/SessionCommands.thy ===== *)
theory SessionCommands
  imports PageCommands
begin

text \<open>
  Command parsers that configure the session (\<open>commands.rs\<close>): \<open>viewport\<close> and \<open>set\<close>,
  \<open>network\<close>, \<open>storage\<close>, \<open>react\<close>, \<open>script\<close> and \<open>teach\<close>.
\<close>


section \<open>viewport and set\<close>

definition viewport_usage :: string where
  "viewport_usage = ''viewport <width> <height> [scale] [--dpr N] [--mobile] | viewport reset''"

definition not_flag :: "string \<Rightarrow> bool" where
  "not_flag a \<longleftrightarrow> \<not> starts_with a ''--''"

definition is_x :: "char \<Rightarrow> bool" where
  "is_x c \<longleftrightarrow> c = CHR 0x78 \<or> c = CHR 0x58"

text \<open>The two numbers before the first and between the first and second \<open>x\<close>.\<close>

definition size_token :: "string \<Rightarrow> (int \<times> int) option" where
  "size_token s =
     (let w = takeWhile (\<lambda>c. \<not> is_x c) s;
          h = takeWhile (\<lambda>c. \<not> is_x c) (tl (dropWhile (\<lambda>c. \<not> is_x c) s))
      in Option.bind (parse_i32 w) (\<lambda>x. map_option (\<lambda>y. (x, y)) (parse_i32 h)))"

definition viewport_size ::
  "string list \<Rightarrow> parse_error + (int \<times> int \<times> string option)" where
  "viewport_size positionals =
     (case get_at positionals 0 of
        None \<Rightarrow> Inl (MissingArguments ''viewport'' viewport_usage)
      | Some first \<Rightarrow>
          if list_ex is_x first then
            (case size_token first of
               Some (w, h) \<Rightarrow> Inr (w, h, get_at positionals 1)
             | None \<Rightarrow> Inl (InvalidValue (''Invalid viewport size: '' @ first) viewport_usage))
          else
            and_then (need ''viewport'' viewport_usage positionals 1) (\<lambda>hs.
              and_then (ok_or (InvalidValue (''Invalid width: '' @ first) viewport_usage) (parse_i32 first)) (\<lambda>w.
                and_then (ok_or (InvalidValue (''Invalid height: '' @ hs) viewport_usage) (parse_i32 hs)) (\<lambda>h.
                  Inr (w, h, get_at positionals 2)))))"

definition viewport_scale ::
  "parse_env \<Rightarrow> string list \<Rightarrow> string option \<Rightarrow> parse_error + jnum option" where
  "viewport_scale e rest tok =
     and_then
       (case tok of
          None \<Rightarrow> Inr None
        | Some s \<Rightarrow> and_then (ok_or (InvalidValue (''Invalid scale: '' @ s) viewport_usage) (pe_f64 e s))
            (\<lambda>v. Inr (Some v)))
       (\<lambda>scale.
          case position (\<lambda>a. a = ''--dpr'' \<or> a = ''--scale'') rest of
            None \<Rightarrow> Inr scale
          | Some n \<Rightarrow>
              and_then (ok_or (InvalidValue ''--dpr/--scale needs a number'' viewport_usage)
                  (Option.bind (get_at rest (n + 1)) (pe_f64 e)))
                (\<lambda>v. Inr (Some v)))"

definition parse_viewport :: "parse_env \<Rightarrow> string list \<Rightarrow> string \<Rightarrow> parsed" where
  "parse_viewport e rest i =
     (if get_at rest 0 \<in> {Some ''reset'', Some ''clear'', Some ''off''}
      then Inr (command i ''viewport'' [(''reset'', JBool True)])
      else
        and_then (viewport_size (filter not_flag rest)) (\<lambda>(w, h, tok).
          and_then (viewport_scale e rest tok) (\<lambda>scale.
            Inr (set_if ''mobile'' (''--mobile'' \<in> set rest)
              (set_opt ''deviceScaleFactor'' (map_option JNum scale)
                (command i ''viewport'' [(''width'', jint_val w), (''height'', jint_val h)]))))))"

definition set_valid :: "string list" where
  "set_valid = [''viewport'', ''device'', ''geo'', ''geolocation'', ''offline'', ''headers'', ''credentials'',
     ''auth'', ''media'']"

definition parse_set :: "parse_env \<Rightarrow> string list \<Rightarrow> string \<Rightarrow> parsed" where
  "parse_set e rest i =
     (let geo = MissingArguments ''set geo'' ''set geo <latitude> <longitude>'' in
      case get_at rest 0 of
        None \<Rightarrow> Inl (MissingArguments ''set''
          ''set <viewport|device|geo|offline|headers|credentials|media> [args...]'')
      | Some sub \<Rightarrow>
          if sub = ''viewport'' then parse_viewport e (tl rest) i
          else if sub = ''device'' then
            and_then (need ''set device'' ''set device <name>'' rest 1) (\<lambda>dev.
              Inr (command i ''device'' [(''device'', JStr dev)]))
          else if sub = ''geo'' \<or> sub = ''geolocation'' then
            and_then (ok_or geo (get_at rest 1)) (\<lambda>lat_str.
              and_then (ok_or geo (get_at rest 2)) (\<lambda>lng_str.
                and_then (ok_or geo (pe_f64 e lat_str)) (\<lambda>lat.
                  and_then (ok_or geo (pe_f64 e lng_str)) (\<lambda>lng.
                    Inr (command i ''geolocation''
                      [(''latitude'', JNum lat), (''longitude'', JNum lng)])))))
          else if sub = ''offline'' then
            Inr (command i ''offline'' [(''offline'',
              JBool (case get_at rest 1 of Some s \<Rightarrow> s \<noteq> ''off'' \<and> s \<noteq> ''false'' | None \<Rightarrow> True))])
          else if sub = ''headers'' then
            and_then (need ''set headers'' ''set headers <json>'' rest 1) (\<lambda>text.
              case pe_json e text of
                Inl _ \<Rightarrow> Inl (MissingArguments ''set headers'' ''set headers <json> (must be valid JSON object)'')
              | Inr v \<Rightarrow> Inr (command i ''headers'' [(''headers'', v)]))
          else if sub = ''credentials'' \<or> sub = ''auth'' then
            and_then (need ''set credentials'' ''set credentials <username> <password>'' rest 1) (\<lambda>user.
              and_then (need ''set credentials'' ''set credentials <username> <password>'' rest 2) (\<lambda>pass.
                Inr (command i ''credentials'' [(''username'', JStr user), (''password'', JStr pass)])))
          else if sub = ''media'' then
            Inr (command i ''emulatemedia''
              [(''colorScheme'', JStr (if ''dark'' \<in> set rest then ''dark''
                 else if ''light'' \<in> set rest then ''light'' else ''no-preference'')),
               (''reducedMotion'', JStr (if ''reduced-motion'' \<in> set rest then ''reduce''
                 else ''no-preference''))])
          else Inl (UnknownSubcommand sub set_valid))"

section \<open>network and storage\<close>

text \<open>The word after every occurrence of a repeatable flag.\<close>

fun values_after :: "string \<Rightarrow> string list \<Rightarrow> string list" where
  "values_after name [] = []"
| "values_after name [a] = []"
| "values_after name (a # b # r) =
     (if a = name then b # values_after name (b # r) else values_after name (b # r))"

definition kv_map :: "string \<Rightarrow> string list \<Rightarrow> obj" where
  "kv_map name rest =
     fold (\<lambda>pair m. case split_once (CHR 0x3D) pair of
             Some (k, v) \<Rightarrow> obj_insert k (JStr v) m
           | None \<Rightarrow> m) (values_after name rest) []"

definition u64_flag :: "string \<Rightarrow> string list \<Rightarrow> nat option" where
  "u64_flag name rest = Option.bind (flag_value name rest) parse_u64"

definition obj_field :: "string \<Rightarrow> obj \<Rightarrow> (string \<times> json) list" where
  "obj_field k m = (if m = [] then [] else [(k, JObj m)])"

definition arr_field :: "string \<Rightarrow> json list \<Rightarrow> (string \<times> json) list" where
  "arr_field k xs = (if xs = [] then [] else [(k, JArr xs)])"

definition field :: "string \<Rightarrow> json option \<Rightarrow> (string \<times> json) list" where
  "field k v = (case v of Some x \<Rightarrow> [(k, x)] | None \<Rightarrow> [])"

definition route_response :: "string list \<Rightarrow> (string \<times> json) list" where
  "route_response rest =
     field ''body'' (map_option JStr (flag_value ''--body'' rest))
     @ field ''status'' (map_option jnat (u64_flag ''--status'' rest))
     @ field ''contentType'' (map_option JStr (flag_value ''--content-type'' rest))
     @ obj_field ''headers'' (kv_map ''--header'' rest)"

definition route_request :: "string list \<Rightarrow> (string \<times> json) list" where
  "route_request rest =
     field ''postData'' (map_option JStr (flag_value ''--set-body'' rest))
     @ field ''method'' (map_option JStr (flag_value ''--method'' rest))
     @ field ''url'' (map_option JStr (flag_value ''--rewrite-url'' rest))
     @ obj_field ''headers'' (kv_map ''--set-header'' rest)"

text \<open>\<open>pair.split_once("=>")\<close> and the repeatable edits.\<close>

definition split_arrow :: "string \<Rightarrow> (string \<times> string) option" where
  "split_arrow s =
     (case split_str ''=>'' s of
        a # b # r \<Rightarrow> Some (a, join ''=>'' (b # r))
      | _ \<Rightarrow> None)"

definition pair_json :: "string \<times> string \<Rightarrow> json" where
  "pair_json p = JArr [JStr (fst p), JStr (snd p)]"

definition route_edit :: "string list \<Rightarrow> (string \<times> json) list" where
  "route_edit rest =
     field ''status'' (map_option jnat (u64_flag ''--edit-status'' rest))
     @ obj_field ''headers'' (kv_map ''--edit-header'' rest)
     @ arr_field ''replacements''
         (map pair_json (List.map_filter split_arrow (values_after ''--replace'' rest)))
     @ arr_field ''jsonSets''
         (map pair_json (List.map_filter (split_once (CHR 0x3D)) (values_after ''--set-json'' rest)))"

definition route_part :: "string \<Rightarrow> (string \<times> json) list \<Rightarrow> json \<Rightarrow> json" where
  "route_part k kvs cmd = (if kvs = [] then cmd else jset k (jobj kvs) cmd)"

definition route_usage :: string where
  "route_usage = ''network route <url> [--abort] [--body <s> --status <n> --header K=V --content-type <ct>] [--method <M> --set-body <s> --set-header K=V --rewrite-url <u>] [--resource-type <csv>]''"

definition resource_types :: "string list \<Rightarrow> string option" where
  "resource_types rest =
     Option.bind (position (\<lambda>s. s = ''--resource-type'' \<or> s = ''--resource-types'') rest)
       (\<lambda>n. get_at rest (n + 1))"

definition network_route :: "string list \<Rightarrow> string \<Rightarrow> parsed" where
  "network_route rest i =
     and_then (need ''network route'' route_usage rest 1) (\<lambda>url.
       Inr (set_str ''resourceType'' (resource_types rest)
         (route_part ''responseEdit'' (route_edit rest)
           (route_part ''requestOverride'' (route_request rest)
             (route_part ''response'' (route_response rest)
               (command i ''route'' [(''url'', JStr url), (''abort'', JBool (''--abort'' \<in> set rest))]))))))"

definition parse_network :: "string list \<Rightarrow> string \<Rightarrow> parsed" where
  "parse_network rest i =
     (case get_at rest 0 of
        None \<Rightarrow> Inl (MissingArguments ''network'' ''network <route|unroute|requests|request|har> [args...]'')
      | Some sub \<Rightarrow>
          if sub = ''route'' then network_route rest i
          else if sub = ''unroute'' then Inr (set_str ''url'' (get_at rest 1) (command i ''unroute'' []))
          else if sub = ''requests'' then
            Inr (set_str ''status'' (flag_value ''--status'' rest)
              (set_str ''method'' (flag_value ''--method'' rest)
                (set_str ''type'' (flag_value ''--type'' rest)
                  (set_str ''filter'' (flag_value ''--filter'' rest)
                    (command i ''requests'' [(''clear'', JBool (''--clear'' \<in> set rest))])))))
          else if sub = ''request'' then
            and_then (need ''network request'' ''network request <requestId>'' rest 1) (\<lambda>r.
              Inr (command i ''request_detail'' [(''requestId'', JStr r)]))
          else if sub = ''har'' then
            (case get_at rest 1 of
               None \<Rightarrow> Inl (MissingArguments ''network har'' ''network har <start|stop> [path]'')
             | Some op \<Rightarrow>
                 if op = ''start'' then Inr (command i ''har_start'' [])
                 else if op = ''stop'' then Inr (set_str ''path'' (get_at rest 2) (command i ''har_stop'' []))
                 else Inl (UnknownSubcommand op [''start'', ''stop'']))
          else Inl (UnknownSubcommand sub [''route'', ''unroute'', ''requests'', ''request'', ''har'']))"

definition parse_storage :: "string list \<Rightarrow> string \<Rightarrow> parsed" where
  "parse_storage rest i =
     (case get_at rest 0 of
        None \<Rightarrow> Inl (MissingArguments ''storage''
          ''storage <local|session> [get|set|clear] [key] [value]'')
      | Some ty \<Rightarrow>
          if ty = ''local'' \<or> ty = ''session'' then
            (let (op, key, val) =
               (case get_at rest 1 of
                  None \<Rightarrow> (''get'', None, None)
                | Some w \<Rightarrow>
                    if w \<in> {''get'', ''set'', ''clear''} then (w, get_at rest 2, get_at rest 3)
                    else (''get'', get_at rest 1, get_at rest 2));
               miss = MissingArguments (''storage '' @ ty @ '' set'')
                 ''storage <local|session> set <key> <value>''
             in if op = ''set'' then
                  and_then (ok_or miss key) (\<lambda>k.
                    and_then (ok_or miss val) (\<lambda>v.
                      Inr (command i ''storage_set''
                        [(''type'', JStr ty), (''key'', JStr k), (''value'', JStr v)])))
                else if op = ''clear'' then Inr (command i ''storage_clear'' [(''type'', JStr ty)])
                else Inr (set_str ''key'' key (command i ''storage_get'' [(''type'', JStr ty)])))
          else Inl (UnknownSubcommand ty [''local'', ''session'']))"

section \<open>react, script and teach\<close>

definition parse_react :: "string list \<Rightarrow> string \<Rightarrow> parsed" where
  "parse_react rest i =
     (let js = (''--json'' \<in> set rest);
          flag = (\<lambda>k. set_if ''json'' js (command i k []))
      in and_then (need ''react'' ''react <tree|inspect|renders|suspense>'' rest 0) (\<lambda>sub.
           if sub = ''tree'' then Inr (flag ''react_tree'')
           else if sub = ''inspect'' then
             and_then (ok_or (MissingArguments ''react inspect'' ''react inspect <id>'')
                 (find not_flag (tl rest))) (\<lambda>a.
               and_then (ok_or (InvalidValue
                   ((''react inspect id must be a number, got '' @ [CHR 0x27]) @ a @ [CHR 0x27]) ''react inspect <id>'')
                   (parse_i64 a)) (\<lambda>n.
                 Inr (set_if ''json'' js (command i ''react_inspect'' [(''fiberId'', jint_val n)]))))
           else if sub = ''renders'' then
             (let op = unwrap_or ''start'' (get_at rest 1)
              in if op = ''start'' then Inr (flag ''react_renders_start'')
                 else if op = ''stop'' then Inr (flag ''react_renders_stop'')
                 else Inl (UnknownSubcommand op [''start'', ''stop'']))
           else if sub = ''suspense'' then
             Inr (set_if ''onlyDynamic'' (''--only-dynamic'' \<in> set rest) (flag ''react_suspense''))
           else Inl (UnknownSubcommand sub [''tree'', ''inspect'', ''renders'', ''suspense''])))"

definition script_env_usage :: string where
  "script_env_usage = ''script <file> --arg-env <name>=<ENV_VAR>''"

record script_state =
  sc_cmd :: json
  sc_args :: obj
  sc_timeout :: "nat option"

definition script_set :: "string \<Rightarrow> string option \<Rightarrow> script_state \<Rightarrow> script_state" where
  "script_set k v st = st\<lparr>sc_cmd := set_str k v (sc_cmd st)\<rparr>"

definition script_arg :: "string option \<Rightarrow> script_state \<Rightarrow> script_state" where
  "script_arg word st =
     (case Option.bind word (split_once (CHR 0x3D)) of
        Some (k, v) \<Rightarrow> st\<lparr>sc_args := obj_insert k (JStr v) (sc_args st)\<rparr>
      | None \<Rightarrow> st)"

definition script_env ::
  "parse_env \<Rightarrow> string option \<Rightarrow> script_state \<Rightarrow> parse_error + script_state" where
  "script_env e word st =
     (let spec = unwrap_or [] word;
          (k, var) = unwrap_or (spec, spec) (split_once (CHR 0x3D) spec)
      in if k = [] \<or> var = [] then Inl (MissingArguments ''script --arg-env'' script_env_usage)
         else (case pe_var e var of
                 None \<Rightarrow> Inl (InvalidValue (''--arg-env '' @ k @ ''='' @ var
                   @ '': environment variable '' @ var @ '' is not set'') script_env_usage)
               | Some v \<Rightarrow> Inr (st\<lparr>sc_args := obj_insert k (JStr v) (sc_args st)\<rparr>)))"

fun script_options ::
  "parse_env \<Rightarrow> string list \<Rightarrow> script_state \<Rightarrow> parse_error + script_state" where
  "script_options e [] st = Inr st"
| "script_options e (a # r) st =
     (if a = ''--dry-run'' then script_options e r (st\<lparr>sc_cmd := jset ''dryRun'' (JBool True) (sc_cmd st)\<rparr>)
      else if a = ''--yes'' \<or> a = ''--autoconfirm''
      then script_options e r (st\<lparr>sc_cmd := jset ''autoConfirm'' (JBool True) (sc_cmd st)\<rparr>)
      else if a = ''--json'' then script_options e r st
      else if a = ''--timeout'' then
        script_options e (drop 1 r)
          (case get_at r 0 of Some v \<Rightarrow> st\<lparr>sc_timeout := parse_u64 v\<rparr> | None \<Rightarrow> st)
      else if a = ''--arg'' then script_options e (drop 1 r) (script_arg (get_at r 0) st)
      else if a = ''--arg-env'' then
        (case script_env e (get_at r 0) st of
           Inl err \<Rightarrow> Inl err
         | Inr st1 \<Rightarrow> script_options e (drop 1 r) st1)
      else if a = ''--keep'' then script_options e (drop 1 r) (script_set ''keepContext'' (get_at r 0) st)
      else if a = ''--in'' then script_options e (drop 1 r) (script_set ''inContext'' (get_at r 0) st)
      else if a = ''--drop'' then script_options e (drop 1 r) (script_set ''dropContext'' (get_at r 0) st)
      else if a = ''--contexts''
      then script_options e r (st\<lparr>sc_cmd := jset ''listContexts'' (JBool True) (sc_cmd st)\<rparr>)
      else if not_flag a then script_options e r (script_set ''file'' (Some a) st)
      else script_options e r st)"

definition parse_script :: "parse_env \<Rightarrow> string list \<Rightarrow> string \<Rightarrow> parsed" where
  "parse_script e rest i =
     and_then (script_options e rest \<lparr> sc_cmd = command i ''script'' [], sc_args = [], sc_timeout = None \<rparr>)
       (\<lambda>st.
          let cmd = jset ''timeout_ms'' (jnat (unwrap_or 60000 (sc_timeout st))) (sc_cmd st)
          in Inr (if sc_args st = [] then cmd else jset ''scriptArgs'' (JObj (sc_args st)) cmd))"

definition TEACH_USAGE :: string where
  "TEACH_USAGE = ''teach start [--name <flow>] | teach stop [--out <file>] [--format script|adapter] [--force] | teach status | teach cancel | teach replay <file> [--arg k=v] [--arg-env k=VAR]''"

definition teach_value ::
  "string \<Rightarrow> string list \<Rightarrow> string \<Rightarrow> parse_error + string option" where
  "teach_value sub opts flag =
     (case position (\<lambda>a. a = flag) opts of
        None \<Rightarrow> Inr None
      | Some n \<Rightarrow>
          and_then (ok_or (MissingArguments (''teach '' @ sub @ '' '' @ flag) TEACH_USAGE)
              (filter_opt not_flag (get_at opts (n + 1))))
            (\<lambda>v. Inr (Some v)))"

fun teach_known ::
  "string \<Rightarrow> string list \<Rightarrow> string list \<Rightarrow> string list \<Rightarrow> parse_error + unit" where
  "teach_known sub allowed with_value [] = Inr ()"
| "teach_known sub allowed with_value (a # r) =
     (if a \<in> set with_value then teach_known sub allowed with_value (drop 1 r)
      else if a \<notin> set allowed then
        Inl (InvalidValue (''teach '' @ sub @ '': unexpected argument `'' @ a @ ''`'') TEACH_USAGE)
      else teach_known sub allowed with_value r)"

definition teach_stop :: "string list \<Rightarrow> string \<Rightarrow> parsed" where
  "teach_stop opts i =
     and_then (teach_known ''stop'' [''--json'', ''--force'', ''--print'', ''--adapter'']
         [''--out'', ''--format'', ''--name''] opts) (\<lambda>_.
       and_then (teach_value ''stop'' opts ''--out'') (\<lambda>out.
         and_then (if ''--adapter'' \<in> set opts then Inr ''adapter''
                   else and_then (teach_value ''stop'' opts ''--format'')
                     (\<lambda>f. Inr (unwrap_or ''script'' f))) (\<lambda>fmt.
           if fmt \<notin> {''script'', ''json'', ''adapter'', ''site''}
           then Inl (InvalidValue (''teach stop --format '' @ fmt @ '': use script or adapter'') TEACH_USAGE)
           else
             and_then (teach_value ''stop'' opts ''--name'') (\<lambda>n.
               Inr (set_if ''print'' (''--print'' \<in> set opts)
                 (set_if ''force'' (''--force'' \<in> set opts)
                   (set_str ''name'' n
                     (jset ''as'' (JStr fmt)
                       (set_str ''out'' out (command i ''teach_stop'' []))))))))))"

definition parse_teach :: "parse_env \<Rightarrow> string list \<Rightarrow> string \<Rightarrow> parsed" where
  "parse_teach e rest i =
     and_then (need ''teach'' TEACH_USAGE rest 0) (\<lambda>sub.
       let opts = tl rest in
       if sub = ''start'' then
         and_then (teach_known sub [''--json''] [''--name''] opts) (\<lambda>_.
           and_then (teach_value sub opts ''--name'') (\<lambda>n.
             Inr (set_str ''name'' n (command i ''teach_start'' []))))
       else if sub = ''stop'' then teach_stop opts i
       else if sub = ''cancel'' then
         and_then (teach_known sub [''--json''] [] opts) (\<lambda>_.
           Inr (command i ''teach_stop'' [(''discard'', JBool True)]))
       else if sub = ''status'' then
         and_then (teach_known sub [''--json''] [] opts) (\<lambda>_. Inr (command i ''teach_status'' []))
       else if sub = ''replay'' \<or> sub = ''run'' then
         (if (case get_at opts 0 of None \<Rightarrow> True | Some f \<Rightarrow> starts_with f ''--'')
          then Inl (MissingArguments ''teach replay''
            ''teach replay <file> [--arg k=v] [--arg-env k=VAR] [--timeout ms]'')
          else parse_script e opts i)
       else Inl (InvalidValue (''unknown teach subcommand `'' @ sub @ ''`'') TEACH_USAGE))"

end
