(* ===== verification/Expect.thy ===== *)
theory Expect
  imports SessionCommands TrackedRequests HandoffWait
begin

text \<open>
  The assertion verb \<open>expect\<close> from the command line to the verdict: the parser of
  \<open>commands.rs\<close>, the daemon's evaluation of one poll, and the loop of \<open>handle_expect\<close>
  that polls until the condition holds or the time is up (\<open>native/actions.rs\<close>).
  What the page answers at one poll is a record (\<open>page_view\<close>): the element lookups, the
  URL and the number of errors come from the browser, and the requests from the daemon's log.
  Instants are milliseconds of one clock.
\<close>


section \<open>Parsing\<close>

definition canon_count_op :: "string \<Rightarrow> string option" where
  "canon_count_op op =
     (if op \<in> {''=='', ''eq''} then Some ''eq''
      else if op \<in> {''!='', ''ne''} then Some ''ne''
      else if op \<in> {''>'', ''gt''} then Some ''gt''
      else if op \<in> {''<'', ''lt''} then Some ''lt''
      else if op \<in> {''>='', ''ge''} then Some ''ge''
      else if op \<in> {''<='', ''le''} then Some ''le''
      else None)"

definition canon_predicate :: "string \<Rightarrow> string option" where
  "canon_predicate p =
     (if p = ''equals'' then Some ''equals''
      else if p = ''contains'' then Some ''contains''
      else if p = ''matches'' then Some ''matches''
      else None)"

definition canon_element_state :: "string \<Rightarrow> string option" where
  "canon_element_state s =
     (if s = ''visible'' then Some ''visible''
      else if s = ''hidden'' then Some ''hidden''
      else if s = ''gone'' \<or> s = ''detached'' then Some ''detached''
      else if s = ''present'' \<or> s = ''attached'' then Some ''attached''
      else None)"

record expect_flags =
  xf_words :: "string list"
  xf_timeout :: "nat option"
  xf_no_wait :: bool
  xf_regex :: bool
  xf_not :: bool
  xf_method :: "string option"
  xf_status :: "string option"
  xf_type :: "string option"
  xf_count :: "nat option"

definition no_expect_flags :: expect_flags where
  "no_expect_flags = \<lparr> xf_words = [], xf_timeout = None, xf_no_wait = False, xf_regex = False,
     xf_not = False, xf_method = None, xf_status = None, xf_type = None, xf_count = None \<rparr>"

fun expect_scan :: "string list \<Rightarrow> expect_flags \<Rightarrow> expect_flags" where
  "expect_scan [] x = x"
| "expect_scan (a # r) x =
     (if a = ''--no-wait'' then expect_scan r (x\<lparr>xf_no_wait := True\<rparr>)
      else if a = ''--regex'' then expect_scan r (x\<lparr>xf_regex := True\<rparr>)
      else if a = ''--not'' then expect_scan r (x\<lparr>xf_not := True\<rparr>)
      else if a = ''--timeout''
      then expect_scan (drop 1 r) (x\<lparr>xf_timeout := Option.bind (get_at r 0) parse_u64\<rparr>)
      else if a = ''--method'' then expect_scan (drop 1 r) (x\<lparr>xf_method := get_at r 0\<rparr>)
      else if a = ''--status'' then expect_scan (drop 1 r) (x\<lparr>xf_status := get_at r 0\<rparr>)
      else if a = ''--type'' then expect_scan (drop 1 r) (x\<lparr>xf_type := get_at r 0\<rparr>)
      else if a = ''--count''
      then expect_scan (drop 1 r) (x\<lparr>xf_count := Option.bind (get_at r 0) parse_u64\<rparr>)
      else expect_scan r (x\<lparr>xf_words := xf_words x @ [a]\<rparr>))"

definition expect_usage :: string where
  "expect_usage = ''expect <sel> <visible|hidden|gone|present>  |  expect count <sel> <op> <n>  |  expect text|value <sel> <equals|contains|matches> <str>  |  expect attr <sel> <name> <pred> <str>  |  expect url <pred> <str>  |  expect request <url-substr> [--method M --status S]  |  expect no-errors''"

definition expect_word :: "string \<Rightarrow> string list \<Rightarrow> nat \<Rightarrow> parse_error + string" where
  "expect_word ctx pos n = need ctx expect_usage pos n"

definition expect_predicate :: "string \<Rightarrow> parse_error + string" where
  "expect_predicate p =
     (if canon_predicate p = None
      then Inl (InvalidValue ((''bad predicate '' @ [CHR 0x27]) @ p @ ([CHR 0x27] @ '' (use equals|contains|matches)'')) expect_usage)
      else Inr p)"

type_synonym condition = "parse_error + (string \<times> json) list"

definition expect_count :: "expect_flags \<Rightarrow> condition" where
  "expect_count x =
     (let pos = xf_words x in
      and_then (expect_word ''expect count'' pos 1) (\<lambda>sel.
        if starts_with sel ''@''
        then Inl (InvalidValue ''expect count takes a CSS selector, not an @ref'' expect_usage)
        else
          and_then (expect_word ''expect count <sel> <op> <n>'' pos 2) (\<lambda>op_raw.
            and_then (ok_or (InvalidValue ((''bad count op '' @ [CHR 0x27]) @ op_raw
                  @ ([CHR 0x27] @ '' (use ==,!=,>,<,>=,<= or eq/ne/gt/lt/ge/le; quote > and <)'')) expect_usage)
                (canon_count_op op_raw)) (\<lambda>op.
              and_then (ok_or (InvalidValue ''expect count needs a numeric <n>'' expect_usage)
                  (Option.bind (get_at pos 3) parse_u64)) (\<lambda>n.
                Inr [(''kind'', JStr ''count''), (''selector'', JStr sel), (''op'', JStr op),
                     (''value'', jnat n)])))))"

definition expect_text :: "string \<Rightarrow> expect_flags \<Rightarrow> condition" where
  "expect_text kind x =
     (let pos = xf_words x in
      and_then (expect_word ''expect text/value'' pos 1) (\<lambda>sel.
        and_then (expect_word ''expect text <sel> <equals|contains|matches> <str>'' pos 2) (\<lambda>p.
          and_then (expect_predicate p) (\<lambda>p.
            if length pos < 4 then Inl (MissingArguments ''expect text <sel> <pred> <str>'' expect_usage)
            else Inr [(''kind'', JStr kind), (''selector'', JStr sel), (''predicate'', JStr p),
                 (''expected'', JStr (join '' '' (drop 3 pos))),
                 (''regex'', JBool (xf_regex x \<or> p = ''matches''))]))))"

definition expect_attr :: "expect_flags \<Rightarrow> condition" where
  "expect_attr x =
     (let pos = xf_words x; ctx = ''expect attr <sel> <name> <pred> <str>'' in
      and_then (expect_word ''expect attr'' pos 1) (\<lambda>sel.
        and_then (expect_word ctx pos 2) (\<lambda>name.
          and_then (expect_word ctx pos 3) (\<lambda>p.
            and_then (expect_predicate p) (\<lambda>p.
              if length pos < 5 then Inl (MissingArguments ctx expect_usage)
              else Inr [(''kind'', JStr ''attr''), (''selector'', JStr sel), (''attr'', JStr name),
                   (''predicate'', JStr p), (''expected'', JStr (join '' '' (drop 4 pos))),
                   (''regex'', JBool (xf_regex x \<or> p = ''matches''))])))))"

definition expect_url :: "expect_flags \<Rightarrow> condition" where
  "expect_url x =
     (let pos = xf_words x in
      and_then (expect_word ''expect url <equals|contains|matches> <str>'' pos 1) (\<lambda>p.
        and_then (expect_predicate p) (\<lambda>p.
          if length pos < 3 then Inl (MissingArguments ''expect url <pred> <str>'' expect_usage)
          else Inr [(''kind'', JStr ''url''), (''predicate'', JStr p),
               (''expected'', JStr (join '' '' (drop 2 pos))), (''regex'', JBool (xf_regex x))])))"

definition expect_request_words :: "expect_flags \<Rightarrow> condition" where
  "expect_request_words x =
     and_then (expect_word ''expect request <url-substr>'' (xf_words x) 1) (\<lambda>flt.
       Inr ([(''kind'', JStr ''request''), (''filter'', JStr flt)]
         @ field ''method'' (map_option JStr (xf_method x))
         @ field ''status'' (map_option JStr (xf_status x))
         @ field ''type'' (map_option JStr (xf_type x))
         @ field ''count'' (map_option jnat (xf_count x))))"

definition expect_element :: "string \<Rightarrow> expect_flags \<Rightarrow> condition" where
  "expect_element sel x =
     and_then (expect_word ''expect <sel> <visible|hidden|gone|present>'' (xf_words x) 1) (\<lambda>raw.
       and_then (ok_or (InvalidValue ((''unknown state '' @ [CHR 0x27]) @ raw
             @ ([CHR 0x27] @ '' (use visible|hidden|gone|present|attached|detached)'')) expect_usage)
           (canon_element_state raw)) (\<lambda>st.
         Inr [(''kind'', JStr ''element''), (''selector'', JStr sel), (''state'', JStr st)]))"

definition expect_condition :: "string \<Rightarrow> expect_flags \<Rightarrow> condition" where
  "expect_condition first x =
     (if first = ''count'' then expect_count x
      else if first = ''text'' \<or> first = ''value'' then expect_text first x
      else if first = ''attr'' then expect_attr x
      else if first = ''url'' then expect_url x
      else if first = ''request'' then expect_request_words x
      else if first = ''no-errors'' then Inr [(''kind'', JStr ''errors''), (''max'', jnat 0)]
      else expect_element first x)"

definition parse_expect :: "string list \<Rightarrow> string \<Rightarrow> parsed" where
  "parse_expect rest i =
     (let x = expect_scan rest no_expect_flags in
      and_then (expect_word ''expect'' (xf_words x) 0) (\<lambda>first.
        and_then (expect_condition first x) (\<lambda>kvs.
          Inr (command i ''expect''
            (field ''timeout'' (map_option jnat (xf_timeout x))
             @ [(''noWait'', JBool (xf_no_wait x)), (''not'', JBool (xf_not x))] @ kvs)))))"

section \<open>One poll\<close>

definition url_glob_to_regex :: "string \<Rightarrow> string" where
  "url_glob_to_regex g = ''^'' @ glob_body g @ ''$''"

record page_view =
  pv_session :: "string + unit"
  pv_present :: "string \<Rightarrow> bool"
  pv_visible :: "string \<Rightarrow> bool"
  pv_count :: "string \<Rightarrow> int"
  pv_text :: "string \<Rightarrow> string result"
  pv_value :: "string \<Rightarrow> string result"
  pv_attr :: "string \<Rightarrow> string \<Rightarrow> json result"
  pv_url :: string
  pv_requests :: tracked_requests
  pv_errors :: nat

type_synonym regex_lib = "string \<Rightarrow> (string \<Rightarrow> bool) option"

definition text_or :: "json \<Rightarrow> string \<Rightarrow> string" where
  "text_or cmd k = unwrap_or [] (get_str cmd k)"

definition flag_of :: "json \<Rightarrow> string \<Rightarrow> bool" where
  "flag_of cmd k = unwrap_or False (Option.bind (jget cmd k) as_bool)"

definition element_holds :: "page_view \<Rightarrow> json \<Rightarrow> bool" where
  "element_holds v cmd =
     (let sel = text_or cmd ''selector'';
          want = unwrap_or ''present'' (get_str cmd ''state'');
          present = pv_present v sel
      in if want = ''attached'' then present
         else if want = ''detached'' then \<not> present
         else if want = ''visible'' then present \<and> pv_visible v sel
         else if want = ''hidden'' then \<not> present \<or> \<not> pv_visible v sel
         else present)"

definition url_holds :: "regex_lib \<Rightarrow> page_view \<Rightarrow> json \<Rightarrow> bool" where
  "url_holds rx v cmd =
     (let p = text_or cmd ''predicate''; expected = text_or cmd ''expected''
      in if p = ''equals'' then pv_url v = expected
         else if p = ''contains'' then contains (pv_url v) expected
         else if p = ''matches'' then
           (case rx (if flag_of cmd ''regex'' then expected else url_glob_to_regex expected) of
              Some m \<Rightarrow> m (pv_url v)
            | None \<Rightarrow> False)
         else False)"

definition text_holds :: "regex_lib \<Rightarrow> json \<Rightarrow> string result \<Rightarrow> bool \<times> json" where
  "text_holds rx cmd got =
     (case got of
        Inr s \<Rightarrow> (predicate_match rx (text_or cmd ''predicate'') s (text_or cmd ''expected'')
                   (flag_of cmd ''regex''), JStr s)
      | Inl _ \<Rightarrow> (False, JNull))"

definition attr_text :: "(json \<Rightarrow> string) \<Rightarrow> json \<Rightarrow> string" where
  "attr_text sj a =
     (case as_str a of Some s \<Rightarrow> s | None \<Rightarrow> if a = JNull then [] else sj a)"

definition eval_expect_once ::
  "unicode \<Rightarrow> regex_lib \<Rightarrow> (json \<Rightarrow> string) \<Rightarrow> page_view \<Rightarrow> json \<Rightarrow> string
    \<Rightarrow> (bool \<times> json) result" where
  "eval_expect_once u rx sj v cmd kind =
     and_then (pv_session v) (\<lambda>_.
       let sel = text_or cmd ''selector'' in
       if kind = ''element''
       then Inr (element_holds v cmd, jobj [(''present'', JBool (pv_present v sel))])
       else if kind = ''count'' then
         (let op = unwrap_or ''eq'' (get_str cmd ''op'');
              want = unwrap_or 0 (Option.bind (jget cmd ''value'') as_u64);
              n = nat (pv_count v sel)
          in Inr (compare_count op n want, jnat n))
       else if kind = ''text'' then Inr (text_holds rx cmd (pv_text v sel))
       else if kind = ''value'' then Inr (text_holds rx cmd (pv_value v sel))
       else if kind = ''attr'' then
         Inr (text_holds rx cmd
           (and_then (pv_attr v sel (text_or cmd ''attr'')) (\<lambda>a. Inr (attr_text sj a))))
       else if kind = ''url'' then Inr (url_holds rx v cmd, JStr (pv_url v))
       else if kind = ''request'' then
         (let (holds, n) = expect_request u cmd (pv_requests v) in Inr (holds, jnat n))
       else if kind = ''errors'' then Inr (pv_errors v = 0, jnat (pv_errors v))
       else Inl ((''expect: unknown kind '' @ [CHR 0x27]) @ kind @ [CHR 0x27]))"

section \<open>Polling\<close>

definition describe_expect :: "json \<Rightarrow> string" where
  "describe_expect cmd =
     (let g = text_or cmd; k = g ''kind''; q = [CHR 0x22]
      in (if flag_of cmd ''not'' then ''NOT '' else [])
         @ (if k = ''element'' then g ''selector'' @ '' '' @ g ''state''
            else if k = ''count'' then
              ''count '' @ g ''selector'' @ '' '' @ g ''op'' @ '' ''
                @ show_nat (unwrap_or 0 (Option.bind (jget cmd ''value'') as_u64))
            else if k = ''text'' \<or> k = ''value'' then
              k @ '' '' @ g ''selector'' @ '' '' @ g ''predicate'' @ '' '' @ q @ g ''expected'' @ q
            else if k = ''attr'' then
              ''attr '' @ g ''selector'' @ '' '' @ g ''attr'' @ '' '' @ g ''predicate'' @ '' '' @ q @ g ''expected'' @ q
            else if k = ''url'' then ''url '' @ g ''predicate'' @ '' '' @ q @ g ''expected'' @ q
            else if k = ''request'' then ''request '' @ q @ g ''filter'' @ q
            else if k = ''errors'' then ''no-errors''
            else ''?''))"

text \<open>
  One round of the loop is a poll and the time after it. The loop ends at the first round that
  passes, or fails to evaluate, or is past the deadline; with \<open>--no-wait\<close> at the first.
\<close>

fun expect_loop ::
  "(page_view \<Rightarrow> (bool \<times> json) result) \<Rightarrow> bool \<Rightarrow> bool \<Rightarrow> nat \<Rightarrow> (page_view \<times> nat) list
    \<Rightarrow> (bool \<times> json) result option" where
  "expect_loop ev neg no_wait deadline [] = None"
| "expect_loop ev neg no_wait deadline ((v, t) # polls) =
     (case ev v of
        Inl err \<Rightarrow> Some (Inl err)
      | Inr (raw, act) \<Rightarrow>
          (let pass = (raw \<noteq> neg)
           in if pass \<or> no_wait \<or> deadline \<le> t then Some (Inr (pass, act))
              else expect_loop ev neg no_wait deadline polls))"

definition console_hint :: string where
  "console_hint = ''console/error capture is disabled for stealth (Runtime.enable is a detectable CDP signal). Restart the session with AGENT_BROWSER_CAPTURE_CONSOLE=1 to capture page output.''"

definition expect_timeout :: "nat \<Rightarrow> json \<Rightarrow> nat" where
  "expect_timeout dflt cmd = unwrap_or dflt (Option.bind (jget cmd ''timeout'') as_u64)"

definition handle_expect ::
  "unicode \<Rightarrow> regex_lib \<Rightarrow> (json \<Rightarrow> string) \<Rightarrow> bool \<Rightarrow> nat \<Rightarrow> nat
    \<Rightarrow> (page_view \<times> nat) list \<Rightarrow> json \<Rightarrow> json result option" where
  "handle_expect u rx sj capture dflt now polls cmd =
     (let kind = text_or cmd ''kind''; no_wait = flag_of cmd ''noWait''
      in if kind = ''errors'' \<and> \<not> capture
         then Some (Inl ((''expect no-errors requires console capture '' @ [CHR 0xE2, CHR 0x80, CHR 0x94] @ '' '') @ console_hint))
         else map_option (\<lambda>r. and_then r (\<lambda>(pass, actual).
           Inr (jobj [(''pass'', JBool pass), (''kind'', JStr kind),
             (''condition'', JStr (describe_expect cmd)), (''actual'', actual),
             (''timedOut'', JBool (\<not> pass \<and> \<not> no_wait))])))
           (expect_loop (\<lambda>v. eval_expect_once u rx sj v cmd kind) (flag_of cmd ''not'') no_wait
             (now + expect_timeout dflt cmd) polls))"


section \<open>From words to verdict\<close>

lemma map_of_field:
  "map_of (rev (field k v)) k' = (if k' = k then v else None)"
  by (simp add: field_def split: option.split)

lemma as_u64_jnat [simp]: "n < 2 ^ 64 \<Longrightarrow> as_u64 (jnat n) = Some n"
proof -
  assume "n < 2 ^ 64"
  then have "int n < 2 ^ 64" by (metis of_nat_less_iff of_nat_numeral of_nat_power)
  then show ?thesis by (simp add: jnat_def)
qed

lemma parse_u64_bound: "parse_u64 s = Some n \<Longrightarrow> n < 2 ^ 64"
  by (auto simp: parse_u64_def Let_def split: if_splits)

text \<open>What a comparison operator of the command line means.\<close>

definition op_means :: "string \<Rightarrow> nat \<Rightarrow> nat \<Rightarrow> bool" where
  "op_means op a b \<longleftrightarrow>
     (op \<in> {''=='', ''eq''} \<and> a = b) \<or> (op \<in> {''!='', ''ne''} \<and> a \<noteq> b)
     \<or> (op \<in> {''>'', ''gt''} \<and> b < a) \<or> (op \<in> {''<'', ''lt''} \<and> a < b)
     \<or> (op \<in> {''>='', ''ge''} \<and> b \<le> a) \<or> (op \<in> {''<='', ''le''} \<and> a \<le> b)"

lemma if_SomeE:
  "(if b then Some x else r) = Some c \<Longrightarrow> (b \<Longrightarrow> c = x \<Longrightarrow> T) \<Longrightarrow> (r = Some c \<Longrightarrow> T) \<Longrightarrow> T"
  by (cases b) auto

lemma canon_count_op_cases:
  assumes "canon_count_op op = Some c"
  shows "(c = ''eq'' \<and> op \<in> {''=='', ''eq''}) \<or> (c = ''ne'' \<and> op \<in> {''!='', ''ne''})
    \<or> (c = ''gt'' \<and> op \<in> {''>'', ''gt''}) \<or> (c = ''lt'' \<and> op \<in> {''<'', ''lt''})
    \<or> (c = ''ge'' \<and> op \<in> {''>='', ''ge''}) \<or> (c = ''le'' \<and> op \<in> {''<='', ''le''})"
  using assms unfolding canon_count_op_def by (elim if_SomeE) blast+

lemma canon_op_means:
  assumes "canon_count_op op = Some c"
  shows "compare_count c a b \<longleftrightarrow> op_means op a b"
  using canon_count_op_cases [OF assms]
  by (elim disjE conjE insertE; simp add: compare_count_def op_means_def)

text \<open>What a condition's words ask of a page.\<close>

definition predicate_means :: "regex_lib \<Rightarrow> bool \<Rightarrow> string \<Rightarrow> string \<Rightarrow> string \<Rightarrow> bool" where
  "predicate_means rx regex p s t \<longleftrightarrow>
     (if regex \<or> p = ''matches'' then (\<exists>m. rx t = Some m \<and> m s)
      else (p = ''equals'' \<and> s = t) \<or> (p = ''contains'' \<and> contains s t))"

lemma predicate_match_means:
  "predicate_match rx p s t (regex \<or> p = ''matches'') \<longleftrightarrow> predicate_means rx regex p s t"
  by (auto simp: predicate_match_def predicate_means_def split: option.splits)

definition asked :: "unicode \<Rightarrow> regex_lib \<Rightarrow> (json \<Rightarrow> string) \<Rightarrow> expect_flags \<Rightarrow> page_view \<Rightarrow> bool" where
  "asked u rx sj x v =
     (let w = xf_words x; at = (\<lambda>n. unwrap_or [] (get_at w n)); rest = (\<lambda>n. join '' '' (drop n w))
      in if at 0 = ''count'' then op_means (at 2) (nat (pv_count v (at 1))) (unwrap_or 0 (parse_u64 (at 3)))
         else if at 0 = ''text''
         then (\<exists>s. pv_text v (at 1) = Inr s \<and> predicate_means rx (xf_regex x) (at 2) s (rest 3))
         else if at 0 = ''value''
         then (\<exists>s. pv_value v (at 1) = Inr s \<and> predicate_means rx (xf_regex x) (at 2) s (rest 3))
         else if at 0 = ''attr''
         then (\<exists>a. pv_attr v (at 1) (at 2) = Inr a
                \<and> predicate_means rx (xf_regex x) (at 3) (attr_text sj a) (rest 4))
         else if at 0 = ''url''
         then (at 1 = ''equals'' \<and> pv_url v = rest 2) \<or> (at 1 = ''contains'' \<and> contains (pv_url v) (rest 2))
              \<or> (at 1 = ''matches''
                 \<and> (\<exists>m. rx (if xf_regex x then rest 2 else url_glob_to_regex (rest 2)) = Some m
                      \<and> m (pv_url v)))
         else if at 0 = ''request''
         then (let n = length (filter (\<lambda>r. request_matches u r (Some (at 1)) (xf_method x) (xf_status x)
                        (case xf_type x of Some t \<Rightarrow> map (\<lambda>s. lowercase u (trim s)) (split_on (CHR 0x2C) t)
                         | None \<Rightarrow> [])) (tl_entries (pv_requests v)))
               in (case xf_count x of Some want \<Rightarrow> n = want | None \<Rightarrow> 0 < n))
         else if at 0 = ''no-errors'' then pv_errors v = 0
         else (at 1 = ''visible'' \<and> pv_present v (at 0) \<and> pv_visible v (at 0))
              \<or> (at 1 = ''hidden'' \<and> \<not> (pv_present v (at 0) \<and> pv_visible v (at 0)))
              \<or> (at 1 \<in> {''gone'', ''detached''} \<and> \<not> pv_present v (at 0))
              \<or> (at 1 \<in> {''present'', ''attached''} \<and> pv_present v (at 0)))"

definition poll_verdict ::
  "unicode \<Rightarrow> regex_lib \<Rightarrow> (json \<Rightarrow> string) \<Rightarrow> page_view \<Rightarrow> json \<Rightarrow> bool result" where
  "poll_verdict u rx sj v cmd =
     and_then (eval_expect_once u rx sj v cmd (text_or cmd ''kind'')) (\<lambda>(b, _). Inr b)"

definition count_ok :: "expect_flags \<Rightarrow> bool" where
  "count_ok x \<longleftrightarrow>
     list_all (\<lambda>v. case v of Some n \<Rightarrow> n < 2 ^ 64 | None \<Rightarrow> True) [xf_count x, xf_timeout x]"

lemma count_ok_update [simp]:
  "count_ok (x\<lparr>xf_no_wait := b\<rparr>) = count_ok x" "count_ok (x\<lparr>xf_regex := b\<rparr>) = count_ok x"
  "count_ok (x\<lparr>xf_not := b\<rparr>) = count_ok x"
  "count_ok (x\<lparr>xf_method := s\<rparr>) = count_ok x" "count_ok (x\<lparr>xf_status := s\<rparr>) = count_ok x"
  "count_ok (x\<lparr>xf_type := s\<rparr>) = count_ok x" "count_ok (x\<lparr>xf_words := w\<rparr>) = count_ok x"
  "count_ok x \<Longrightarrow> count_ok (x\<lparr>xf_timeout := Option.bind s parse_u64\<rparr>)"
  "count_ok x \<Longrightarrow> count_ok (x\<lparr>xf_count := Option.bind s parse_u64\<rparr>)"
  by (auto simp: count_ok_def bind_eq_Some_conv dest: parse_u64_bound split: option.split)

lemma count_ok_scan: "count_ok x \<Longrightarrow> count_ok (expect_scan rest x)"
  by (induction rest x rule: expect_scan.induct) simp_all

definition expect_json :: "string \<Rightarrow> expect_flags \<Rightarrow> (string \<times> json) list \<Rightarrow> json" where
  "expect_json i x kvs = command i ''expect''
     (field ''timeout'' (map_option jnat (xf_timeout x))
      @ [(''noWait'', JBool (xf_no_wait x)), (''not'', JBool (xf_not x))] @ kvs)"

lemma expect_field:
  "k \<notin> {''timeout'', ''noWait'', ''not'', ''action'', ''id''} \<Longrightarrow>
     jget (expect_json i x kvs) k = map_of (rev kvs) k"
  by (auto simp: expect_json_def map_add_def map_of_field split: option.split)

lemma parse_expect_Inr:
  "parse_expect rest i = Inr cmd \<longleftrightarrow>
     (\<exists>x first kvs. x = expect_scan rest no_expect_flags \<and> get_at (xf_words x) 0 = Some first
        \<and> expect_condition first x = Inr kvs \<and> cmd = expect_json i x kvs)"
  by (auto simp: parse_expect_def Let_def and_then_Inr_iff expect_word_def expect_json_def)

lemmas poll_defs = poll_verdict_def eval_expect_once_def text_or_def get_str_def flag_of_def
  expect_field

lemma text_holds_verdict:
  "(case text_holds rx cmd got of (b, _) \<Rightarrow> Inr b) = Inr (\<exists>s. got = Inr s
     \<and> predicate_match rx (text_or cmd ''predicate'') s (text_or cmd ''expected'') (flag_of cmd ''regex''))"
  by (cases got) (simp_all add: text_holds_def)

lemma predicate_Inr: "expect_predicate p = Inr q \<longleftrightarrow> q = p \<and> p \<in> {''equals'', ''contains'', ''matches''}"
  by (auto simp: expect_predicate_def canon_predicate_def)

lemma verdict_count:
  assumes "expect_count x = Inr kvs" "pv_session v = Inr ()"
  shows "poll_verdict u rx sj v (expect_json i x kvs) = Inr (op_means (unwrap_or [] (get_at (xf_words x) 2))
     (nat (pv_count v (unwrap_or [] (get_at (xf_words x) 1))))
     (unwrap_or 0 (parse_u64 (unwrap_or [] (get_at (xf_words x) 3)))))"
proof -
  from assms(1) obtain sel op_raw op n_str n where w: "get_at (xf_words x) 1 = Some sel"
    "get_at (xf_words x) 2 = Some op_raw" "get_at (xf_words x) 3 = Some n_str"
    "canon_count_op op_raw = Some op" "parse_u64 n_str = Some n"
    and k: "kvs = [(''kind'', JStr ''count''), (''selector'', JStr sel), (''op'', JStr op), (''value'', jnat n)]"
    by (auto simp: expect_count_def Let_def and_then_Inr_iff expect_word_def bind_eq_Some_conv
        split: if_split_asm)
  show ?thesis
    using assms(2) w parse_u64_bound [OF w(5)]
    by (simp add: poll_defs k canon_op_means Let_def)
qed

lemma verdict_text:
  assumes "expect_text k x = Inr kvs" "pv_session v = Inr ()" "k = ''text'' \<or> k = ''value''"
  shows "poll_verdict u rx sj v (expect_json i x kvs) = Inr (\<exists>s.
     (if k = ''text'' then pv_text v else pv_value v) (unwrap_or [] (get_at (xf_words x) 1)) = Inr s
     \<and> predicate_means rx (xf_regex x) (unwrap_or [] (get_at (xf_words x) 2)) s
         (join '' '' (drop 3 (xf_words x))))"
proof -
  from assms(1) obtain sel p where w: "get_at (xf_words x) 1 = Some sel" "get_at (xf_words x) 2 = Some p"
    and k: "kvs = [(''kind'', JStr k), (''selector'', JStr sel), (''predicate'', JStr p),
      (''expected'', JStr (join '' '' (drop 3 (xf_words x)))), (''regex'', JBool (xf_regex x \<or> p = ''matches''))]"
    by (auto simp: expect_text_def Let_def and_then_Inr_iff expect_word_def predicate_Inr
        split: if_split_asm)
  from assms(3) show ?thesis
  proof
    assume "k = ''text''"
    then show ?thesis
      using assms(2) w by (simp add: poll_defs k text_holds_verdict predicate_match_means Let_def)
  next
    assume "k = ''value''"
    then show ?thesis
      using assms(2) w by (simp add: poll_defs k text_holds_verdict predicate_match_means Let_def)
  qed
qed

lemma verdict_attr:
  assumes "expect_attr x = Inr kvs" "pv_session v = Inr ()"
  shows "poll_verdict u rx sj v (expect_json i x kvs) = Inr (\<exists>a.
     pv_attr v (unwrap_or [] (get_at (xf_words x) 1)) (unwrap_or [] (get_at (xf_words x) 2)) = Inr a
     \<and> predicate_means rx (xf_regex x) (unwrap_or [] (get_at (xf_words x) 3)) (attr_text sj a)
         (join '' '' (drop 4 (xf_words x))))"
proof -
  from assms(1) obtain sel nm p where w: "get_at (xf_words x) 1 = Some sel"
      "get_at (xf_words x) 2 = Some nm" "get_at (xf_words x) 3 = Some p"
    and k: "kvs = [(''kind'', JStr ''attr''), (''selector'', JStr sel), (''attr'', JStr nm),
      (''predicate'', JStr p), (''expected'', JStr (join '' '' (drop 4 (xf_words x)))),
      (''regex'', JBool (xf_regex x \<or> p = ''matches''))]"
    by (auto simp: expect_attr_def Let_def and_then_Inr_iff expect_word_def predicate_Inr
        split: if_split_asm)
  show ?thesis
    using assms(2) w
    by (simp add: poll_defs k text_holds_verdict predicate_match_means and_then_Inr_iff Let_def)
      blast
qed

lemma verdict_url:
  assumes "expect_url x = Inr kvs" "pv_session v = Inr ()"
  defines "p \<equiv> unwrap_or [] (get_at (xf_words x) 1)" and "t \<equiv> join '' '' (drop 2 (xf_words x))"
  shows "poll_verdict u rx sj v (expect_json i x kvs) = Inr ((p = ''equals'' \<and> pv_url v = t)
     \<or> (p = ''contains'' \<and> contains (pv_url v) t)
     \<or> (p = ''matches'' \<and> (\<exists>m. rx (if xf_regex x then t else url_glob_to_regex t) = Some m
          \<and> m (pv_url v))))"
proof -
  from assms(1) have w: "get_at (xf_words x) 1 = Some p"
    and k: "kvs = [(''kind'', JStr ''url''), (''predicate'', JStr p), (''expected'', JStr t),
      (''regex'', JBool (xf_regex x))]"
    by (auto simp: expect_url_def Let_def and_then_Inr_iff expect_word_def predicate_Inr p_def t_def
        split: if_split_asm)
  show ?thesis
    using assms(2) by (auto simp: poll_defs url_holds_def k Let_def split: option.split)
qed

definition wanted_types :: "unicode \<Rightarrow> expect_flags \<Rightarrow> string list" where
  "wanted_types u x =
     (case xf_type x of
        Some t \<Rightarrow> map (\<lambda>s. lowercase u (trim s)) (split_on (CHR 0x2C) t) | None \<Rightarrow> [])"

lemma request_fields:
  assumes "kvs = [(''kind'', JStr ''request''), (''filter'', JStr flt)]
         @ field ''method'' (map_option JStr (xf_method x))
         @ field ''status'' (map_option JStr (xf_status x))
         @ field ''type'' (map_option JStr (xf_type x))
         @ field ''count'' (map_option jnat (xf_count x))"
  shows "jget (expect_json i x kvs) ''kind'' = Some (JStr ''request'')"
    and "jget (expect_json i x kvs) ''filter'' = Some (JStr flt)"
    and "jget (expect_json i x kvs) ''method'' = map_option JStr (xf_method x)"
    and "jget (expect_json i x kvs) ''status'' = map_option JStr (xf_status x)"
    and "jget (expect_json i x kvs) ''type'' = map_option JStr (xf_type x)"
    and "jget (expect_json i x kvs) ''count'' = map_option jnat (xf_count x)"
  unfolding assms
  by (simp_all add: expect_field map_add_def map_of_field split: option.split)

lemma verdict_request:
  assumes "expect_request_words x = Inr kvs" "pv_session v = Inr ()" "count_ok x"
  shows "poll_verdict u rx sj v (expect_json i x kvs) = Inr (
     let n = length (filter (\<lambda>r. request_matches u r (Some (unwrap_or [] (get_at (xf_words x) 1)))
               (xf_method x) (xf_status x) (wanted_types u x)) (tl_entries (pv_requests v)))
     in (case xf_count x of Some want \<Rightarrow> n = want | None \<Rightarrow> 0 < n))"
proof -
  from assms(1) obtain flt where w: "get_at (xf_words x) 1 = Some flt"
    and k: "kvs = [(''kind'', JStr ''request''), (''filter'', JStr flt)]
         @ field ''method'' (map_option JStr (xf_method x))
         @ field ''status'' (map_option JStr (xf_status x))
         @ field ''type'' (map_option JStr (xf_type x))
         @ field ''count'' (map_option jnat (xf_count x))"
    by (auto simp: expect_request_words_def and_then_Inr_iff expect_word_def)
  note f = request_fields [OF k, of i]
  have t: "type_list u (expect_json i x kvs) = wanted_types u x"
    using f(5) by (simp add: type_list_def get_str_def wanted_types_def split: option.split)
  have s: "selects u (expect_json i x kvs) = (\<lambda>r. request_matches u r (Some flt) (xf_method x)
      (xf_status x) (wanted_types u x))"
    using f(2-4) by (intro ext) (simp add: selects_def get_str_def t option.map_comp comp_def option.map_ident
        map_option_case split: option.split)
  have c: "Option.bind (jget (expect_json i x kvs) ''count'') as_u64 = xf_count x"
    using f(6) assms(3) by (cases "xf_count x") (simp_all add: count_ok_def)
  have m: "text_or (expect_json i x kvs) ''kind'' = ''request''"
    using f(1) by (simp add: text_or_def get_str_def)
  show ?thesis
    using assms(2) w
    by (simp add: poll_verdict_def eval_expect_once_def m expect_request_def s c Let_def
        Suc_le_eq split: option.split)
qed

lemma verdict_errors:
  assumes "pv_session v = Inr ()"
  shows "poll_verdict u rx sj v (expect_json i x [(''kind'', JStr ''errors''), (''max'', jnat 0)])
    = Inr (pv_errors v = 0)"
  using assms by (simp add: poll_defs Let_def)

lemma canon_state_cases:
  assumes "canon_element_state raw = Some st"
  shows "(st = ''visible'' \<and> raw = ''visible'') \<or> (st = ''hidden'' \<and> raw = ''hidden'')
    \<or> (st = ''detached'' \<and> raw \<in> {''gone'', ''detached''})
    \<or> (st = ''attached'' \<and> raw \<in> {''present'', ''attached''})"
  using assms unfolding canon_element_state_def by (elim if_SomeE) blast+

lemma verdict_element:
  assumes "expect_element sel x = Inr kvs" "pv_session v = Inr ()"
  defines "st \<equiv> unwrap_or [] (get_at (xf_words x) 1)"
  shows "poll_verdict u rx sj v (expect_json i x kvs) = Inr (
       (st = ''visible'' \<and> pv_present v sel \<and> pv_visible v sel)
     \<or> (st = ''hidden'' \<and> \<not> (pv_present v sel \<and> pv_visible v sel))
     \<or> (st \<in> {''gone'', ''detached''} \<and> \<not> pv_present v sel)
     \<or> (st \<in> {''present'', ''attached''} \<and> pv_present v sel))"
proof -
  from assms(1) obtain c where w: "get_at (xf_words x) 1 = Some st"
    and c: "canon_element_state st = Some c"
    and k: "kvs = [(''kind'', JStr ''element''), (''selector'', JStr sel), (''state'', JStr c)]"
    by (auto simp: expect_element_def and_then_Inr_iff expect_word_def st_def)
  have e: "poll_verdict u rx sj v (expect_json i x kvs) = Inr (element_holds v (expect_json i x kvs))"
    using assms(2) by (simp add: poll_defs k Let_def)
  have h: "element_holds v (expect_json i x kvs) =
      (if c = ''attached'' then pv_present v sel
       else if c = ''detached'' then \<not> pv_present v sel
       else if c = ''visible'' then pv_present v sel \<and> pv_visible v sel
       else if c = ''hidden'' then \<not> pv_present v sel \<or> \<not> pv_visible v sel else pv_present v sel)"
    by (simp add: element_holds_def poll_defs k Let_def)
  show ?thesis
    unfolding e h using canon_state_cases [OF c] by (elim disjE conjE insertE) simp_all
qed

section \<open>The whole path\<close>

lemma if_sumE:
  "(if b then r else s) = Inr c \<Longrightarrow> (b \<Longrightarrow> r = Inr c \<Longrightarrow> T) \<Longrightarrow> (\<not> b \<Longrightarrow> s = Inr c \<Longrightarrow> T) \<Longrightarrow> T"
  by (cases b) auto

lemma expect_end_to_end_poll:
  assumes "parse_expect rest i = Inr cmd" "pv_session v = Inr ()"
  shows "poll_verdict u rx sj v cmd = Inr (asked u rx sj (expect_scan rest no_expect_flags) v)"
proof -
  let ?x = "expect_scan rest no_expect_flags"
  from assms(1) obtain first kvs where w: "get_at (xf_words ?x) 0 = Some first"
    and c: "expect_condition first ?x = Inr kvs" and cmd: "cmd = expect_json i ?x kvs"
    by (auto simp: parse_expect_Inr)
  have ok: "count_ok ?x"
    by (rule count_ok_scan) (simp add: count_ok_def no_expect_flags_def)
  from c show ?thesis
    unfolding expect_condition_def
  proof (elim if_sumE)
    assume "first = ''count''" "expect_count ?x = Inr kvs"
    then show ?thesis using verdict_count [OF _ assms(2)] w by (simp add: asked_def cmd Let_def)
  next
    assume h: "first = ''text'' \<or> first = ''value''" "expect_text first ?x = Inr kvs"
    then show ?thesis
      using verdict_text [OF h(2) assms(2) h(1)] w
      by (elim disjE) (simp_all add: asked_def cmd Let_def)
  next
    assume "first = ''attr''" "expect_attr ?x = Inr kvs"
    then show ?thesis using verdict_attr [OF _ assms(2)] w by (simp add: asked_def cmd Let_def)
  next
    assume "first = ''url''" "expect_url ?x = Inr kvs"
    then show ?thesis using verdict_url [OF _ assms(2)] w by (simp add: asked_def cmd Let_def)
  next
    assume "first = ''request''" "expect_request_words ?x = Inr kvs"
    then show ?thesis
      using verdict_request [OF _ assms(2) ok] w
      by (simp add: asked_def cmd Let_def wanted_types_def)
  next
    assume "first = ''no-errors''" "Inr [(''kind'', JStr ''errors''), (''max'', jnat 0)] = (Inr kvs :: condition)"
    then show ?thesis using verdict_errors [OF assms(2)] w by (simp add: asked_def cmd Let_def)
  next
    assume "first \<noteq> ''count''" "\<not> (first = ''text'' \<or> first = ''value'')" "first \<noteq> ''attr''" "first \<noteq> ''url''"
      "first \<noteq> ''request''" "first \<noteq> ''no-errors''" "expect_element first ?x = Inr kvs"
    then show ?thesis using verdict_element [OF _ assms(2)] w by (simp add: asked_def cmd Let_def)
  qed
qed

text \<open>
  C12: Whatever assertion the command line accepts, the daemon decides at each poll exactly
  what its words ask: the comparison written between the selector and the number, the text,
  attribute or URL predicate, the element's state, the number of errors, or the requests in
  the log that match every filter given (a count of them, or at least one). No accepted
  assertion is unknown to the daemon.
\<close>
theorem expect_end_to_end:
  assumes "parse_expect rest i = Inr cmd" "pv_session v = Inr ()"
  shows "poll_verdict u rx sj v cmd = Inr (asked u rx sj (expect_scan rest no_expect_flags) v)"
  by (rule expect_end_to_end_poll [OF assms])

definition example_view :: page_view where
  "example_view = \<lparr> pv_session = Inr (), pv_present = (\<lambda>s. s = ''#a''), pv_visible = (\<lambda>s. True),
     pv_count = (\<lambda>s. 3), pv_text = (\<lambda>s. Inr ''hello''), pv_value = (\<lambda>s. Inl ''none''),
     pv_attr = (\<lambda>s n. Inr JNull), pv_url = ''https://a/b'', pv_requests = no_requests,
     pv_errors = 0 \<rparr>"

lemma example_expect:
  "\<exists>cmd. parse_expect [''count'', ''li'', ''>='', ''3'', ''--no-wait''] ''r1'' = Inr cmd"
  by (simp add: parse_expect_def expect_condition_def expect_count_def canon_count_op_def
      expect_word_def need_def parse_u64_def decimal_value_def digit_value_def is_ascii_digit_def
      starts_with_def no_expect_flags_def get_at_def Let_def)

lemma example_asked:
  "asked ascii_tables (\<lambda>_. None) (\<lambda>_. [])
      (expect_scan [''count'', ''li'', ''>='', ''3'', ''--no-wait''] no_expect_flags) example_view"
  by (simp add: asked_def no_expect_flags_def op_means_def example_view_def parse_u64_def get_at_def
        decimal_value_def digit_value_def is_ascii_digit_def Let_def)

lemma expect_end_to_end_witness:
  "\<exists>cmd. parse_expect [''count'', ''li'', ''>='', ''3'', ''--no-wait''] ''r1'' = Inr cmd
     \<and> poll_verdict ascii_tables (\<lambda>_. None) (\<lambda>_. []) example_view cmd = Inr True"
proof -
  obtain cmd where p: "parse_expect [''count'', ''li'', ''>='', ''3'', ''--no-wait''] ''r1'' = Inr cmd"
    using example_expect by blast
  have s: "pv_session example_view = Inr ()" by (simp add: example_view_def)
  show ?thesis
    using expect_end_to_end [OF p s, of ascii_tables "\<lambda>_. None" "\<lambda>_. []"] p example_asked by auto
qed

section \<open>Waiting\<close>

text \<open>
  Which round decides: the first that passes, as long as no earlier round was past the
  deadline (or the command was told not to wait).
\<close>

definition passes_in_time ::
  "(page_view \<Rightarrow> bool) \<Rightarrow> bool \<Rightarrow> bool \<Rightarrow> nat \<Rightarrow> (page_view \<times> nat) list \<Rightarrow> bool" where
  "passes_in_time P neg no_wait deadline polls \<longleftrightarrow>
     (\<exists>k < length polls. P (fst (polls ! k)) \<noteq> neg
        \<and> (\<forall>j < k. snd (polls ! j) < deadline \<and> \<not> no_wait))"

lemma passes_in_time_Cons:
  "passes_in_time P neg no_wait deadline ((v, t) # polls) \<longleftrightarrow>
     P v \<noteq> neg \<or> (t < deadline \<and> \<not> no_wait \<and> passes_in_time P neg no_wait deadline polls)"
proof -
  have "(\<exists>k < Suc n. Q k) \<longleftrightarrow> Q 0 \<or> (\<exists>k < n. Q (Suc k))" for Q and n :: nat
    using less_Suc_eq_0_disj by auto
  moreover have "(\<forall>j < Suc k. R j) \<longleftrightarrow> R 0 \<and> (\<forall>j < k. R (Suc j))" for R and k :: nat
    using less_Suc_eq_0_disj by auto
  ultimately show ?thesis by (auto simp: passes_in_time_def)
qed

lemma expect_loop_returns:
  assumes "\<forall>v \<in> fst ` set polls. \<exists>a. ev v = Inr (P v, a)"
    and "\<exists>t \<in> snd ` set polls. no_wait \<or> deadline \<le> t"
  shows "\<exists>pass act. expect_loop ev neg no_wait deadline polls = Some (Inr (pass, act))
    \<and> (pass \<longleftrightarrow> passes_in_time P neg no_wait deadline polls)"
  using assms
proof (induction polls)
  case Nil
  then show ?case by simp
next
  case (Cons r polls)
  obtain v t where r: "r = (v, t)" by force
  then obtain a where a: "ev v = Inr (P v, a)" using Cons.prems(1) by auto
  show ?case
  proof (cases "P v \<noteq> neg \<or> no_wait \<or> deadline \<le> t")
    case True
    then show ?thesis using a by (auto simp: r passes_in_time_Cons)
  next
    case False
    then have "\<exists>t \<in> snd ` set polls. no_wait \<or> deadline \<le> t" using Cons.prems(2) r by auto
    with False show ?thesis
      using Cons.IH Cons.prems(1) a by (auto simp: r passes_in_time_Cons)
  qed
qed

definition reserved :: "string set" where
  "reserved = {''timeout'', ''noWait'', ''not'', ''action'', ''id''}"

lemma in_field: "p \<in> set (field k v) \<longleftrightarrow> (\<exists>y. v = Some y \<and> p = (k, y))"
  by (auto simp: field_def split: option.splits)

lemma condition_keys:
  assumes "expect_condition first x = Inr kvs"
  shows "fst ` set kvs \<inter> reserved = {}"
  using assms unfolding expect_condition_def
proof (elim if_sumE)
  assume "expect_request_words x = Inr kvs"
  then show ?thesis
    by (auto simp: expect_request_words_def and_then_Inr_iff reserved_def in_field)
qed (auto simp: expect_count_def expect_text_def expect_attr_def expect_url_def
    expect_element_def Let_def and_then_Inr_iff reserved_def split: if_split_asm)

lemma expect_options:
  assumes "expect_condition first x = Inr kvs" "count_ok x"
  shows "flag_of (expect_json i x kvs) ''not'' = xf_not x"
    and "flag_of (expect_json i x kvs) ''noWait'' = xf_no_wait x"
    and "expect_timeout dflt (expect_json i x kvs) = unwrap_or dflt (xf_timeout x)"
proof -
  have n: "map_of (rev kvs) k = None" if "k \<in> reserved" for k
    using condition_keys [OF assms(1)] that by (auto simp: map_of_eq_None_iff)
  show "flag_of (expect_json i x kvs) ''not'' = xf_not x"
    "flag_of (expect_json i x kvs) ''noWait'' = xf_no_wait x"
    using n [of "''not''"] n [of "''noWait''"]
    by (simp_all add: flag_of_def expect_json_def map_add_def reserved_def)
  show "expect_timeout dflt (expect_json i x kvs) = unwrap_or dflt (xf_timeout x)"
    using n [of "''timeout''"] assms(2)
    by (cases "xf_timeout x")
      (simp_all add: expect_timeout_def expect_json_def map_add_def map_of_field reserved_def
        count_ok_def)
qed

text \<open>
  C22: An assertion always comes to a verdict once a poll ends at or after the deadline (or
  at once with --no-wait), and the verdict is PASS exactly when some poll saw what was asked
  (or, with --not, did not see it) before any poll had ended past the deadline: a condition
  that becomes true in time is not missed, and one that never holds is reported as failed.
\<close>
theorem expect_verdict:
  fixes rest dflt now
  defines "x \<equiv> expect_scan rest no_expect_flags"
  defines "deadline \<equiv> now + unwrap_or dflt (xf_timeout x)"
  assumes "parse_expect rest i = Inr cmd"
    and "\<forall>v \<in> fst ` set polls. pv_session v = Inr ()"
    and "\<exists>t \<in> snd ` set polls. xf_no_wait x \<or> deadline \<le> t"
  shows "\<exists>r. handle_expect u rx sj True dflt now polls cmd = Some (Inr r)
    \<and> (jget r ''pass'' = Some (JBool True)
        \<longleftrightarrow> passes_in_time (asked u rx sj x) (xf_not x) (xf_no_wait x) deadline polls)"
proof -
  let ?kind = "text_or cmd ''kind''"
  let ?ev = "\<lambda>v. eval_expect_once u rx sj v cmd ?kind"
  from assms(3) obtain first kvs where c: "expect_condition first x = Inr kvs"
    and cmd: "cmd = expect_json i x kvs"
    by (auto simp: parse_expect_Inr x_def)
  have ok: "count_ok x"
    unfolding x_def by (rule count_ok_scan) (simp add: count_ok_def no_expect_flags_def)
  have "\<exists>a. ?ev v = Inr (asked u rx sj x v, a)" if "v \<in> fst ` set polls" for v
    using expect_end_to_end_poll [OF assms(3)] assms(4) that unfolding poll_verdict_def x_def
    by (auto simp: and_then_Inr_iff)
  then obtain pass act where l: "expect_loop ?ev (xf_not x) (xf_no_wait x) deadline polls
      = Some (Inr (pass, act))"
    and p: "pass \<longleftrightarrow> passes_in_time (asked u rx sj x) (xf_not x) (xf_no_wait x) deadline polls"
    using expect_loop_returns [OF _ assms(5), of ?ev "asked u rx sj x" "xf_not x"] by blast
  have "flag_of cmd ''not'' = xf_not x" "flag_of cmd ''noWait'' = xf_no_wait x"
    "now + expect_timeout dflt cmd = deadline"
    using expect_options [OF c ok] by (simp_all add: cmd deadline_def)
  then show ?thesis
    using l p by (simp add: handle_expect_def Let_def)
qed

lemma expect_verdict_witness:
  "\<exists>cmd r. parse_expect [''count'', ''li'', ''>='', ''3'', ''--no-wait''] ''r1'' = Inr cmd
     \<and> handle_expect ascii_tables (\<lambda>_. None) (\<lambda>_. []) True 5 0 [(example_view, 1)] cmd = Some (Inr r)
     \<and> jget r ''pass'' = Some (JBool True)"
proof -
  obtain cmd where p: "parse_expect [''count'', ''li'', ''>='', ''3'', ''--no-wait''] ''r1'' = Inr cmd"
    using example_expect by blast
  have x: "xf_no_wait (expect_scan [''count'', ''li'', ''>='', ''3'', ''--no-wait''] no_expect_flags)"
    "\<not> xf_not (expect_scan [''count'', ''li'', ''>='', ''3'', ''--no-wait''] no_expect_flags)"
    by (simp_all add: no_expect_flags_def)
  have "passes_in_time (asked ascii_tables (\<lambda>_. None) (\<lambda>_. [])
      (expect_scan [''count'', ''li'', ''>='', ''3'', ''--no-wait''] no_expect_flags)) False True d
      [(example_view, 1)]" for d
    using example_asked by (simp add: passes_in_time_Cons)
  then show ?thesis
    using expect_verdict [OF p, of "[(example_view, 1)]" 0 5 ascii_tables "\<lambda>_. None" "\<lambda>_. []"] p x
    by (auto simp: example_view_def)
qed

end
