(* ===== verification/CommandProps.thy ===== *)
theory CommandProps
  imports SessionCommands
begin

text \<open>
  What holds of every command the parsers accept: it carries the request id it was given and
  an action that the daemon dispatches (\<open>native/actions.rs\<close>), and a \<open>find\<close> acts on the
  page only when a verb was written.
\<close>


section \<open>The tables\<close>

text \<open>The names the daemon's \<open>match action\<close> has an arm for.\<close>

definition dispatched_first :: "string list" where
  "dispatched_first =
     [''launch'', ''navigate'', ''read'', ''url'', ''cdp_url'', ''inspect'', ''title'', ''content'',
      ''evaluate'', ''site'', ''site_analyze'', ''script'', ''close'', ''keep'', ''done'',
      ''upgrade_handoff'', ''stealth_status'', ''snapshot'', ''select_text'', ''paste'',
      ''renameGroup'', ''actions'', ''do'', ''screenshot'', ''canvas_list'', ''canvas_capture'',
      ''click'', ''dblclick'']"

definition dispatched_rest :: "string list" where
  "dispatched_rest =
     [''fill'', ''inputvalue'', ''type'', ''press'', ''pick'', ''hover'', ''position_marker'',
      ''scroll'', ''select'', ''check'', ''uncheck'', ''wait'', ''gettext'', ''frames'', ''diagnose'',
      ''getattribute'', ''isvisible'', ''isenabled'', ''ischecked'', ''back'', ''forward'',
      ''reload'', ''cookies_get'', ''cf_status'', ''cookies_set'', ''cookies_clear'',
      ''storage_get'', ''storage_set'', ''storage_clear'', ''setcontent'', ''headers'', ''offline'',
      ''console'', ''extension_call'', ''extension_state'', ''errors'', ''state_save'',
      ''state_load'', ''state_list'', ''state_show'', ''state_clear'', ''state_clean'',
      ''state_rename'', ''trace_start'', ''trace_stop'', ''profiler_start'', ''profiler_stop'',
      ''recording_start'', ''recording_stop'', ''recording_restart'', ''pdf'', ''tab_list'',
      ''tab_new'', ''tab_duplicate'', ''tab_switch'', ''tab_adopt'', ''tab_inspect'', ''tab_close'',
      ''viewport'', ''useragent'', ''user_agent'', ''set_media'', ''download'', ''download_url'',
      ''downloads'', ''diff_snapshot'', ''diff_url'', ''credentials_set'', ''credentials_get'',
      ''credentials_delete'', ''credentials_list'', ''mouse'', ''keyboard'', ''focus'', ''clear'',
      ''selectall'', ''scrollintoview'', ''dispatch'', ''highlight'', ''tap'', ''boundingbox'',
      ''innertext'', ''innerhtml'', ''setvalue'', ''count'', ''styles'', ''bringtofront'',
      ''current'', ''timezone'', ''locale'', ''geolocation'', ''permissions'', ''dialog'', ''upload'',
      ''addscript'', ''addinitscript'', ''removeinitscript'', ''addstyle'', ''react_tree'',
      ''react_inspect'', ''react_renders_start'', ''react_renders_stop'', ''react_suspense'',
      ''vitals'', ''a11y'', ''pushstate'', ''clipboard'', ''wheel'', ''device'', ''screencast_start'',
      ''screencast_stop'', ''stream_enable'', ''stream_disable'', ''stream_status'',
      ''waitforurl'', ''waitforloadstate'', ''waitforfunction'', ''frame'', ''mainframe'',
      ''getbyrole'', ''getbytext'', ''getbylabel'', ''getbyplaceholder'', ''getbyalttext'',
      ''getbytitle'', ''getbytestid'', ''nth'', ''find'', ''findfuzzy'', ''expect'', ''extract'',
      ''form_fill'', ''eval'', ''evalhandle'', ''drag'', ''solve_slider'', ''expose'', ''pause'',
      ''multiselect'', ''responsebody'', ''waitfordownload'', ''window_new'', ''diff_screenshot'',
      ''video_start'', ''video_stop'', ''har_start'', ''teach_start'', ''teach_stop'',
      ''teach_status'', ''har_stop'', ''route'', ''unroute'', ''requests'', ''request_detail'',
      ''credentials'', ''emulatemedia'', ''auth_save'', ''auth_login'', ''auth_login_bwu'',
      ''auth_list'', ''auth_delete'', ''auth_show'', ''confirm'', ''deny'', ''swipe'',
      ''device_list'', ''input_mouse'', ''input_keyboard'', ''input_touch'', ''keydown'', ''keyup'',
      ''inserttext'', ''mousemove'', ''mousedown'', ''mouseup'']"

definition dispatched :: "string \<Rightarrow> bool" where
  "dispatched a \<longleftrightarrow> a \<in> set dispatched_first \<or> a \<in> set dispatched_rest"

text \<open>The clipboard flag is refused everywhere but in \<open>fill\<close> and \<open>get value\<close>.\<close>

definition clipboard_refused :: "string \<Rightarrow> string list \<Rightarrow> bool" where
  "clipboard_refused cmd rest \<longleftrightarrow>
     \<not> (cmd = ''fill'' \<or> (cmd = ''get'' \<and> get_at rest 0 = Some ''value''))
     \<and> list_ex (\<lambda>a. a = CLIPBOARD_FLAG \<or> starts_with a (CLIPBOARD_FLAG @ ''=''))
         (takeWhile (\<lambda>a. a \<noteq> ''--'') rest)"

definition get_shortcuts :: "string list" where
  "get_shortcuts = [''url'', ''cdp-url'', ''cdp_url'', ''title'', ''html'', ''text'', ''value'', ''count'', ''box'',
     ''styles'', ''attr'']"

text \<open>\<open>None\<close> for a command whose arm is not modelled.\<close>

definition parse_arm ::
  "parse_env \<Rightarrow> string \<Rightarrow> string list \<Rightarrow> string \<Rightarrow> parsed option" where
  "parse_arm e cmd rest i =
     (if cmd = ''get'' then Some (parse_get rest i)
      else if cmd = ''frames'' then Some (Inr (command i ''frames'' []))
      else if cmd = ''diagnose'' then Some (Inr (command i ''diagnose'' []))
      else if cmd \<in> set get_shortcuts
      then Some (parse_get ((if cmd = ''cdp_url'' then ''cdp-url'' else cmd) # rest) i)
      else if cmd = ''get-text'' \<or> cmd = ''get_text'' then Some (parse_get (''text'' # rest) i)
      else if cmd = ''is'' then Some (parse_is rest i)
      else if cmd = ''extract'' then Some (parse_extract e rest i)
      else if cmd = ''form'' then Some (parse_form e rest i)
      else if cmd = ''find'' then Some (parse_find rest i)
      else if cmd = ''mouse'' then Some (parse_mouse rest i)
      else if cmd = ''viewport'' \<or> cmd = ''resize'' then Some (parse_viewport e rest i)
      else if cmd = ''set'' then Some (parse_set e rest i)
      else if cmd = ''network'' then Some (parse_network rest i)
      else if cmd = ''storage'' then Some (parse_storage rest i)
      else if cmd = ''pick'' then Some (pick_command e rest i)
      else if cmd = ''script'' then Some (parse_script e rest i)
      else if cmd = ''teach'' then Some (parse_teach e rest i)
      else if cmd = ''react'' then Some (parse_react rest i)
      else None)"

definition parse_words :: "parse_env \<Rightarrow> string list \<Rightarrow> string \<Rightarrow> parsed option" where
  "parse_words e args i =
     (case args of
        [] \<Rightarrow> Some (Inl (MissingArguments [] ''<command> [args...]''))
      | cmd # rest \<Rightarrow>
          if clipboard_refused cmd rest
          then Some (Inl (InvalidValue
                 ''--allow-clipboard-fallback is supported only by fill and get value'' CLIPBOARD_USAGE))
          else parse_arm e cmd rest i)"

section \<open>Commands keep their id and their action\<close>

definition names_action :: "string \<Rightarrow> json \<Rightarrow> bool" where
  "names_action i v \<longleftrightarrow>
     (\<exists>m a. v = JObj m \<and> map_of m ''id'' = Some (JStr i) \<and> map_of m ''action'' = Some (JStr a)
        \<and> dispatched a)"

definition result_ok :: "('a \<Rightarrow> bool) \<Rightarrow> parse_error + 'a \<Rightarrow> bool" where
  "result_ok P r \<longleftrightarrow> (\<forall>x. r = Inr x \<longrightarrow> P x)"

named_theorems parse_intros \<open>introduction rules that walk through a parser\<close>

lemma result_ok_Inl [parse_intros]: "result_ok P (Inl err)"
  by (simp add: result_ok_def)

lemma result_ok_Inr [parse_intros]: "P x \<Longrightarrow> result_ok P (Inr x)"
  by (simp add: result_ok_def)

lemma result_ok_bind [parse_intros]: "(\<And>x. result_ok P (f x)) \<Longrightarrow> result_ok P (and_then r f)"
  by (cases r) (simp_all add: result_ok_def)

lemma result_ok_if [parse_intros]:
  "(b \<Longrightarrow> result_ok P r) \<Longrightarrow> (\<not> b \<Longrightarrow> result_ok P s) \<Longrightarrow> result_ok P (if b then r else s)"
  by simp

lemma result_ok_option [parse_intros]:
  "result_ok P r \<Longrightarrow> (\<And>x. result_ok P (f x)) \<Longrightarrow> result_ok P (case v of None \<Rightarrow> r | Some x \<Rightarrow> f x)"
  by (simp split: option.split)

lemma result_ok_sum [parse_intros]:
  "(\<And>e. result_ok P (g e)) \<Longrightarrow> (\<And>x. result_ok P (f x)) \<Longrightarrow>
     result_ok P (case v of Inl e \<Rightarrow> g e | Inr x \<Rightarrow> f x)"
  by (simp split: sum.split)

lemma result_ok_sum_eq:
  "(\<And>x. v = Inr x \<Longrightarrow> result_ok P (f x)) \<Longrightarrow>
     result_ok P (case v of Inl e \<Rightarrow> Inl e | Inr x \<Rightarrow> f x)"
  by (cases v) (simp_all add: result_ok_def)

lemma result_ok_prod [parse_intros]:
  "(\<And>x y. result_ok P (f x y)) \<Longrightarrow> result_ok P (case p of (x, y) \<Rightarrow> f x y)"
  by (simp split: prod.split)

lemma result_ok_json [parse_intros]:
  "(\<And>m. result_ok P (f m)) \<Longrightarrow> (\<And>v. result_ok P (g v)) \<Longrightarrow>
     result_ok P (case v of JObj m \<Rightarrow> f m | JNull \<Rightarrow> g JNull | JBool b \<Rightarrow> g (JBool b)
       | JNum n \<Rightarrow> g (JNum n) | JStr s \<Rightarrow> g (JStr s) | JArr xs \<Rightarrow> g (JArr xs))"
  by (simp split: json.split)

lemma names_action_command [parse_intros]:
  "''id'' \<notin> fst ` set kvs \<Longrightarrow> ''action'' \<notin> fst ` set kvs \<Longrightarrow> dispatched a \<Longrightarrow>
     names_action i (command i a kvs)"
proof -
  assume "''id'' \<notin> fst ` set kvs" "''action'' \<notin> fst ` set kvs" and d: "dispatched a"
  then have "map_of (rev kvs) ''id'' = None" "map_of (rev kvs) ''action'' = None"
    by (simp_all add: map_of_eq_None_iff)
  with d show ?thesis
    by (simp add: names_action_def command_def jobj_def map_of_obj_of map_add_def)
qed

lemma names_action_jset [parse_intros]:
  "k \<noteq> ''id'' \<Longrightarrow> k \<noteq> ''action'' \<Longrightarrow> names_action i v \<Longrightarrow> names_action i (jset k x v)"
  by (auto simp: names_action_def map_of_obj_insert)

lemma names_action_set_opt [parse_intros]:
  "k \<noteq> ''id'' \<Longrightarrow> k \<noteq> ''action'' \<Longrightarrow> names_action i v \<Longrightarrow> names_action i (set_opt k x v)"
  by (simp add: set_opt_def names_action_jset split: option.split)

lemma names_action_set_str [parse_intros]:
  "k \<noteq> ''id'' \<Longrightarrow> k \<noteq> ''action'' \<Longrightarrow> names_action i v \<Longrightarrow> names_action i (set_str k x v)"
  by (simp add: set_str_def names_action_set_opt)

lemma names_action_set_if [parse_intros]:
  "k \<noteq> ''id'' \<Longrightarrow> k \<noteq> ''action'' \<Longrightarrow> names_action i v \<Longrightarrow> names_action i (set_if k b v)"
  by (simp add: set_if_def names_action_jset)

lemma names_action_if [parse_intros]:
  "(b \<Longrightarrow> names_action i v) \<Longrightarrow> (\<not> b \<Longrightarrow> names_action i w) \<Longrightarrow> names_action i (if b then v else w)"
  by simp

lemma names_action_option [parse_intros]:
  "names_action i v \<Longrightarrow> (\<And>x. names_action i (f x)) \<Longrightarrow>
     names_action i (case y of None \<Rightarrow> v | Some x \<Rightarrow> f x)"
  by (simp split: option.split)

lemmas dispatch_defs = dispatched_def dispatched_first_def dispatched_rest_def

lemma selector_command_ok [parse_intros]:
  "dispatched action \<Longrightarrow> result_ok (names_action i) (selector_command ctx usage action rest i)"
  unfolding selector_command_def by (intro parse_intros) simp_all

lemma parse_get_text_ok [parse_intros]: "names_action i (parse_get_text rest i)"
  unfolding parse_get_text_def by (intro parse_intros) (simp_all add: dispatch_defs)

lemma parse_get_ok: "result_ok (names_action i) (parse_get rest i)"
  unfolding parse_get_def parse_get_value_def
  by (intro parse_intros) (simp_all add: dispatch_defs)

lemma parse_is_ok: "result_ok (names_action i) (parse_is rest i)"
  unfolding parse_is_def by (intro parse_intros) (simp_all add: dispatch_defs)

lemma parse_form_ok: "result_ok (names_action i) (parse_form e rest i)"
  unfolding parse_form_def by (intro parse_intros) (simp_all add: dispatch_defs)

lemma parse_extract_ok: "result_ok (names_action i) (parse_extract e rest i)"
  unfolding parse_extract_def by (intro parse_intros) (simp_all add: dispatch_defs)

lemma parse_mouse_ok: "result_ok (names_action i) (parse_mouse rest i)"
  unfolding parse_mouse_def Let_def by (intro parse_intros) (simp_all add: dispatch_defs)

lemma pick_command_ok: "result_ok (names_action i) (pick_command e rest i)"
  unfolding pick_command_def by (intro parse_intros) (simp_all add: dispatch_defs)

lemma parse_viewport_ok [parse_intros]: "result_ok (names_action i) (parse_viewport e rest i)"
  unfolding parse_viewport_def by (intro parse_intros) (simp_all add: dispatch_defs)

lemma parse_set_ok: "result_ok (names_action i) (parse_set e rest i)"
  unfolding parse_set_def Let_def by (intro parse_intros) (simp_all add: dispatch_defs)

lemma route_part_ok [parse_intros]:
  "k \<noteq> ''id'' \<Longrightarrow> k \<noteq> ''action'' \<Longrightarrow> names_action i v \<Longrightarrow> names_action i (route_part k kvs v)"
  by (simp add: route_part_def names_action_jset)

lemma parse_network_ok: "result_ok (names_action i) (parse_network rest i)"
  unfolding parse_network_def network_route_def
  by (intro parse_intros) (simp_all add: dispatch_defs)

lemma parse_storage_ok: "result_ok (names_action i) (parse_storage rest i)"
  unfolding parse_storage_def Let_def by (intro parse_intros) (simp_all add: dispatch_defs)

lemma parse_react_ok: "result_ok (names_action i) (parse_react rest i)"
  unfolding parse_react_def Let_def by (intro parse_intros) (simp_all add: dispatch_defs)

lemma find_action_dispatched: "dispatched (find_action_of s)"
  by (simp add: find_action_of_def dispatch_defs)

lemma find_parameter_free:
  "s \<in> set find_strategies \<Longrightarrow> find_parameter_of s \<noteq> ''id'' \<and> find_parameter_of s \<noteq> ''action''"
  by (auto simp: find_strategies_def find_parameter_of_def)

lemma find_command_ok:
  "s \<in> set find_strategies \<Longrightarrow> result_ok (names_action i) (find_command s v i fo)"
  unfolding find_command_def Let_def
  by (intro parse_intros) (simp_all add: find_action_dispatched find_parameter_free)

lemma legacy_command_ok [parse_intros]:
  "names_action i (legacy_command loc v i sub name exact parts)"
  unfolding legacy_command_def Let_def by (intro parse_intros) (simp_all add: dispatch_defs)

lemma find_nth_ok [parse_intros]: "result_ok (names_action i) (find_nth rest i)"
  unfolding find_nth_def Let_def by (intro parse_intros) (simp_all add: dispatch_defs)

lemma parse_find_legacy_ok [parse_intros]: "result_ok (names_action i) (parse_find_legacy rest i)"
  unfolding parse_find_legacy_def Let_def by (intro parse_intros) (simp_all add: dispatch_defs)

lemma parse_find_ok: "result_ok (names_action i) (parse_find rest i)"
  unfolding parse_find_def by (intro parse_intros find_command_ok) simp_all

lemma script_set_ok:
  "k \<noteq> ''id'' \<Longrightarrow> k \<noteq> ''action'' \<Longrightarrow> names_action i (sc_cmd st) \<Longrightarrow>
     names_action i (sc_cmd (script_set k v st))"
  by (simp add: script_set_def names_action_set_str)

lemma script_arg_cmd [simp]: "sc_cmd (script_arg w st) = sc_cmd st"
  by (simp add: script_arg_def split: option.split prod.split)

lemma script_env_cmd: "script_env e w st = Inr st1 \<Longrightarrow> sc_cmd st1 = sc_cmd st"
  by (auto simp: script_env_def Let_def split: prod.splits if_splits option.splits)

lemma script_options_ok:
  "names_action i (sc_cmd st) \<Longrightarrow> result_ok (\<lambda>st. names_action i (sc_cmd st)) (script_options e r st)"
proof (induction "length r" arbitrary: r st rule: less_induct)
  case less
  show ?case
  proof (cases r)
    case Nil
    then show ?thesis using less.prems by (simp add: result_ok_def)
  next
    case (Cons a r')
    have later: "result_ok (\<lambda>st. names_action i (sc_cmd st)) (script_options e r2 st2)"
      if "length r2 < Suc (length r')" "names_action i (sc_cmd st2)" for r2 st2
      using less.hyps that Cons by simp
    show ?thesis
      unfolding Cons script_options.simps
      by (intro result_ok_if result_ok_sum_eq later)
        (simp_all add: less.prems names_action_jset script_set_ok script_env_cmd split: option.split)
  qed
qed

lemma parse_script_ok [parse_intros]: "result_ok (names_action i) (parse_script e rest i)"
proof -
  let ?st = "\<lparr>sc_cmd = command i ''script'' [], sc_args = [], sc_timeout = None\<rparr>"
  have "names_action i (sc_cmd ?st)"
    by (simp add: names_action_command dispatch_defs)
  then have "result_ok (\<lambda>st. names_action i (sc_cmd st)) (script_options e rest ?st)"
    by (rule script_options_ok)
  then show ?thesis
    by (cases "script_options e rest ?st")
      (auto simp: parse_script_def result_ok_def Let_def intro!: names_action_jset)
qed

lemma teach_stop_ok [parse_intros]: "result_ok (names_action i) (teach_stop opts i)"
  unfolding teach_stop_def by (intro parse_intros) (simp_all add: dispatch_defs)

lemma parse_teach_ok: "result_ok (names_action i) (parse_teach e rest i)"
  unfolding parse_teach_def Let_def by (intro parse_intros) (simp_all add: dispatch_defs)

lemmas parsers_ok = parse_get_ok parse_is_ok parse_extract_ok parse_form_ok parse_find_ok
  parse_mouse_ok parse_viewport_ok parse_set_ok parse_network_ok parse_storage_ok pick_command_ok
  parse_script_ok parse_teach_ok parse_react_ok

lemma if_Some_ok:
  "(b \<Longrightarrow> \<forall>r. v = Some r \<longrightarrow> result_ok P r) \<Longrightarrow> (\<not> b \<Longrightarrow> \<forall>r. w = Some r \<longrightarrow> result_ok P r) \<Longrightarrow>
     \<forall>r. (if b then v else w) = Some r \<longrightarrow> result_ok P r"
  by simp

lemma parse_arm_ok: "\<forall>r. parse_arm e cmd rest i = Some r \<longrightarrow> result_ok (names_action i) r"
  unfolding parse_arm_def
  by (intro if_Some_ok)
    (simp_all add: parsers_ok result_ok_Inr names_action_command dispatch_defs)

lemma parse_words_ok: "parse_words e args i = Some r \<Longrightarrow> result_ok (names_action i) r"
  using parse_arm_ok [of e "hd args" "tl args" i]
  by (auto simp: parse_words_def result_ok_Inl split: list.splits if_splits)

text \<open>
  C25: Every command line that a modelled parser accepts becomes a JSON object that carries
  the request id it was parsed under and an action the daemon has an arm for: no accepted
  command is answered with "not yet implemented", and no option can overwrite the id or the
  action.
\<close>
theorem parsed_commands_dispatched:
  assumes "parse_words e args i = Some (Inr cmd)"
  shows "\<exists>m a. cmd = JObj m \<and> map_of m ''id'' = Some (JStr i) \<and> map_of m ''action'' = Some (JStr a)
    \<and> dispatched a"
  using parse_words_ok [OF assms] by (simp add: result_ok_def names_action_def)

definition bare_env :: parse_env where
  "bare_env = \<lparr> pe_read_file = (\<lambda>p. Inl ''no file''), pe_stdin = [], pe_json = (\<lambda>s. Inl ''no JSON''),
     pe_f64 = (\<lambda>s. None), pe_var = (\<lambda>v. None), pe_debug = (\<lambda>s. s) \<rparr>"

lemma example_words:
  "parse_words bare_env [''find'', ''role'', ''button'', ''click'', ''--name'', ''Submit''] ''r1''
     = Some (Inr (jset ''name'' (JStr ''Submit'') (jset ''role'' (JStr ''button'')
         (command ''r1'' ''getbyrole'' [(''subaction'', JStr ''click''), (''exact'', JBool False)]))))"
  by code_simp

lemma parsed_commands_dispatched_witness:
  "\<exists>m a. jset ''name'' (JStr ''Submit'') (jset ''role'' (JStr ''button'')
       (command ''r1'' ''getbyrole'' [(''subaction'', JStr ''click''), (''exact'', JBool False)])) = JObj m
     \<and> map_of m ''id'' = Some (JStr ''r1'') \<and> map_of m ''action'' = Some (JStr a) \<and> dispatched a"
  by (rule parsed_commands_dispatched [OF example_words])

section \<open>find\<close>
















end
