(* ===== verification/Approval.thy ===== *)
theory Approval
  imports Json
begin

text \<open>
  Approval replies of the agent panel (\<open>agent_panel/approval.rs\<close>): the backend's result is
  built from the unredacted request the service kept and a decision from a closed set; an
  older panel's echo is accepted only when it equals the redacted projection it was shown. The
  comparison of JSON values is equality of values; objects are lists sorted by key.
\<close>


definition MAX_CUSTOM_ANSWER :: nat where
  "MAX_CUSTOM_ANSWER = 2000"

definition MAX_DENY_MESSAGE :: nat where
  "MAX_DENY_MESSAGE = 500"

definition ask_user_question :: "string \<Rightarrow> json \<Rightarrow> bool" where
  "ask_user_question meth original \<longleftrightarrow>
     meth = ''can_use_tool'' \<and> jidx original ''tool_name'' = JStr ''AskUserQuestion''"

definition not_supported :: string where
  "not_supported = ''Response does not match the backend request's supported schema''"

abbreviation refuse :: "'a result" where
  "refuse \<equiv> Inl not_supported"

section \<open>Answers to questions\<close>

datatype answers = ByPosition "json list" | Keyed obj

text \<open>\<open>v.as_object().filter(|o| o.len() == 1)\<close>.\<close>

definition single_object :: "json \<Rightarrow> obj option" where
  "single_object v = filter_opt (\<lambda>m. length m = 1) (as_object v)"

definition given_answers :: "json \<Rightarrow> answers option" where
  "given_answers decision =
     (case single_object decision of
        None \<Rightarrow> None
      | Some m \<Rightarrow>
          (case map_of m ''answersByPosition'' of
             Some xs \<Rightarrow> map_option ByPosition (as_array xs)
           | None \<Rightarrow> map_option Keyed (Option.bind (map_of m ''answers'') as_object)))"

definition option_labels :: "json \<Rightarrow> string list" where
  "option_labels question =
     (case as_array (jidx question ''options'') of
        Some os \<Rightarrow> List.map_filter (\<lambda>o1. as_str (jidx o1 ''label'')) os
      | None \<Rightarrow> [])"

definition pick_label :: "bool \<Rightarrow> string list \<Rightarrow> json \<Rightarrow> string result" where
  "pick_label by_position labels option =
     (case option of
        JNum n \<Rightarrow> if by_position
          then ok_or not_supported (Option.bind (as_u64 option) (get_at labels)) else refuse
      | JStr s \<Rightarrow> if \<not> by_position \<and> s \<in> set labels then Inr s else refuse
      | _ \<Rightarrow> refuse)"

fun pick_all :: "bool \<Rightarrow> string list \<Rightarrow> json list \<Rightarrow> string list \<Rightarrow> string list result" where
  "pick_all by_position labels [] picked = Inr picked"
| "pick_all by_position labels (o1 # os) picked =
     and_then (pick_label by_position labels o1) (\<lambda>l.
       if l \<in> set picked then refuse else pick_all by_position labels os (picked @ [l]))"

definition is_multi :: "json \<Rightarrow> bool" where
  "is_multi question \<longleftrightarrow> jidx question ''multiSelect'' = JBool True"

definition custom_allowed :: "bool \<Rightarrow> json \<Rightarrow> bool" where
  "custom_allowed always question \<longleftrightarrow>
     always \<or> jidx question ''isOther'' = JBool True \<or> option_labels question = []"

definition custom_answer :: "bool \<Rightarrow> json \<Rightarrow> json \<Rightarrow> string list result" where
  "custom_answer always question v =
     and_then (ok_or not_supported (as_str v)) (\<lambda>t.
       let custom = trim t
       in if \<not> custom_allowed always question \<or> custom = [] \<or> MAX_CUSTOM_ANSWER < char_count custom
          then refuse else Inr [custom])"

definition answer_values ::
  "bool \<Rightarrow> bool \<Rightarrow> json \<Rightarrow> obj \<Rightarrow> string list result" where
  "answer_values by_position always question answer =
     (let labels = option_labels question in
      case map_of answer ''option'' of
        Some option \<Rightarrow> and_then (pick_label by_position labels option) (\<lambda>l. Inr [l])
      | None \<Rightarrow>
      (case map_of answer ''options'' of
         Some os \<Rightarrow>
           and_then (ok_or not_supported (as_array os)) (\<lambda>os.
             if \<not> is_multi question \<or> os = [] then refuse else pick_all by_position labels os [])
       | None \<Rightarrow>
       (case map_of answer ''custom'' of
          Some v \<Rightarrow> custom_answer always question v
        | None \<Rightarrow> refuse)))"

definition answer_at :: "answers \<Rightarrow> nat \<Rightarrow> string \<Rightarrow> json option" where
  "answer_at ans index i =
     (case ans of ByPosition xs \<Rightarrow> get_at xs index | Keyed m \<Rightarrow> map_of m i)"

definition by_position :: "answers \<Rightarrow> bool" where
  "by_position ans \<longleftrightarrow> (case ans of ByPosition _ \<Rightarrow> True | Keyed _ \<Rightarrow> False)"

definition answer_one ::
  "answers \<Rightarrow> string \<Rightarrow> bool \<Rightarrow> nat \<Rightarrow> json \<Rightarrow> (string \<times> string list) result" where
  "answer_one ans key always index question =
     and_then (ok_or not_supported (as_str (jidx question key))) (\<lambda>i.
       and_then (ok_or not_supported (Option.bind (answer_at ans index i) single_object)) (\<lambda>answer.
         and_then (answer_values (by_position ans) always question answer) (\<lambda>vs. Inr (i, vs))))"

fun answer_each ::
  "answers \<Rightarrow> string \<Rightarrow> bool \<Rightarrow> nat \<Rightarrow> json list \<Rightarrow> (string \<times> string list) list result" where
  "answer_each ans key always index [] = Inr []"
| "answer_each ans key always index (q # qs) =
     and_then (answer_one ans key always index q) (\<lambda>a.
       and_then (answer_each ans key always (index + 1) qs) (\<lambda>r. Inr (a # r)))"

definition answers_count :: "answers \<Rightarrow> nat" where
  "answers_count ans = (case ans of ByPosition xs \<Rightarrow> length xs | Keyed m \<Rightarrow> length m)"

definition answers_for ::
  "json list \<Rightarrow> answers \<Rightarrow> string \<Rightarrow> bool \<Rightarrow> (string \<times> string list) list result" where
  "answers_for questions ans key always =
     (if answers_count ans \<noteq> length questions then Inl ''Answer each question exactly once''
      else answer_each ans key always 0 questions)"

section \<open>Replies\<close>

definition empty_object :: json where
  "empty_object = JObj []"

definition deny_reply :: "string \<Rightarrow> json" where
  "deny_reply message = jobj [(''behavior'', JStr ''deny''), (''message'', JStr message)]"

definition allow_reply :: "json \<Rightarrow> json" where
  "allow_reply inp = jobj [(''behavior'', JStr ''allow''), (''updatedInput'', inp)]"

definition original_input :: "json \<Rightarrow> json" where
  "original_input original = unwrap_or empty_object (jget original ''input'')"

text \<open>\<open>AskUserQuestion\<close>: the original input with the answers filled in.\<close>

definition built_answers :: "(string \<times> string list) list \<Rightarrow> obj" where
  "built_answers xs = fold (\<lambda>(q, vs). obj_insert q (JStr (join '', '' vs))) xs []"

definition question_reply :: "json \<Rightarrow> answers \<Rightarrow> json result" where
  "question_reply original ans =
     and_then (ok_or not_supported (as_array (jidx (jidx original ''input'') ''questions''))) (\<lambda>qs.
       and_then (answers_for qs ans ''question'' True) (\<lambda>xs.
         Inr (allow_reply
           (jset ''answers'' (JObj (built_answers xs)) (jidx original ''input'')))))"

definition user_input_reply :: "json \<Rightarrow> json \<Rightarrow> json result" where
  "user_input_reply original decision =
     and_then (ok_or not_supported (given_answers decision)) (\<lambda>ans.
       and_then (ok_or not_supported (as_array (jidx original ''questions''))) (\<lambda>qs.
         and_then (answers_for qs ans ''id'' False) (\<lambda>xs.
           Inr (jobj [(''answers'', JObj (fold (\<lambda>(q, vs).
             obj_insert q (jobj [(''answers'', JArr (map JStr vs))])) xs []))]))))"

definition single_field :: "json \<Rightarrow> string \<Rightarrow> json option" where
  "single_field decision name = Option.bind (single_object decision) (\<lambda>m. map_of m name)"

definition reply_for_decision :: "string \<Rightarrow> json \<Rightarrow> json \<Rightarrow> json result" where
  "reply_for_decision meth original decision =
     (let word = as_str decision in
      if ask_user_question meth original then
        (case (word, given_answers decision) of
           (Some w, _) \<Rightarrow> if w = ''deny'' then Inr (deny_reply ''User declined'') else refuse
         | (None, Some ans) \<Rightarrow> question_reply original ans
         | (None, None) \<Rightarrow> refuse)
      else if meth = ''can_use_tool'' then
        (if word = Some ''allow'' then Inr (allow_reply (original_input original))
         else if word = Some ''deny'' then Inr (deny_reply ''User declined'')
         else refuse)
      else if meth = ''item/tool/requestUserInput'' then user_input_reply original decision
      else if meth = ''session/request_permission'' then
        (case (word, single_field decision ''optionId'') of
           (Some w, _) \<Rightarrow>
             if w = ''cancel'' then Inr (jobj [(''outcome'', jobj [(''outcome'', JStr ''cancelled'')])])
             else refuse
         | (None, Some option) \<Rightarrow>
             if is_string option
             then Inr (jobj [(''outcome'',
                    jobj [(''outcome'', JStr ''selected''), (''optionId'', option)])])
             else refuse
         | (None, None) \<Rightarrow> refuse)
      else if meth = ''item/commandExecution/requestApproval''
              \<or> meth = ''item/fileChange/requestApproval'' then
        (case word of
           Some d \<Rightarrow>
             if d \<in> {''accept'', ''acceptForSession'', ''decline'', ''cancel''}
             then Inr (jobj [(''decision'', JStr d)]) else refuse
         | None \<Rightarrow> refuse)
      else if meth = ''mcpServer/elicitation/request'' then
        (case word of
           Some a \<Rightarrow>
             if a = ''accept'' then Inr (jobj [(''action'', JStr a), (''content'', empty_object)])
             else if a = ''decline'' \<or> a = ''cancel''
             then Inr (jobj [(''action'', JStr a), (''content'', JNull)])
             else refuse
         | None \<Rightarrow> refuse)
      else if meth = ''item/permissions/requestApproval'' then
        (if word = Some ''accept''
         then Inr (jobj [(''permissions'', unwrap_or empty_object (jget original ''permissions'')),
                (''scope'', JStr ''turn'')])
         else refuse)
      else refuse)"

definition only_keys :: "json \<Rightarrow> string list \<Rightarrow> bool" where
  "only_keys v allowed \<longleftrightarrow>
     (case as_object v of Some m \<Rightarrow> list_all (\<lambda>k. k \<in> set allowed) (map fst m) | None \<Rightarrow> False)"

definition legacy_answer :: "json \<Rightarrow> string \<Rightarrow> json" where
  "legacy_answer question v =
     (let labels = option_labels question; parts = split_str '', '' v in
      if v \<in> set labels then jobj [(''option'', JStr v)]
      else if is_multi question \<and> 1 < length parts \<and> set parts \<subseteq> set labels
      then jobj [(''options'', JArr (map JStr parts))]
      else jobj [(''custom'', JStr v)])"

definition without_answers :: "json \<Rightarrow> json" where
  "without_answers v = (case v of JObj m \<Rightarrow> JObj (obj_remove ''answers'' m) | _ \<Rightarrow> v)"

fun legacy_decision :: "obj \<Rightarrow> json list \<Rightarrow> obj \<Rightarrow> obj result" where
  "legacy_decision given [] acc = Inr acc"
| "legacy_decision given (q # qs) acc =
     and_then (ok_or not_supported (as_str (jidx q ''question''))) (\<lambda>text.
       and_then (ok_or not_supported (Option.bind (map_of given text) as_str)) (\<lambda>v.
         legacy_decision given qs (obj_insert text (legacy_answer q v) acc)))"

definition legacy_question :: "json \<Rightarrow> json \<Rightarrow> json \<Rightarrow> json result" where
  "legacy_question original shown echoed =
     (if without_answers echoed \<noteq> without_answers shown then refuse
      else
        and_then (ok_or not_supported (as_array (jidx (jidx original ''input'') ''questions''))) (\<lambda>qs.
          and_then (ok_or not_supported (as_object (jidx echoed ''answers''))) (\<lambda>given.
            and_then (legacy_decision given qs []) (\<lambda>decision.
              if length given \<noteq> length qs then refuse
              else reply_for_decision ''can_use_tool'' original
                     (jobj [(''answers'', JObj decision)])))))"

definition legacy_tool :: "json \<Rightarrow> json \<Rightarrow> json \<Rightarrow> json result" where
  "legacy_tool original sent_projection res =
     (let behavior = as_str (jidx res ''behavior'') in
      if behavior = Some ''deny'' then
        (if \<not> only_keys res [''behavior'', ''message'']
            \<or> (case jget res ''message'' of Some m \<Rightarrow> \<not> is_string m | None \<Rightarrow> False)
         then refuse
         else Inr (deny_reply (take_chars MAX_DENY_MESSAGE
                (unwrap_or ''User declined'' (as_str (jidx res ''message''))))))
      else if behavior = Some ''allow'' \<and> only_keys res [''behavior'', ''updatedInput''] then
        and_then (ok_or not_supported (jget res ''updatedInput'')) (\<lambda>echoed.
          let shown = unwrap_or empty_object (jget sent_projection ''input'')
          in if \<not> ask_user_question ''can_use_tool'' original then
               (if echoed \<noteq> shown then refuse else Inr (allow_reply (original_input original)))
             else legacy_question original shown echoed)
      else refuse)"

definition reply_for_legacy :: "string \<Rightarrow> json \<Rightarrow> json \<Rightarrow> json \<Rightarrow> json result" where
  "reply_for_legacy meth original sent_projection res =
     (if meth = ''can_use_tool'' then legacy_tool original sent_projection res
      else if meth = ''item/permissions/requestApproval'' then
        (if \<not> only_keys res [''permissions'', ''scope'']
            \<or> jget res ''permissions'' \<noteq> Some (unwrap_or empty_object (jget sent_projection ''permissions''))
            \<or> unwrap_or [] (as_str (jidx res ''scope'')) \<notin> {''turn'', ''session''}
         then refuse
         else Inr (jobj [(''permissions'', unwrap_or empty_object (jget original ''permissions'')),
                (''scope'', jidx res ''scope'')]))
      else Inr res)"

section \<open>Declining\<close>

definition options_of :: "json \<Rightarrow> json list" where
  "options_of original = unwrap_or [] (as_array (jidx original ''options''))"

definition automatic_decline :: "string \<Rightarrow> json \<Rightarrow> json option" where
  "automatic_decline meth original =
     (if meth = ''session/request_permission'' then
        Some (case find (\<lambda>o1. jidx o1 ''kind'' = JStr ''reject_once'') (options_of original) of
                Some o1 \<Rightarrow> jobj [(''outcome'',
                  jobj [(''outcome'', JStr ''selected''), (''optionId'', jidx o1 ''optionId'')])]
              | None \<Rightarrow> jobj [(''outcome'', jobj [(''outcome'', JStr ''cancelled'')])])
      else if meth = ''item/commandExecution/requestApproval''
              \<or> meth = ''item/fileChange/requestApproval''
      then Some (jobj [(''decision'', JStr ''decline'')])
      else if meth = ''mcpServer/elicitation/request''
      then Some (jobj [(''action'', JStr ''decline''), (''content'', JNull)])
      else if meth = ''can_use_tool'' \<and> \<not> ask_user_question meth original
      then Some (deny_reply ''The user stopped this request'')
      else None)"

definition is_decline :: "string \<Rightarrow> json \<Rightarrow> json \<Rightarrow> bool" where
  "is_decline meth original res \<longleftrightarrow>
     (if meth = ''can_use_tool'' then jidx res ''behavior'' = JStr ''deny''
      else if meth = ''session/request_permission'' then
        (let outcome = jidx res ''outcome'' in
         jidx outcome ''outcome'' = JStr ''cancelled''
         \<or> (jidx outcome ''outcome'' = JStr ''selected''
            \<and> list_ex (\<lambda>o1. jidx o1 ''optionId'' = jidx outcome ''optionId''
                 \<and> (case as_str (jidx o1 ''kind'') of Some k \<Rightarrow> starts_with k ''reject'' | None \<Rightarrow> False))
                (options_of original)))
      else if meth = ''item/commandExecution/requestApproval''
              \<or> meth = ''item/fileChange/requestApproval''
      then unwrap_or [] (as_str (jidx res ''decision'')) \<in> {''decline'', ''cancel''}
      else if meth = ''mcpServer/elicitation/request''
      then unwrap_or [] (as_str (jidx res ''action'')) \<in> {''decline'', ''cancel''}
      else False)"

section \<open>Answers are the user's, about the original's questions\<close>

text \<open>What an answer to one question may be.\<close>

definition answer_valid :: "string \<Rightarrow> bool \<Rightarrow> json \<Rightarrow> string \<times> string list \<Rightarrow> bool" where
  "answer_valid key always question a \<longleftrightarrow>
     jidx question key = JStr (fst a)
     \<and> ((snd a \<noteq> [] \<and> distinct (snd a) \<and> set (snd a) \<subseteq> set (option_labels question)
           \<and> (1 < length (snd a) \<longrightarrow> is_multi question))
        \<or> (\<exists>c. snd a = [c] \<and> custom_allowed always question \<and> c \<noteq> []
             \<and> char_count c \<le> MAX_CUSTOM_ANSWER))"

lemma pick_label_in: "pick_label p labels v = Inr l \<Longrightarrow> l \<in> set labels"
  by (cases v) (auto simp: pick_label_def bind_eq_Some_conv dest: get_at_Some_set split: if_splits)

lemma pick_all_in:
  assumes "pick_all p labels os picked = Inr ls" "distinct picked" "set picked \<subseteq> set labels"
  shows "distinct ls \<and> set ls \<subseteq> set labels \<and> length picked + length os = length ls"
  using assms
proof (induction p labels os picked rule: pick_all.induct)
  case (1 p labels picked)
  then show ?case by simp
next
  case (2 p labels o1 os picked)
  then obtain l where l: "pick_label p labels o1 = Inr l" "l \<notin> set picked"
    "pick_all p labels os (picked @ [l]) = Inr ls"
    by (auto simp: and_then_Inr_iff split: if_splits)
  then show ?case
    using "2.IH" [of l] "2.prems" pick_label_in [OF l(1)] by simp
qed

lemma answer_values_valid:
  assumes "answer_values p always q m = Inr vs" "jidx q key = JStr i"
  shows "answer_valid key always q (i, vs)"
proof -
  consider (option) v l where "map_of m ''option'' = Some v" "pick_label p (option_labels q) v = Inr l"
      "vs = [l]"
    | (options) os where "is_multi q" "os \<noteq> []" "pick_all p (option_labels q) os [] = Inr vs"
    | (custom) v where "custom_answer always q v = Inr vs"
    using assms(1)
    by (auto simp: answer_values_def Let_def and_then_Inr_iff split: option.splits if_splits)
  then show ?thesis
  proof cases
    case option
    then show ?thesis using assms(2) pick_label_in by (auto simp: answer_valid_def)
  next
    case options
    then show ?thesis using assms(2) pick_all_in [OF options(3)] by (auto simp: answer_valid_def)
  next
    case custom
    then show ?thesis
      using assms(2)
      by (auto simp: answer_valid_def custom_answer_def and_then_Inr_iff Let_def split: if_splits)
  qed
qed

lemma answer_one_valid: "answer_one ans key always n q = Inr a \<Longrightarrow> answer_valid key always q a"
  by (auto simp: answer_one_def and_then_Inr_iff intro: answer_values_valid)

lemma answer_each_valid:
  "answer_each ans key always n qs = Inr xs \<Longrightarrow> list_all2 (answer_valid key always) qs xs"
proof (induction qs arbitrary: n xs)
  case Nil
  then show ?case by simp
next
  case (Cons q qs)
  then show ?case by (auto simp: and_then_Inr_iff dest: answer_one_valid)
qed

lemma answers_for_valid:
  "answers_for qs ans key always = Inr xs \<Longrightarrow> list_all2 (answer_valid key always) qs xs"
  by (auto simp: answers_for_def split: if_splits dest: answer_each_valid)

section \<open>An approval carries the original\<close>

definition is_allow :: "json \<Rightarrow> bool" where
  "is_allow r \<longleftrightarrow> jidx r ''behavior'' = JStr ''allow''"

text \<open>The whole reply: two fields, and as input the original one, for a question with nothing but
  its answers filled in.\<close>

definition carries_original :: "json \<Rightarrow> json \<Rightarrow> bool" where
  "carries_original original r \<longleftrightarrow>
     (if ask_user_question ''can_use_tool'' original
      then \<exists>m qs xs. jidx original ''input'' = JObj m \<and> jidx (JObj m) ''questions'' = JArr qs
             \<and> list_all2 (answer_valid ''question'' True) qs xs
             \<and> r = jobj [(''behavior'', JStr ''allow''),
                 (''updatedInput'', JObj (obj_insert ''answers'' (JObj (built_answers xs)) m))]
      else r = jobj [(''behavior'', JStr ''allow''),
        (''updatedInput'', unwrap_or (JObj []) (jget original ''input''))])"

text \<open>The same but for the field \<open>answers\<close>.\<close>

definition same_but_answers :: "json \<Rightarrow> json \<Rightarrow> bool" where
  "same_but_answers e shown \<longleftrightarrow> e = shown
     \<or> (\<exists>a b. e = JObj a \<and> shown = JObj b \<and> (\<forall>k. k \<noteq> ''answers'' \<longrightarrow> map_of a k = map_of b k))"

lemma without_answers_same: "without_answers e = without_answers shown \<Longrightarrow> same_but_answers e shown"
proof (cases "\<exists>a b. e = JObj a \<and> shown = JObj b")
  case True
  moreover assume "without_answers e = without_answers shown"
  ultimately obtain a b where ab: "e = JObj a" "shown = JObj b"
    "obj_remove ''answers'' a = obj_remove ''answers'' b" by (auto simp: without_answers_def)
  have "map_of (obj_remove ''answers'' m) k = map_of m k" if "k \<noteq> ''answers''" for k m
    using that by (simp add: map_of_obj_remove)
  then show ?thesis using ab unfolding same_but_answers_def by metis
qed (auto simp: without_answers_def same_but_answers_def split: json.splits)

lemma jidx_jobj [simp]: "jidx (jobj kvs) k = unwrap_or JNull (map_of (rev kvs) k)"
  by (simp add: jidx_def)

lemma deny_not_allow [simp]: "\<not> is_allow (deny_reply m)"
  by (simp add: is_allow_def deny_reply_def)

lemma allow_reply_input [simp]: "jidx (allow_reply v) ''updatedInput'' = v"
  by (simp add: allow_reply_def)

lemma question_reply_carries:
  assumes "question_reply original ans = Inr r" "ask_user_question ''can_use_tool'' original"
  shows "carries_original original r"
proof -
  from assms(1) obtain qs xs where q: "jidx (jidx original ''input'') ''questions'' = JArr qs"
    and x: "answers_for qs ans ''question'' True = Inr xs"
    and r: "r = allow_reply (jset ''answers'' (JObj (built_answers xs)) (jidx original ''input''))"
    by (auto simp: question_reply_def and_then_Inr_iff)
  obtain m where m: "jidx original ''input'' = JObj m"
    using q by (cases "jidx original ''input''") (auto simp: jidx_def)
  show ?thesis
    using assms(2) q x m r answers_for_valid [OF x]
    by (auto simp: carries_original_def allow_reply_def simp del: jobj_def)
qed

lemma decision_carries:
  assumes "reply_for_decision ''can_use_tool'' original d = Inr r" "is_allow r"
  shows "carries_original original r"
proof (cases "ask_user_question ''can_use_tool'' original")
  case True
  then show ?thesis
    using assms question_reply_carries
    by (auto simp: reply_for_decision_def Let_def split: option.splits if_splits)
next
  case False
  then show ?thesis
    using assms by (auto simp: reply_for_decision_def Let_def carries_original_def allow_reply_def
        original_input_def empty_object_def simp del: jobj_def split: if_splits)
qed

lemma legacy_carries:
  assumes "legacy_tool original proj res = Inr r" "is_allow r"
  shows "carries_original original r
    \<and> (\<exists>m e. res = JObj m \<and> fst ` set m \<subseteq> {''behavior'', ''updatedInput''}
        \<and> map_of m ''updatedInput'' = Some e
        \<and> (if ask_user_question ''can_use_tool'' original
           then same_but_answers e (unwrap_or (JObj []) (jget proj ''input''))
           else e = unwrap_or (JObj []) (jget proj ''input'')))"
proof -
  from assms obtain e where e: "jget res ''updatedInput'' = Some e"
    and keys: "only_keys res [''behavior'', ''updatedInput'']"
    and c: "(if \<not> ask_user_question ''can_use_tool'' original then
               (if e \<noteq> unwrap_or empty_object (jget proj ''input'') then refuse
                else Inr (allow_reply (original_input original)))
             else legacy_question original (unwrap_or empty_object (jget proj ''input'')) e) = Inr r"
    by (auto simp: legacy_tool_def Let_def and_then_Inr_iff split: if_split_asm)
  obtain m where m: "res = JObj m" "fst ` set m \<subseteq> {''behavior'', ''updatedInput''}"
    using keys by (cases res) (auto simp: only_keys_def list_all_iff)
  have u: "map_of m ''updatedInput'' = Some e" using e m(1) by simp
  show ?thesis
  proof (cases "ask_user_question ''can_use_tool'' original")
    case True
    with c obtain d where "without_answers e = without_answers (unwrap_or empty_object (jget proj ''input''))"
      "reply_for_decision ''can_use_tool'' original d = Inr r"
      by (auto simp: legacy_question_def and_then_Inr_iff split: if_split_asm)
    then show ?thesis
      using decision_carries assms(2) u m True without_answers_same by (auto simp: empty_object_def)
  next
    case False
    then show ?thesis
      using c u m by (auto simp: carries_original_def allow_reply_def original_input_def empty_object_def
          split: if_split_asm)
  qed
qed

text \<open>
  C10: Whoever approves a tool call, and however, the backend gets back exactly the two-
  field reply with the input it asked about: for every tool but a question the original,
  unredacted input unchanged, and for a question the original input with only its answers
  filled in, each a distinct choice among that question's own labels or a bounded free text.
  An older panel that echoes the input must echo exactly the redacted input it was shown
  (for a question, exact up to the field answers) and may send no further field, so what it
  edits never reaches the backend.
\<close>
theorem approval_carries_original:
  assumes "reply_for_decision ''can_use_tool'' original decision = Inr r
    \<or> reply_for_legacy ''can_use_tool'' original projection echo = Inr r"
    and "is_allow r"
  shows "carries_original original r
    \<and> (reply_for_legacy ''can_use_tool'' original projection echo = Inr r \<longrightarrow>
        (\<exists>m e. echo = JObj m \<and> fst ` set m \<subseteq> {''behavior'', ''updatedInput''}
          \<and> map_of m ''updatedInput'' = Some e
          \<and> (if ask_user_question ''can_use_tool'' original
             then same_but_answers e (unwrap_or (JObj []) (jget projection ''input''))
             else e = unwrap_or (JObj []) (jget projection ''input''))))"
proof -
  have l: "reply_for_legacy ''can_use_tool'' original projection echo = legacy_tool original projection echo"
    by (simp add: reply_for_legacy_def)
  show ?thesis
    using assms decision_carries legacy_carries unfolding l by blast
qed

definition example_original :: json where
  "example_original = jobj [(''tool_name'', JStr ''Bash''),
     (''input'', jobj [(''command'', JStr ''curl -H token:s3cret'')])]"

definition example_redacted :: json where
  "example_redacted = jobj [(''input'', jobj [(''command'', JStr ''curl -H [redacted]'')])]"

lemma approval_carries_original_witness:
  "carries_original example_original
     (allow_reply (jobj [(''command'', JStr ''curl -H token:s3cret'')]))"
proof -
  have "reply_for_legacy ''can_use_tool'' example_original example_redacted
      (jobj [(''behavior'', JStr ''allow''),
         (''updatedInput'', jobj [(''command'', JStr ''curl -H [redacted]'')])])
    = Inr (allow_reply (jobj [(''command'', JStr ''curl -H token:s3cret'')]))"
    by code_simp
  moreover have "is_allow (allow_reply v)" for v
    by (simp add: is_allow_def allow_reply_def)
  ultimately show ?thesis using approval_carries_original by blast
qed

section \<open>Automatic declines\<close>

lemma automatic_decline_is_decline:
  assumes "automatic_decline meth original = Some r"
  shows "is_decline meth original r \<and> \<not> is_allow r"
proof (cases "meth = ''session/request_permission''")
  case True
  let ?find = "find (\<lambda>o1. jidx o1 ''kind'' = JStr ''reject_once'') (options_of original)"
  show ?thesis
  proof (cases ?find)
    case None
    then show ?thesis
      using assms True by (auto simp: automatic_decline_def is_decline_def is_allow_def Let_def)
  next
    case (Some o1)
    then have o1: "o1 \<in> set (options_of original)" "jidx o1 ''kind'' = JStr ''reject_once''"
      using find_SomeD by fastforce+
    have "list_ex (\<lambda>o2. jidx o2 ''optionId'' = jidx o1 ''optionId''
        \<and> (case as_str (jidx o2 ''kind'') of Some k \<Rightarrow> starts_with k ''reject'' | None \<Rightarrow> False))
        (options_of original)"
      using o1 by (auto simp: list_ex_iff starts_with_def intro!: bexI [of _ o1])
    then show ?thesis
      using assms True Some by (auto simp: automatic_decline_def is_decline_def is_allow_def Let_def)
  qed
next
  case False
  then consider (item) "meth = ''item/commandExecution/requestApproval''
        \<or> meth = ''item/fileChange/requestApproval''" "r = jobj [(''decision'', JStr ''decline'')]"
    | (elicit) "meth = ''mcpServer/elicitation/request''"
        "r = jobj [(''action'', JStr ''decline''), (''content'', JNull)]"
    | (tool) "meth = ''can_use_tool''" "r = deny_reply ''The user stopped this request''"
    using assms by (auto simp: automatic_decline_def simp del: jobj_def split: if_split_asm)
  then show ?thesis
  proof cases
    case item
    then show ?thesis by (elim disjE) (simp_all add: is_decline_def is_allow_def)
  next
    case elicit
    then show ?thesis by (simp add: is_decline_def is_allow_def)
  next
    case tool
    have "jidx (deny_reply v) ''behavior'' = JStr ''deny''" for v by (simp add: deny_reply_def)
    then show ?thesis using tool by (simp add: is_decline_def)
  qed
qed

text \<open>
  C34: While a full-access turn is being stopped every request that can be declined is
  declined: an automatic answer exists exactly for the permission, command, file-change and
  elicitation requests and for every tool call that is not a question, and whenever there is
  one it is a reply that the stop accepts as a decline of that request (for a permission
  request, a rejecting option or a cancellation) and not an approval. Only questions and the
  methods without a decline form get none.
\<close>
theorem automatic_decline_declines:
  "(automatic_decline meth original = None \<longleftrightarrow>
      meth \<notin> {''session/request_permission'', ''item/commandExecution/requestApproval'',
        ''item/fileChange/requestApproval'', ''mcpServer/elicitation/request'', ''can_use_tool''}
      \<or> (meth = ''can_use_tool'' \<and> jidx original ''tool_name'' = JStr ''AskUserQuestion''))
    \<and> (\<forall>r. automatic_decline meth original = Some r \<longrightarrow>
      is_decline meth original r \<and> \<not> is_allow r)"
  using automatic_decline_is_decline
  by (auto simp: automatic_decline_def ask_user_question_def simp del: jobj_def)

lemma automatic_decline_declines_witness:
  "is_decline ''can_use_tool'' example_original (deny_reply ''The user stopped this request'')"
proof -
  have "automatic_decline ''can_use_tool'' example_original
      = Some (deny_reply ''The user stopped this request'')"
    by code_simp
  then show ?thesis using automatic_decline_declines by blast
qed

end
