(* ===== verification/GatewayLimits.thy ===== *)
theory GatewayLimits
  imports Prelude
begin

text \<open>
  What the phone gateway (\<open>mobile/gateway.rs\<close>) keeps about clients that have not
  authenticated: failed handshakes per source and per claimed device with their backoff, and
  the few connection slots of a source. An instant is a number of milliseconds of one clock.
  The hash maps are association lists with one entry per key.
\<close>


section \<open>Sources\<close>

datatype ip_addr = IpV4 "32 word" | IpV6 "128 word"

text \<open>\<open>::ffff:a.b.c.d\<close>, as the standard library reads it.\<close>

definition to_ipv4_mapped :: "128 word \<Rightarrow> 32 word option" where
  "to_ipv4_mapped v = (if drop_bit 32 v = 0xffff then Some (ucast v) else None)"

definition source_key :: "ip_addr \<Rightarrow> ip_addr" where
  "source_key ip =
     (case ip of
        IpV4 _ \<Rightarrow> ip
      | IpV6 v \<Rightarrow>
          (case to_ipv4_mapped v of
             Some v4 \<Rightarrow> IpV4 v4
           | None \<Rightarrow> IpV6 (push_bit 64 (drop_bit 64 v))))"

text \<open>
  Which addresses are one source, in terms of their numbers: an IPv4 address itself, the
  IPv4 address in an IPv4-mapped IPv6 address, otherwise the upper 64 bits of the IPv6
  address, its /64 network.
\<close>

definition source_of :: "ip_addr \<Rightarrow> nat + nat" where
  "source_of ip =
     (case ip of
        IpV4 v \<Rightarrow> Inl (unat v)
      | IpV6 v \<Rightarrow> if unat v div 2 ^ 32 = 0xffff then Inl (unat v mod 2 ^ 32)
                  else Inr (unat v div 2 ^ 64))"

lemma unat_drop: "unat (drop_bit n v) = unat v div 2 ^ n" for v :: "128 word"
  by (simp only: unat_drop_bit_eq) (simp only: drop_bit_eq_div)

lemma mapped_iff: "drop_bit 32 v = 0xffff \<longleftrightarrow> unat v div 2 ^ 32 = 0xffff" for v :: "128 word"
proof -
  have "unat (0xffff :: 128 word) = 0xffff" by simp
  then show ?thesis unfolding word_unat_eq_iff unat_drop by simp
qed

lemma low_bits: "unat (ucast v :: 32 word) = unat v mod 2 ^ 32" for v :: "128 word"
  by (simp add: unsigned_ucast_eq take_bit_eq_mod)

lemma network_bits: "unat (push_bit 64 (drop_bit 64 v)) = unat v div 2 ^ 64 * 2 ^ 64" for v :: "128 word"
proof -
  have "unat v < 2 ^ 128" using unsigned_less [of v] by simp
  then have "unat v div 2 ^ 64 * 2 ^ 64 < 2 ^ 128" by simp
  then show ?thesis
    unfolding unsigned_push_bit_eq
    by (simp only: push_bit_eq_mult unat_drop len_bit0 len_num1 take_bit_nat_eq_self mult_1_right numeral_times_numeral) (simp add: take_bit_nat_eq_self)
qed

definition key_of :: "nat + nat \<Rightarrow> ip_addr" where
  "key_of x = (case x of Inl n \<Rightarrow> IpV4 (of_nat n) | Inr n \<Rightarrow> IpV6 (of_nat (n * 2 ^ 64)))"

lemma source_key_of: "source_key ip = key_of (source_of ip)"
proof -
  have "ucast v = (of_nat (unat v mod 2 ^ 32) :: 32 word)" for v :: "128 word"
    by (metis low_bits of_nat_unat ucast_id)
  moreover have "push_bit 64 (drop_bit 64 v) = (of_nat (unat v div 2 ^ 64 * 2 ^ 64) :: 128 word)"
    for v :: "128 word"
    by (metis network_bits of_nat_unat ucast_id)
  ultimately show ?thesis
    by (simp add: source_key_def source_of_def key_of_def to_ipv4_mapped_def mapped_iff
        split: ip_addr.split del: push_bit_of_nat of_nat_mult of_nat_mod)
qed

lemma source_key_eq: "source_key a = source_key b \<longleftrightarrow> source_of a = source_of b"
proof
  have eq: "v = w \<Longrightarrow> unat v = unat w" for v w :: "'a::len word" by simp
  assume s: "source_key a = source_key b"
  show "source_of a = source_of b"
  proof (cases a; cases b)
    fix v w assume ab: "a = IpV6 v" "b = IpV6 w"
    show ?thesis
    using s 
    by (auto simp: ab source_key_def source_of_def to_ipv4_mapped_def mapped_iff
        dest!: eq simp: low_bits network_bits split: if_splits)
  qed (use s in \<open>auto simp: source_key_def source_of_def to_ipv4_mapped_def mapped_iff low_bits dest!: eq split: if_splits\<close>)
qed (simp add: source_key_of)

definition is_loopback :: "ip_addr \<Rightarrow> bool" where
  "is_loopback ip =
     (case ip of
        IpV4 v \<Rightarrow> drop_bit 24 v = 127
      | IpV6 v \<Rightarrow> v = 1
          \<or> (case to_ipv4_mapped v of Some v4 \<Rightarrow> drop_bit 24 v4 = 127 | None \<Rightarrow> False))"

section \<open>The limiter\<close>

definition FREE_FAILURES :: nat where "FREE_FAILURES = 3"
definition MAX_BACKOFF :: nat where "MAX_BACKOFF = 300 * 1000"
definition LIMITER_ENTRIES :: nat where "LIMITER_ENTRIES = 4096"
definition U32_MAX :: nat where "U32_MAX = 2 ^ 32 - 1"

record strike_rec =
  k_count :: nat
  k_until :: "nat option"
  k_touched :: nat

type_synonym 'k strikes = "('k \<times> strike_rec) list"

record limiter =
  lim_sources :: "ip_addr strikes"
  lim_devices :: "(ip_addr \<times> string) strikes"

definition waits :: "'k strikes \<Rightarrow> 'k \<Rightarrow> nat \<Rightarrow> bool" where
  "waits m key now = (case Option.bind (map_of m key) k_until of Some u \<Rightarrow> now < u | None \<Rightarrow> False)"

text \<open>How long the failure that makes \<open>count\<close> holds the key back.\<close>

definition backoff :: "nat \<Rightarrow> nat" where
  "backoff count = min (2 ^ min (count - FREE_FAILURES) 16 * 1000) MAX_BACKOFF"

definition make_room :: "'k \<Rightarrow> 'k strikes \<Rightarrow> 'k strikes" where
  "make_room key m =
     (if map_of m key = None \<and> LIMITER_ENTRIES \<le> length m \<and> m \<noteq> []
      then AList.delete (fst (arg_min_list (k_touched \<circ> snd) m)) m
      else m)"

definition struck :: "nat \<Rightarrow> strike_rec \<Rightarrow> strike_rec" where
  "struck now s =
     (let count = min U32_MAX (k_count s + 1)
      in s\<lparr>k_count := count,
           k_touched := now,
           k_until := (if FREE_FAILURES \<le> count then Some (now + backoff count) else k_until s)\<rparr>)"

definition strike :: "'k \<Rightarrow> nat \<Rightarrow> 'k strikes \<Rightarrow> 'k strikes" where
  "strike key now m0 =
     (let m = make_room key m0;
          s = unwrap_or \<lparr> k_count = 0, k_until = None, k_touched = now \<rparr> (map_of m key)
      in AList.update key (struck now s) m)"

definition source_blocked :: "limiter \<Rightarrow> ip_addr \<Rightarrow> nat \<Rightarrow> bool" where
  "source_blocked l ip now = waits (lim_sources l) (source_key ip) now"

definition device_blocked :: "limiter \<Rightarrow> ip_addr \<Rightarrow> string \<Rightarrow> nat \<Rightarrow> bool" where
  "device_blocked l ip i now = waits (lim_devices l) (source_key ip, i) now"

definition limiter_fail :: "ip_addr \<Rightarrow> string option \<Rightarrow> nat \<Rightarrow> limiter \<Rightarrow> limiter" where
  "limiter_fail ip device now l =
     (let k = source_key ip; l1 = l\<lparr>lim_sources := strike k now (lim_sources l)\<rparr>
      in case device of
           None \<Rightarrow> l1
         | Some i \<Rightarrow> l1\<lparr>lim_devices := strike (k, i) now (lim_devices l1)\<rparr>)"

definition limiter_succeed :: "ip_addr \<Rightarrow> string \<Rightarrow> limiter \<Rightarrow> limiter" where
  "limiter_succeed ip i l =
     (let k = source_key ip
      in l\<lparr>lim_sources := AList.delete k (lim_sources l),
           lim_devices := AList.delete (k, i) (lim_devices l)\<rparr>)"

section \<open>Slots of unauthenticated connections\<close>

definition MAX_PRE_AUTH_PER_SOURCE :: nat where "MAX_PRE_AUTH_PER_SOURCE = 4"

type_synonym slots = "(ip_addr \<times> nat) list"

text \<open>\<open>Some key\<close> is the guard that holds the slot until it is dropped.\<close>

definition pre_auth :: "ip_addr \<Rightarrow> slots \<Rightarrow> ip_addr option \<times> slots" where
  "pre_auth ip sl =
     (let k = source_key ip; c = unwrap_or 0 (map_of sl k)
      in if MAX_PRE_AUTH_PER_SOURCE \<le> c then (None, AList.update k c sl)
         else (Some k, AList.update k (c + 1) sl))"

definition pre_auth_drop :: "ip_addr \<Rightarrow> slots \<Rightarrow> slots" where
  "pre_auth_drop k sl =
     (case map_of sl k of
        None \<Rightarrow> sl
      | Some c \<Rightarrow> if c - 1 = 0 then AList.delete k sl else AList.update k (c - 1) sl)"

section \<open>The limiter is the history of failures\<close>

text \<open>
  What happened to one table: a failure of a key at an instant, or its success. The reference
  remembers, for each key, the instants of its failures since its last success.
\<close>

datatype 'k event = Hit 'k nat | Clear 'k

definition failures :: "'k \<Rightarrow> 'k event list \<Rightarrow> nat list" where
  "failures k es = fold (\<lambda>e ts. case e of Hit k' t \<Rightarrow> if k' = k then ts @ [t] else ts
                                       | Clear k' \<Rightarrow> if k' = k then [] else ts) es []"

text \<open>Three failures or more, and less than 1 s, 2 s, 4 s and so on up to 300 s since the last.\<close>

definition held_back :: "nat list \<Rightarrow> nat \<Rightarrow> bool" where
  "held_back ts now \<longleftrightarrow>
     3 \<le> length ts \<and> now < last ts + 1000 * min 300 (2 ^ (length ts - 3))"

lemma backoff_spec: "backoff n = 1000 * min 300 (2 ^ (n - 3))"
proof (cases "n - 3 \<le> 9")
  case True
  define d where "d = n - 3"
  have "d \<le> 9" using True by (simp add: d_def)
  then have "d = 0 \<or> d = 1 \<or> d = 2 \<or> d = 3 \<or> d = 4 \<or> d = 5 \<or> d = 6 \<or> d = 7 \<or> d = 8 \<or> d = 9"
    by presburger
  moreover have "backoff n = min (2 ^ min d 16 * 1000) (300 * 1000)"
    by (simp add: backoff_def FREE_FAILURES_def MAX_BACKOFF_def d_def)
  ultimately show ?thesis
    unfolding d_def [symmetric] by (elim disjE) simp_all
next
  case False
  then have "(2 :: nat) ^ 9 \<le> 2 ^ (n - 3)" "(2 :: nat) ^ 9 \<le> 2 ^ min (n - 3) 16"
    by (intro power_increasing; simp)+
  then show ?thesis by (simp add: backoff_def FREE_FAILURES_def MAX_BACKOFF_def)
qed

lemma held_back_iff:
  "held_back ts now \<longleftrightarrow> FREE_FAILURES \<le> length ts \<and> now < last ts + backoff (length ts)"
  by (simp add: held_back_def backoff_spec FREE_FAILURES_def)

fun apply_event :: "'k event \<Rightarrow> 'k strikes \<Rightarrow> 'k strikes" where
  "apply_event (Hit k t) m = strike k t m"
| "apply_event (Clear k) m = AList.delete k m"

fun event_key :: "'k event \<Rightarrow> 'k" where
  "event_key (Hit k t) = k"
| "event_key (Clear k) = k"

definition record_of :: "nat list \<Rightarrow> strike_rec" where
  "record_of ts = \<lparr> k_count = min U32_MAX (length ts),
     k_until = (if FREE_FAILURES \<le> length ts then Some (last ts + backoff (length ts)) else None),
     k_touched = last ts \<rparr>"

definition reflects :: "'k strikes \<Rightarrow> ('k \<Rightarrow> nat list) \<Rightarrow> bool" where
  "reflects m h \<longleftrightarrow> distinct (map fst m)
     \<and> (\<forall>k. map_of m k = (if h k = [] then None else Some (record_of (h k))))"

lemma failures_snoc:
  "failures k (es @ [e]) = (case e of Hit k' t \<Rightarrow> if k' = k then failures k es @ [t] else failures k es
     | Clear k' \<Rightarrow> if k' = k then [] else failures k es)"
  unfolding failures_def fold_append by simp

lemma failures_Nil [simp]: "failures k [] = []"
  by (simp add: failures_def)

lemma failures_key: "failures k es \<noteq> [] \<Longrightarrow> k \<in> event_key ` set es"
proof (induction es rule: rev_induct)
  case (snoc e es)
  then show ?case by (cases e) (auto simp: failures_snoc split: if_splits)
qed simp

lemma backoff_saturated: "backoff (min U32_MAX n) = backoff n"
proof (cases "n \<le> U32_MAX")
  case True
  then show ?thesis by simp
next
  case False
  then have "min (n - FREE_FAILURES) 16 = 16" "min (U32_MAX - FREE_FAILURES) 16 = 16"
    by (simp_all add: U32_MAX_def FREE_FAILURES_def)
  with False show ?thesis by (simp add: backoff_def min_def)
qed

lemma struck_record: "struck t (record_of ts) = record_of (ts @ [t])"
proof -
  have c: "min U32_MAX (k_count (record_of ts) + 1) = min U32_MAX (length ts + 1)"
    by (simp add: record_of_def)
  have f: "FREE_FAILURES \<le> min U32_MAX n \<longleftrightarrow> FREE_FAILURES \<le> n" for n
    by (simp add: FREE_FAILURES_def U32_MAX_def)
  show ?thesis
    unfolding struck_def Let_def c backoff_saturated f by (auto simp: record_of_def)
qed

lemma struck_fresh: "struck t \<lparr> k_count = 0, k_until = None, k_touched = t' \<rparr> = record_of [t]"
  by (simp add: struck_def record_of_def FREE_FAILURES_def U32_MAX_def)

lemma reflects_dom:
  assumes "reflects m h"
  shows "fst ` set m = {k. h k \<noteq> []}"
proof -
  have "map_of m k = None \<longleftrightarrow> h k = []" for k using assms by (simp add: reflects_def)
  then show ?thesis unfolding map_of_eq_None_iff by blast
qed

lemma reflects_length:
  assumes "reflects m h"
  shows "length m = card {k. h k \<noteq> []}"
proof -
  have "distinct (map fst m)" using assms by (simp add: reflects_def)
  from distinct_card [OF this] show ?thesis by (simp add: reflects_dom [OF assms])
qed

lemma make_room_id: "length m < LIMITER_ENTRIES \<or> map_of m k \<noteq> None \<Longrightarrow> make_room k m = m"
  by (auto simp: make_room_def)

lemma strike_reflects:
  assumes r: "reflects m h" and room: "length m < LIMITER_ENTRIES \<or> h k \<noteq> []"
  shows "reflects (strike k t m) (h(k := h k @ [t]))"
proof -
  have m: "make_room k m = m"
    using r room by (intro make_room_id) (auto simp: reflects_def)
  have "strike k t m = AList.update k (record_of (h k @ [t])) m"
  proof (cases "h k = []")
    case True
    then have "map_of m k = None" using r by (simp add: reflects_def)
    then show ?thesis using True by (simp add: strike_def m struck_fresh)
  next
    case False
    then have "map_of m k = Some (record_of (h k))" using r by (simp add: reflects_def)
    then show ?thesis by (simp add: strike_def m struck_record)
  qed
  then show ?thesis
    using r by (auto simp: reflects_def update_conv' distinct_update)
qed

lemma clear_reflects: "reflects m h \<Longrightarrow> reflects (AList.delete k m) (h(k := []))"
  by (auto simp: reflects_def delete_conv' distinct_delete)

lemma failures_keys: "{k. failures k es \<noteq> []} \<subseteq> event_key ` set es"
  by (intro subsetI, elim CollectE, erule failures_key)

lemma table_has_room:
  assumes "reflects m (\<lambda>k. failures k es)"
    and card: "card (event_key ` set (es @ [e])) \<le> LIMITER_ENTRIES"
  shows "length m < LIMITER_ENTRIES \<or> failures (event_key e) es \<noteq> []"
proof (cases "failures (event_key e) es = []")
  case True
  let ?D = "{k. failures k es \<noteq> []}"
  have fin: "finite ?D" using failures_keys by (rule finite_subset) simp
  have sub: "insert (event_key e) ?D \<subseteq> event_key ` set (es @ [e])"
    using failures_keys [of es] by (simp add: subset_insertI2)
  then have "card (insert (event_key e) ?D) \<le> LIMITER_ENTRIES"
    using card card_mono [OF _ sub] by simp
  moreover have "event_key e \<notin> ?D" using True by simp
  ultimately have "card ?D < LIMITER_ENTRIES" using fin by simp
  then show ?thesis using reflects_length [OF assms(1)] by simp
qed simp

lemma failures_after:
  "(\<lambda>k'. failures k' (es @ [Hit k t])) = (\<lambda>k'. failures k' es)(k := failures k es @ [t])"
  "(\<lambda>k'. failures k' (es @ [Clear k])) = (\<lambda>k'. failures k' es)(k := [])"
  by (simp_all add: failures_snoc fun_eq_iff)

lemma events_reflect:
  "card (event_key ` set es) \<le> LIMITER_ENTRIES \<Longrightarrow>
     reflects (fold apply_event es []) (\<lambda>k. failures k es)"
proof (induction es rule: rev_induct)
  case Nil
  then show ?case by (simp add: reflects_def)
next
  case (snoc e es)
  have "card (event_key ` set es) \<le> card (event_key ` set (es @ [e]))"
    by (rule card_mono) auto
  then have r: "reflects (fold apply_event es []) (\<lambda>k. failures k es)"
    using snoc.IH snoc.prems by simp
  show ?case
  proof (cases e)
    case (Hit k t)
    then show ?thesis
      using strike_reflects [OF r, of k t] table_has_room [OF r snoc.prems]
      by (simp add: failures_after)
  next
    case (Clear k)
    then show ?thesis
      using clear_reflects [OF r, of k] by (simp add: failures_after)
  qed
qed

lemma waits_iff:
  assumes "reflects m h"
  shows "waits m k now \<longleftrightarrow> held_back (h k) now"
proof (cases "h k = []")
  case True
  then have "map_of m k = None" using assms by (simp add: reflects_def)
  then show ?thesis using True by (simp add: waits_def held_back_iff FREE_FAILURES_def)
next
  case False
  then have "map_of m k = Some (record_of (h k))" using assms by (simp add: reflects_def)
  then show ?thesis by (simp add: waits_def held_back_iff record_of_def)
qed

text \<open>
  The table never grows past its bound, whatever happens: a new key of a full table takes the
  place of the key that was touched longest ago.
\<close>

lemma make_room_length:
  "length m \<le> LIMITER_ENTRIES \<Longrightarrow> map_of m k = None \<Longrightarrow> distinct (map fst m) \<Longrightarrow>
     length (make_room k m) < LIMITER_ENTRIES"
proof (cases "LIMITER_ENTRIES \<le> length m")
  case True
  assume a: "length m \<le> LIMITER_ENTRIES" "map_of m k = None" "distinct (map fst m)"
  have ne: "m \<noteq> []" using True by (auto simp: LIMITER_ENTRIES_def)
  let ?x = "arg_min_list (k_touched \<circ> snd) m"
  have "?x \<in> set m" using ne by (rule arg_min_list_in)
  then have "length (AList.delete (fst ?x) m) < length m"
    unfolding AList.delete_eq by (intro length_filter_less [of ?x]) auto
  then show ?thesis using True a ne by (simp add: make_room_def)
qed (simp add: make_room_def)

lemma make_room_distinct: "distinct (map fst m) \<Longrightarrow> distinct (map fst (make_room k m))"
  by (simp add: make_room_def distinct_delete)

lemma make_room_map_of:
  "map_of m k = None \<Longrightarrow> map_of (make_room k m) k = None"
  by (simp add: make_room_def delete_conv')

lemma length_update_le:
  "length (AList.update k v m) = (if map_of m k = None then Suc (length m) else length m)"
  by (induction m) auto

lemma strike_bounded:
  assumes "length m \<le> LIMITER_ENTRIES" "distinct (map fst m)"
  shows "length (strike k t m) \<le> LIMITER_ENTRIES \<and> distinct (map fst (strike k t m))"
proof (cases "map_of m k")
  case None
  then show ?thesis
    using make_room_length [OF assms(1) None assms(2)] make_room_distinct [OF assms(2)]
      make_room_map_of [OF None]
    by (simp add: strike_def Let_def length_update_le distinct_update)
next
  case (Some s)
  then show ?thesis
    using assms make_room_id [of m k]
    by (simp add: strike_def Let_def length_update_le distinct_update)
qed

lemma delete_bounded:
  "length m \<le> n \<Longrightarrow> length (AList.delete k m) \<le> n"
  unfolding AList.delete_eq by (rule order_trans [OF length_filter_le])

lemma table_bounded:
  "length (fold apply_event es []) \<le> LIMITER_ENTRIES \<and> distinct (map fst (fold apply_event es []))"
proof (induction es rule: rev_induct)
  case (snoc e es)
  then show ?case by (cases e) (auto simp: strike_bounded delete_bounded distinct_delete)
qed simp

section \<open>The limiter\<close>

datatype lim_op = Fail ip_addr "string option" nat | Succeed ip_addr string

fun apply_lim :: "lim_op \<Rightarrow> limiter \<Rightarrow> limiter" where
  "apply_lim (Fail ip device now) l = limiter_fail ip device now l"
| "apply_lim (Succeed ip device) l = limiter_succeed ip device l"

fun source_event :: "lim_op \<Rightarrow> ip_addr event" where
  "source_event (Fail ip device now) = Hit (source_key ip) now"
| "source_event (Succeed ip device) = Clear (source_key ip)"

fun device_events :: "lim_op \<Rightarrow> (ip_addr \<times> string) event list" where
  "device_events (Fail ip None now) = []"
| "device_events (Fail ip (Some i) now) = [Hit (source_key ip, i) now]"
| "device_events (Succeed ip i) = [Clear (source_key ip, i)]"

definition empty_limiter :: limiter where
  "empty_limiter = \<lparr> lim_sources = [], lim_devices = [] \<rparr>"

lemma limiter_tables:
  "lim_sources (fold apply_lim ops empty_limiter) = fold apply_event (map source_event ops) []
   \<and> lim_devices (fold apply_lim ops empty_limiter)
       = fold apply_event (concat (map device_events ops)) []"
proof (induction ops rule: rev_induct)
  case Nil
  then show ?case by (simp add: empty_limiter_def)
next
  case (snoc a ops)
  show ?case
  proof (cases a)
    case (Fail ip device now)
    with snoc show ?thesis by (cases device) (simp_all add: limiter_fail_def Let_def)
  next
    case (Succeed ip i)
    with snoc show ?thesis by (simp add: limiter_succeed_def Let_def)
  qed
qed

text \<open>What the operations mean for the sources and for the devices claimed from a source.\<close>

definition source_events :: "lim_op list \<Rightarrow> (nat + nat) event list" where
  "source_events ops = map (\<lambda>a. case a of
     Fail ip device t \<Rightarrow> Hit (source_of ip) t | Succeed ip i \<Rightarrow> Clear (source_of ip)) ops"

definition claim_events :: "lim_op list \<Rightarrow> ((nat + nat) \<times> string) event list" where
  "claim_events ops = concat (map (\<lambda>a. case a of
     Fail ip None t \<Rightarrow> []
   | Fail ip (Some i) t \<Rightarrow> [Hit (source_of ip, i) t]
   | Succeed ip i \<Rightarrow> [Clear (source_of ip, i)]) ops)"

abbreviation claim_key :: "(nat + nat) \<times> string \<Rightarrow> ip_addr \<times> string" where
  "claim_key \<equiv> map_prod key_of id"

lemma source_events_map: "map source_event ops = map (map_event key_of) (source_events ops)"
  by (induction ops) (auto simp: source_events_def source_key_of split: lim_op.split)

lemma claim_events_map: "concat (map device_events ops) = map (map_event claim_key) (claim_events ops)"
proof -
  have "device_events a = map (map_event claim_key) (case a of Fail ip None t \<Rightarrow> []
      | Fail ip (Some i) t \<Rightarrow> [Hit (source_of ip, i) t] | Succeed ip i \<Rightarrow> [Clear (source_of ip, i)])" for a
    by (cases a rule: device_events.cases) (simp_all add: source_key_of)
  then have "map device_events ops = map (map (map_event claim_key) \<circ> (\<lambda>a. case a of Fail ip None t \<Rightarrow> []
      | Fail ip (Some i) t \<Rightarrow> [Hit (source_of ip, i) t] | Succeed ip i \<Rightarrow> [Clear (source_of ip, i)])) ops"
    by simp
  then show ?thesis by (simp only: claim_events_def map_concat map_map)
qed

lemma failures_map:
  assumes "\<And>e. e \<in> set es \<Longrightarrow> f (event_key e) = f k \<Longrightarrow> event_key e = k"
  shows "failures (f k) (map (map_event f) es) = failures k es"
  using assms
proof (induction es rule: rev_induct)
  case (snoc e es)
  then have "failures (f k) (map (map_event f) es) = failures k es"
    "f (event_key e) = f k \<Longrightarrow> event_key e = k" by auto
  then show ?case by (cases e) (auto simp: failures_snoc)
qed simp

lemma event_keys_map: "event_key ` set (map (map_event f) es) = f ` event_key ` set es"
proof -
  have "event_key (map_event f e) = f (event_key e)" for e by (cases e) simp_all
  then show ?thesis by (force simp: image_iff)
qed

lemma key_of_source: "key_of (source_of a) = key_of (source_of b) \<longleftrightarrow> source_of a = source_of b"
  using source_key_eq by (simp add: source_key_of)

lemma source_events_key: "e \<in> set (source_events ops) \<Longrightarrow> \<exists>a. event_key e = source_of a"
  by (auto simp: source_events_def split: lim_op.splits)

lemma claim_events_key: "e \<in> set (claim_events ops) \<Longrightarrow> \<exists>a i. event_key e = (source_of a, i)"
proof -
  assume "e \<in> set (claim_events ops)"
  then obtain a where "e \<in> set (case a of Fail ip None t \<Rightarrow> []
      | Fail ip (Some i) t \<Rightarrow> [Hit (source_of ip, i) t] | Succeed ip i \<Rightarrow> [Clear (source_of ip, i)])"
    by (auto simp: claim_events_def)
  then show ?thesis by (cases a rule: device_events.cases) auto
qed

lemma source_failures:
  "failures (source_key ip) (map source_event ops) = failures (source_of ip) (source_events ops)"
  unfolding source_events_map source_key_of
  by (rule failures_map) (use source_events_key key_of_source in metis)

lemma claim_failures:
  "failures (source_key ip, i) (concat (map device_events ops))
     = failures (source_of ip, i) (claim_events ops)"
proof -
  have "failures (claim_key (source_of ip, i)) (map (map_event claim_key) (claim_events ops))
      = failures (source_of ip, i) (claim_events ops)"
  proof (rule failures_map)
    fix e
    assume "e \<in> set (claim_events ops)" and k: "claim_key (event_key e) = claim_key (source_of ip, i)"
    then obtain a j where "event_key e = (source_of a, j)" using claim_events_key by blast
    then show "event_key e = (source_of ip, i)" using k by (simp add: key_of_source)
  qed
  then show ?thesis by (simp add: claim_events_map source_key_of)
qed

lemma few_keys:
  "card (event_key ` set es) \<le> n \<Longrightarrow> card (event_key ` set (map (map_event f) es)) \<le> n"
  unfolding event_keys_map by (rule order_trans [OF card_image_le]) simp_all

text \<open>
  C15: The limiter's two tables are the history of failed handshakes: whatever handshakes
  fail and succeed, a source (a device claimed from a source) is refused at an instant
  exactly when it failed at least three times since its last success and the instant is
  within the backoff of the last failure: 1 s after the third, doubled with each further
  failure, never more than 300 s. A source is an IPv4 address, written as such or
  IPv4-mapped, or an IPv6 /64. This holds while a table has seen at most 4096 keys; no table
  ever holds more, in any run.
\<close>
theorem limiter_exact:
  fixes ops :: "lim_op list"
  defines "l \<equiv> fold apply_lim ops empty_limiter"
  shows "(card (event_key ` set (source_events ops)) \<le> 4096 \<longrightarrow>
      source_blocked l ip now = held_back (failures (source_of ip) (source_events ops)) now)
    \<and> (card (event_key ` set (claim_events ops)) \<le> 4096 \<longrightarrow>
      device_blocked l ip i now = held_back (failures (source_of ip, i) (claim_events ops)) now)
    \<and> length (lim_sources l) \<le> 4096 \<and> length (lim_devices l) \<le> 4096"
proof -
  have n: "LIMITER_ENTRIES = 4096" by (simp add: LIMITER_ENTRIES_def)
  have "source_blocked l ip now = held_back (failures (source_of ip) (source_events ops)) now"
    if "card (event_key ` set (source_events ops)) \<le> 4096"
    using waits_iff [OF events_reflect [OF few_keys [OF that [folded n]]], of key_of]
    by (simp add: l_def limiter_tables source_blocked_def source_failures flip: source_events_map)
  moreover have "device_blocked l ip i now = held_back (failures (source_of ip, i) (claim_events ops)) now"
    if "card (event_key ` set (claim_events ops)) \<le> 4096"
    using waits_iff [OF events_reflect [OF few_keys [OF that [folded n]]], of claim_key]
    by (simp add: l_def limiter_tables device_blocked_def claim_failures flip: claim_events_map)
  ultimately show ?thesis
    using table_bounded [of "map source_event ops"] table_bounded [of "concat (map device_events ops)"]
    by (simp add: l_def limiter_tables n)
qed

lemma limiter_exact_witness:
  "\<not> source_blocked (fold apply_lim [Fail (IpV4 1) None 0, Fail (IpV4 1) (Some ''d'') 5,
        Fail (IpV6 0xffff00000001) None 10] empty_limiter) (IpV4 1) 1010
   \<and> source_blocked (fold apply_lim [Fail (IpV4 1) None 0, Fail (IpV4 1) (Some ''d'') 5,
        Fail (IpV6 0xffff00000001) None 10] empty_limiter) (IpV4 1) 1009"
proof -
  let ?ops = "[Fail (IpV4 1) None 0, Fail (IpV4 1) (Some ''d'') 5, Fail (IpV6 0xffff00000001) None 10]"
  have e: "source_events ?ops = [Hit (Inl 1) 0, Hit (Inl 1) 5, Hit (Inl 1) 10]"
    "source_of (IpV4 1) = Inl 1"
    by (simp_all add: source_events_def source_of_def)
  have f: "failures (Inl 1 :: nat + nat) [Hit (Inl 1) 0, Hit (Inl 1) 5, Hit (Inl 1) 10] = [0, 5, 10]"
    by (simp add: failures_def)
  show ?thesis
    using limiter_exact [of ?ops "IpV4 1" 1010] limiter_exact [of ?ops "IpV4 1" 1009]
    unfolding e f by (simp add: held_back_def)
qed

section \<open>Slots\<close>

text \<open>
  The connections that hold a slot, each with its address and its guard, and the slot table:
  a connection comes and gets a guard or is refused, and one that holds a guard goes.
\<close>

inductive slot_step ::
  "slots \<times> (ip_addr \<times> ip_addr) list \<Rightarrow> slots \<times> (ip_addr \<times> ip_addr) list \<Rightarrow> bool" where
  slot_taken: "pre_auth ip sl = (Some k, sl') \<Longrightarrow> slot_step (sl, held) (sl', (ip, k) # held)"
| slot_refused: "pre_auth ip sl = (None, sl') \<Longrightarrow> slot_step (sl, held) (sl', held)"
| slot_dropped: "(ip, k) \<in> set held \<Longrightarrow> slot_step (sl, held) (pre_auth_drop k sl, remove1 (ip, k) held)"

definition slot_counts :: "(ip_addr \<times> ip_addr) list \<Rightarrow> ip_addr \<Rightarrow> nat option" where
  "slot_counts held k =
     (let n = count_list (map snd held) k in if n = 0 then None else Some n)"

definition slots_ok :: "slots \<times> (ip_addr \<times> ip_addr) list \<Rightarrow> bool" where
  "slots_ok st \<longleftrightarrow> map_of (fst st) = slot_counts (snd st)
     \<and> (\<forall>k. count_list (map snd (snd st)) k \<le> MAX_PRE_AUTH_PER_SOURCE)
     \<and> (\<forall>(ip, k) \<in> set (snd st). k = source_key ip)"

lemma count_list_remove1:
  "x \<in> set xs \<Longrightarrow> count_list (map snd (remove1 x xs)) j
     = count_list (map snd xs) j - (if j = snd x then 1 else 0)"
proof (induction xs)
  case (Cons y ys)
  have "count_list (map snd ys) (snd x) \<noteq> 0" if "x \<in> set ys"
  proof -
    have "snd x \<in> set (map snd ys)" using that by force
    then show ?thesis by (simp only: count_list_0_iff) simp
  qed
  then show ?case using Cons by (cases "y = x") simp_all
qed simp

lemma slot_counts_unwrap [simp]: "unwrap_or 0 (slot_counts held k) = count_list (map snd held) k"
  by (simp add: slot_counts_def Let_def)

lemma slot_step_ok: "slot_step st st' \<Longrightarrow> slots_ok st \<Longrightarrow> slots_ok st'"
proof (induction rule: slot_step.induct)
  case (slot_taken ip sl k sl' held)
  then have k: "k = source_key ip" and less: "count_list (map snd held) k < MAX_PRE_AUTH_PER_SOURCE"
    and sl': "sl' = AList.update k (count_list (map snd held) k + 1) sl"
    by (auto simp: slots_ok_def pre_auth_def Let_def split: if_split_asm)
  have "map_of sl' = slot_counts ((ip, k) # held)"
    using slot_taken(2) by (auto simp: sl' slots_ok_def update_conv' slot_counts_def fun_eq_iff Let_def)
  moreover have "count_list (map snd ((ip, k) # held)) j \<le> MAX_PRE_AUTH_PER_SOURCE" for j
    using slot_taken(2) less by (auto simp: slots_ok_def)
  ultimately show ?case
    using slot_taken(2) unfolding slots_ok_def fst_conv snd_conv by (simp add: k)
next
  case (slot_refused ip sl sl' held)
  then have "MAX_PRE_AUTH_PER_SOURCE \<le> count_list (map snd held) (source_key ip)"
    "sl' = AList.update (source_key ip) (count_list (map snd held) (source_key ip)) sl"
    by (auto simp: slots_ok_def pre_auth_def Let_def split: if_split_asm)
  then show ?case
    using slot_refused(2)
    by (auto simp: slots_ok_def update_conv' slot_counts_def fun_eq_iff Let_def MAX_PRE_AUTH_PER_SOURCE_def)
next
  case (slot_dropped ip k held sl)
  then have "k \<in> set (map snd held)" by force
  then have n: "count_list (map snd held) k \<noteq> 0" by (simp only: count_list_0_iff) simp
  then have "map_of sl k = Some (count_list (map snd held) k)"
    using slot_dropped(2) by (simp add: slots_ok_def slot_counts_def Let_def)
  moreover have "(\<forall>(a, j) \<in> set (remove1 (ip, k) held). j = source_key a)"
    using slot_dropped(2) set_remove1_subset [of "(ip, k)" held] by (auto simp: slots_ok_def)
  ultimately show ?case
    using slot_dropped(2) n
    by (auto simp: slots_ok_def pre_auth_drop_def update_conv' delete_conv' slot_counts_def Let_def
        count_list_remove1 [OF slot_dropped(1)] fun_eq_iff intro: le_trans [OF diff_le_self])
qed

lemma slot_run_ok: "slot_step\<^sup>*\<^sup>* ([], []) st \<Longrightarrow> slots_ok st"
  by (induction rule: rtranclp_induct)
    (auto simp: slot_step_ok, simp add: slots_ok_def slot_counts_def fun_eq_iff)

lemma count_of_source:
  "\<forall>(a, j) \<in> set held. j = source_key a \<Longrightarrow>
     count_list (map snd held) (source_key ip)
       = length (filter (\<lambda>(a, j). source_of a = source_of ip) held)"
  by (induction held) (auto simp: source_key_eq)

text \<open>
  C32: However connections come and go, at most four unauthenticated connections of one
  source hold a slot at a time, where a source is an IPv4 address, written as such or
  IPv4-mapped, or an IPv6 /64; the next connection of a source gets a slot exactly when
  fewer than four of it hold one; and the table counts exactly them, with no entry left for
  a source that holds none.
\<close>
theorem slots_exact:
  fixes ip :: ip_addr
  assumes "slot_step\<^sup>*\<^sup>* ([], []) (sl, held)"
  defines "n \<equiv> length (filter (\<lambda>(a, k). source_of a = source_of ip) held)"
  shows "n \<le> 4 \<and> (fst (pre_auth ip sl) \<noteq> None \<longleftrightarrow> n < 4)
    \<and> map_of sl (source_key ip) = (if n = 0 then None else Some n) \<and> (held = [] \<longrightarrow> sl = [])"
proof -
  have ok: "slots_ok (sl, held)" using assms(1) by (rule slot_run_ok)
  then have n: "count_list (map snd held) (source_key ip) = n"
    unfolding n_def by (intro count_of_source) (simp add: slots_ok_def)
  have "map_of sl (source_key ip) = (if n = 0 then None else Some n)"
    using ok n by (simp add: slots_ok_def slot_counts_def Let_def)
  moreover have "n \<le> 4"
    using ok n by (auto simp: slots_ok_def MAX_PRE_AUTH_PER_SOURCE_def)
  moreover have "sl = []" if "held = []"
  proof -
    have "map_of sl = Map.empty" using ok that by (simp add: slots_ok_def slot_counts_def fun_eq_iff)
    then show ?thesis by simp
  qed
  ultimately show ?thesis
    by (auto simp: pre_auth_def Let_def MAX_PRE_AUTH_PER_SOURCE_def)
qed

lemma slots_exact_witness:
  "map_of (snd (pre_auth (IpV6 (2 ^ 64 + 7)) [])) (source_key (IpV6 (2 ^ 64 + 9))) = Some 1"
proof -
  have "slot_step ([], []) (snd (pre_auth (IpV6 (2 ^ 64 + 7)) []),
      [(IpV6 (2 ^ 64 + 7), source_key (IpV6 (2 ^ 64 + 7)))])"
    by (rule slot_taken) (simp add: pre_auth_def Let_def MAX_PRE_AUTH_PER_SOURCE_def)
  from slots_exact [OF r_into_rtranclp, OF this, of "IpV6 (2 ^ 64 + 9)"]
  show ?thesis by (simp add: source_of_def)
qed

end
