(* ===== verification/GatewayHandshake.thy ===== *)
theory GatewayHandshake
  imports GatewayLimits MobileStore MobileCrypto Json
begin

text \<open>
  How a phone authenticates to the gateway (\<open>mobile/gateway.rs\<close>): the challenge-response
  over the limiter, the device store and the key schedule, and the one exchange of a pairing.
  The cryptographic primitives, base64, the JSON parser and printer are in a \<open>gw_lib\<close>; what
  the system and the phone do during one handshake is an \<open>hs_env\<close>: the outcomes of three store
  accesses, the random nonce, which sends succeed, the clocks, the messages of the phone in
  order, and the operations that other tasks and processes make on the store while the gateway
  waits for the reply (\<open>e_before\<close>, between the registry read and the read of the key file) and from
  then until it commits (\<open>e_others\<close>). A failed join of a blocking task is a failed store access.
\<close>


section \<open>Library and environment\<close>

record gw_lib =
  g_mac :: "bytes \<Rightarrow> bytes \<Rightarrow> bytes"
  g_enc :: aead
  g_dec :: aead
  g_b64 :: "bytes \<Rightarrow> string"
  g_unb64 :: "string \<Rightarrow> bytes option"
  g_parse :: "bytes \<Rightarrow> json option"
  g_print :: "json \<Rightarrow> bytes"
  g_shown :: "ip_addr \<Rightarrow> string"
  g_uuid :: "string \<Rightarrow> bool"

definition from_b64url :: "gw_lib \<Rightarrow> nat \<Rightarrow> string \<Rightarrow> bytes option" where
  "from_b64url lib n text = filter_opt (\<lambda>b. length b = n) (g_unb64 lib text)"

definition NONCE_LEN :: nat where "NONCE_LEN = 32"

text \<open>A key as the store keeps it: a byte string.\<close>

definition byte_string :: "bytes \<Rightarrow> string" where
  "byte_string b = map (\<lambda>w. char_of (unat w)) b"

datatype ws_msg = WsText bytes | WsBinary bytes | WsControl | WsOther

record hs_env =
  e_read :: store_env
  e_secret :: store_env
  e_commit :: store_env
  e_random :: "bytes result"
  e_sent_challenge :: bool
  e_sent_ready :: bool
  e_sent_ack :: bool
  e_now :: nat
  e_wall :: nat
  e_messages :: "ws_msg list"
  e_before :: "store_op list"
  e_others :: "store_op list"

definition CLOSE_PROTOCOL :: nat where "CLOSE_PROTOCOL = 4400"
definition CLOSE_UNAUTHORIZED :: nat where "CLOSE_UNAUTHORIZED = 4401"
definition CLOSE_OTHER_PROFILE :: nat where "CLOSE_OTHER_PROFILE = 4409"
definition CLOSE_RATE_LIMITED :: nat where "CLOSE_RATE_LIMITED = 4429"

text \<open>The next text (binary) message, past pings and pongs; anything else ends the wait.\<close>

fun next_text :: "ws_msg list \<Rightarrow> (bytes \<times> ws_msg list) option" where
  "next_text (WsText t # ms) = Some (t, ms)"
| "next_text (WsControl # ms) = next_text ms"
| "next_text _ = None"

fun next_binary :: "ws_msg list \<Rightarrow> (bytes \<times> ws_msg list) option" where
  "next_binary (WsBinary b # ms) = Some (b, ms)"
| "next_binary (WsControl # ms) = next_binary ms"
| "next_binary _ = None"

definition check_upgrade :: "string list \<Rightarrow> (nat \<times> string) option" where
  "check_upgrade headers =
     (if ''origin'' \<in> set headers then Some (403, ''Browser connections are not accepted'') else None)"

section \<open>Who the phone is\<close>

text \<open>What the phone proved: the device, the key it was proved with, the phone's nonce and
  whether this is a pairing.\<close>

record proven =
  p_device :: device
  p_secret :: string
  p_nonce :: bytes
  p_pairing :: bool

definition strike_source ::
  "hs_env \<Rightarrow> ip_addr option \<Rightarrow> string \<Rightarrow> bool \<Rightarrow> limiter \<Rightarrow> limiter" where
  "strike_source env source device_id known l =
     (case source of
        None \<Rightarrow> l
      | Some ip \<Rightarrow> limiter_fail ip (if known then Some device_id else None) (e_now env) l)"

definition key_of_kind :: "store_env \<Rightarrow> device \<Rightarrow> mobile_store \<Rightarrow> string option" where
  "key_of_kind env d s =
     (case secret env (d_id d) s of
        Inl _ \<Rightarrow> None
      | Inr k \<Rightarrow> if length k = (if d_state d = Pending then KEY_LEN else 2 * KEY_LEN)
                 then Some k else None)"

definition claimed_id :: "json \<Rightarrow> string" where
  "claimed_id reply = unwrap_or [] (as_str (jidx reply ''deviceId''))"

definition authenticate ::
  "gw_lib \<Rightarrow> string option \<Rightarrow> ip_addr option \<Rightarrow> hs_env \<Rightarrow> registry \<Rightarrow> mobile_store \<Rightarrow> bytes \<Rightarrow> json
     \<Rightarrow> limiter \<Rightarrow> (nat + proven) \<times> limiter" where
  "authenticate lib only source env r s g reply l =
     (let device_id = claimed_id reply;
          pairing = (jidx reply ''pairing'' = JBool True);
          fail = (\<lambda>known. strike_source env source device_id known l)
      in if jidx reply ''type'' \<noteq> JStr ''auth'' \<or> jidx reply ''v'' \<noteq> JNum (JInt 1)
         then (Inl CLOSE_PROTOCOL, fail False)
         else case (Option.bind (as_str (jidx reply ''phoneNonce'')) (from_b64url lib NONCE_LEN),
                    Option.bind (as_str (jidx reply ''proof'')) (from_b64url lib 32)) of
           (Some pn, Some prf) \<Rightarrow>
             (case filter_opt (\<lambda>d. usable d (e_wall env)) (find_device device_id r) of
                None \<Rightarrow> (Inl CLOSE_UNAUTHORIZED, fail False)
              | Some d \<Rightarrow>
                  if (case source of Some ip \<Rightarrow> device_blocked l ip (d_id d) (e_now env) | None \<Rightarrow> False)
                  then (Inl CLOSE_RATE_LIMITED, l)
                  else
                    (case key_of_kind (e_secret env) d s of
                       None \<Rightarrow> (Inl CLOSE_UNAUTHORIZED, fail True)
                     | Some k \<Rightarrow>
                         if \<not> verify_phone_proof (g_mac lib) (derive_keys (g_mac lib) (utf8 k)) g pn
                               (d_id d) prf
                         then (Inl CLOSE_UNAUTHORIZED, fail True)
                         else if only \<noteq> None \<and> only \<noteq> Some (d_profile d)
                         then (Inl CLOSE_OTHER_PROFILE, l)
                         else if pairing \<noteq> (d_state d = Pending)
                         then (Inl CLOSE_UNAUTHORIZED, fail True)
                         else (Inr \<lparr> p_device = d, p_secret = k, p_nonce = pn,
                                     p_pairing = pairing \<rparr>, l)))
         | _ \<Rightarrow> (Inl CLOSE_UNAUTHORIZED, fail False))"

section \<open>Pairing\<close>

text \<open>What the gateway sends in the clear, and sealed.\<close>

datatype sent = SentText json | SentBinary bytes

definition gateway_pairing ::
  "gw_lib \<Rightarrow> hs_env \<Rightarrow> device_keys \<Rightarrow> bytes \<Rightarrow> bytes \<Rightarrow> string \<Rightarrow> string \<Rightarrow> ws_msg list \<Rightarrow> mobile_store
     \<Rightarrow> (nat + bytes) \<times> mobile_store \<times> sent list" where
  "gateway_pairing lib env keys g pn i ip ms s =
     (let (send_key, receive_key) = session_keys (g_mac lib) keys g pn
      in case next_binary ms of
           None \<Rightarrow> (Inl CLOSE_PROTOCOL, s, [])
         | Some (fr, _) \<Rightarrow>
             (case open_frame (g_dec lib) fr (new_channel receive_key) of
                (Inl _, _) \<Rightarrow> (Inl CLOSE_PROTOCOL, s, [])
              | (Inr plain, _) \<Rightarrow>
                  (case g_parse lib plain of
                     None \<Rightarrow> (Inl CLOSE_PROTOCOL, s, [])
                   | Some request \<Rightarrow>
                       (case filter_opt (\<lambda>_. jidx request ''op'' = JStr ''pairComplete'')
                               (Option.bind (as_str (jidx (jidx request ''params'') ''phoneSecret''))
                                  (from_b64url lib KEY_LEN)) of
                          None \<Rightarrow> (Inl CLOSE_PROTOCOL, s, [])
                        | Some ps \<Rightarrow>
                            (case complete_pairing (e_commit env) i (byte_string ps) ip (fold apply_op (e_others env) s) of
                               (Inl _, s1) \<Rightarrow> (Inl CLOSE_UNAUTHORIZED, s1, [])
                             | (Inr _, s1) \<Rightarrow>
                                 (case seal (g_enc lib)
                                    (g_print lib (jobj [(''id'', jidx request ''id''),
                                       (''result'', jobj [(''paired'', JBool True)])]))
                                    (new_channel send_key) of
                                    (Inl _, _) \<Rightarrow> (Inl CLOSE_PROTOCOL, s1, [])
                                  | (Inr sealed, _) \<Rightarrow>
                                      if \<not> e_sent_ack env then (Inl CLOSE_PROTOCOL, s1, [])
                                      else (Inr ps, s1, [SentBinary sealed])))))))"

section \<open>The handshake\<close>

record session =
  ss_device :: string
  ss_profile :: string
  ss_send :: bytes
  ss_receive :: bytes

definition finish_session ::
  "gw_lib \<Rightarrow> ip_addr option \<Rightarrow> device \<Rightarrow> string \<Rightarrow> bytes \<Rightarrow> bytes \<Rightarrow> limiter \<Rightarrow> session \<times> limiter" where
  "finish_session lib source d key g pn l =
     (let (send_key, receive_key) = session_keys (g_mac lib) (derive_keys (g_mac lib) (utf8 key)) g pn
      in (\<lparr> ss_device = d_id d, ss_profile = d_profile d, ss_send = send_key,
            ss_receive = receive_key \<rparr>,
          case source of None \<Rightarrow> l | Some ip \<Rightarrow> limiter_succeed ip (d_id d) l))"

definition handshake_reply ::
  "gw_lib \<Rightarrow> ip_addr option \<Rightarrow> hs_env \<Rightarrow> bytes \<Rightarrow> proven \<Rightarrow> ws_msg list \<Rightarrow> limiter \<Rightarrow> mobile_store
     \<Rightarrow> (nat + session) \<times> limiter \<times> mobile_store \<times> sent list" where
  "handshake_reply lib source env g p ms l s =
     (let d = p_device p; pn = p_nonce p;
          keys = derive_keys (g_mac lib) (utf8 (p_secret p));
          ip = (case source of None \<Rightarrow> ''tunnel'' | Some a \<Rightarrow> g_shown lib a);
          ready = SentText (jobj [(''type'', JStr ''ready''),
            (''proof'', JStr (g_b64 lib (gateway_proof (g_mac lib) keys g pn (d_id d))))])
      in if p_pairing p then
           (if \<not> e_sent_ready env then (Inl CLOSE_PROTOCOL, l, s, [])
            else case gateway_pairing lib env keys g pn (d_id d) ip ms s of
              (Inl code, s1, out) \<Rightarrow> (Inl code, l, s1, ready # out)
            | (Inr ps, s1, out) \<Rightarrow>
                (let (sess, l1) = finish_session lib source d (p_secret p @ byte_string ps) g pn l
                 in (Inr sess, l1, s1, ready # out)))
         else
           (case device_seen (e_commit env) (d_id d) ip (fold apply_op (e_others env) s) of
              (Inl _, s1) \<Rightarrow> (Inl CLOSE_UNAUTHORIZED, l, s1, [])
            | (Inr _, s1) \<Rightarrow>
                if \<not> e_sent_ready env then (Inl CLOSE_PROTOCOL, l, s1, [])
                else (let (sess, l1) = finish_session lib source d (p_secret p) g pn l
                      in (Inr sess, l1, s1, [ready]))))"

definition handshake ::
  "gw_lib \<Rightarrow> string option \<Rightarrow> ip_addr option \<Rightarrow> hs_env \<Rightarrow> limiter \<Rightarrow> mobile_store
     \<Rightarrow> (nat + session) \<times> limiter \<times> mobile_store \<times> sent list" where
  "handshake lib only source env l s0 =
     (case read_store (e_read env) s0 of
        (Inl _, s) \<Rightarrow> (Inl CLOSE_PROTOCOL, l, s, [])
      | (Inr r, s) \<Rightarrow>
          (case e_random env of
             Inl _ \<Rightarrow> (Inl CLOSE_PROTOCOL, l, s, [])
           | Inr g \<Rightarrow>
               if \<not> e_sent_challenge env then (Inl CLOSE_PROTOCOL, l, s, [])
               else
                 (let challenge = SentText (jobj [(''type'', JStr ''challenge''), (''v'', JNum (JInt 1)),
                        (''gatewayNonce'', JStr (g_b64 lib g)), (''gateway'', JStr (gateway_id r))])
                  in case Option.bind (next_text (e_messages env))
                            (\<lambda>(t, ms). map_option (\<lambda>v. (v, ms)) (g_parse lib t)) of
                       None \<Rightarrow> (Inl CLOSE_PROTOCOL, l, s, [challenge])
                     | Some (reply, ms) \<Rightarrow>
                         let s1 = fold apply_op (e_before env) s
                         in (case authenticate lib only source env r s1 g reply l of
                            (Inl code, l1) \<Rightarrow> (Inl code, l1, s1, [challenge])
                          | (Inr p, l1) \<Rightarrow>
                              (case handshake_reply lib source env g p ms l1 s1 of
                                 (res, l2, s2, out) \<Rightarrow> (res, l2, s2, challenge # out))))))"

section \<open>A session belongs to a device that proved its key\<close>

text \<open>The reply carries the MAC of the gateway's nonce, its own and the device id under \<open>k\<close>.\<close>

definition proves_key :: "gw_lib \<Rightarrow> bytes \<Rightarrow> bytes \<Rightarrow> json \<Rightarrow> string \<Rightarrow> string \<Rightarrow> bool" where
  "proves_key lib g pn reply i k \<longleftrightarrow>
     Option.bind (as_str (jidx reply ''phoneNonce'')) (from_b64url lib NONCE_LEN) = Some pn
     \<and> Option.bind (as_str (jidx reply ''proof'')) (from_b64url lib 32)
         = Some (phone_proof (g_mac lib) (derive_keys (g_mac lib) (utf8 k)) g pn i)"

definition reply_of :: "gw_lib \<Rightarrow> hs_env \<Rightarrow> json option" where
  "reply_of lib env = Option.bind (next_text (e_messages env)) (\<lambda>(t, ms). g_parse lib t)"

lemma secret_Inr:
  assumes "secret env i s = Inr k"
  shows "map_of (key_files s) i = Some k \<and> (length k = KEY_LEN \<or> length k = 2 * KEY_LEN)"
proof -
  obtain b where b: "map_of (key_files s) i = Some b" "take (2 * KEY_LEN + 1) b = k"
    "length k = KEY_LEN \<or> length k = 2 * KEY_LEN"
    using assms by (auto simp: secret_def read_key_def and_then_Inr_iff Let_def
        split: if_split_asm option.split_asm)
  then have "length b \<le> 2 * KEY_LEN" by (auto simp: KEY_LEN_def)
  with b show ?thesis by simp
qed

lemma key_of_kind_Some:
  "key_of_kind env d s = Some k \<Longrightarrow> map_of (key_files s) (d_id d) = Some k
     \<and> length k = (if d_state d = Pending then KEY_LEN else 2 * KEY_LEN)"
  by (auto simp: key_of_kind_def dest: secret_Inr split: sum.split_asm if_split_asm)

lemma authenticate_Inr:
  assumes "authenticate lib only source env r s g reply l = (Inr p, l')"
  obtains "l' = l" "find_device (claimed_id reply) r = Some (p_device p)" "usable (p_device p) (e_wall env)"
    "key_of_kind (e_secret env) (p_device p) s = Some (p_secret p)"
    "proves_key lib g (p_nonce p) reply (d_id (p_device p)) (p_secret p)"
    "only = None \<or> only = Some (d_profile (p_device p))"
    "p_pairing p = (d_state (p_device p) = Pending)"
    "case source of Some ip \<Rightarrow> \<not> device_blocked l ip (d_id (p_device p)) (e_now env) | None \<Rightarrow> True"
  using assms
  by (auto simp: authenticate_def Let_def filter_opt_Some_iff proves_key_def verify_phone_proof_def
      phone_proof_def split: if_split_asm option.split_asm)

lemma device_seen_Inr:
  assumes "device_seen env i ip s = (Inr x, s')"
  obtains r d where "load_registry env (reg_file s) = Inr r" "find_device i r = Some d"
    "d_state d = Active" "key_files s' = key_files s"
    "\<exists>r' d'. reg_file s' = RegFile r' \<and> find_device i r' = Some d' \<and> d_state d' = Active"
proof -
  let ?f = "\<lambda>d. d\<lparr>d_last_seen := Some (s_now env), d_last_ip := Some ip\<rparr>"
  obtain r d where r: "load_registry env (reg_file s) = Inr r" "find_device i r = Some d"
    "d_state d = Active"
    "s' = \<lparr> reg_file = RegFile (set_device i ?f r), key_files = key_files s \<rparr>"
    using assms unfolding device_seen_def update_store_Inr pure_change_def
    by (auto split: option.split_asm if_split_asm)
  moreover have "find_device i (set_device i ?f r) = Some (?f d)"
    by (rule find_device_set [OF r(2)]) simp
  ultimately show ?thesis using that [of r d] by auto
qed

lemma byte_string_length [simp]: "length (byte_string b) = length b"
  by (simp add: byte_string_def)

lemma gateway_pairing_Inr:
  assumes "gateway_pairing lib env keys g pn i ip ms s = (Inr ps, s', out)"
  shows "length ps = KEY_LEN
    \<and> complete_pairing (e_commit env) i (byte_string ps) ip (fold apply_op (e_others env) s) = (Inr (), s')"
  using assms
  by (auto simp: gateway_pairing_def from_b64url_def filter_opt_Some_iff bind_eq_Some_conv
      split: option.split_asm sum.split_asm prod.split_asm if_split_asm)

lemma paired_store:
  assumes "complete_pairing env i ps ip s = (Inr x, s')" "length ps = KEY_LEN"
  obtains r d k where "load_registry env (reg_file s) = Inr r" "find_device i r = Some d"
    "d_state d = Pending"
    "\<exists>r' d'. reg_file s' = RegFile r' \<and> find_device i r' = Some d' \<and> d_state d' = Active"
    "map_of (key_files s) i = Some k" "length k = KEY_LEN" "map_of (key_files s') i = Some (k @ ps)"
proof (rule complete_pairing_Inr [OF assms(1)])
  fix r d b
  assume r: "load_registry env (reg_file s) = Inr r" "find_device i r = Some d" "d_state d = Pending"
    and b: "read_key env i (key_files s) = Inr b" "length (take (KEY_LEN + 1) b) = KEY_LEN"
    and s': "s' = \<lparr> reg_file = RegFile (set_device i (activate env ip) r),
            key_files = AList.update i (take (KEY_LEN + 1) b @ ps) (key_files s) \<rparr>"
  have "map_of (key_files s) i = Some b" using b(1) by (simp add: read_key_def split: option.split_asm)
  moreover have "length b = KEY_LEN" "take (KEY_LEN + 1) b = b"
    using b(2) by (simp_all add: min_def split: if_split_asm)
  moreover from this have "map_of (key_files s') i = Some (b @ ps)" by (simp add: s' al.put_same)
  moreover have "find_device i (set_device i (activate env ip) r) = Some (activate env ip d)"
    by (rule find_device_set [OF r(2)]) (simp add: activate_def)
  ultimately show thesis
    using that [OF r] s' by (simp add: activate_def)
qed

lemma handshake_Inr:
  assumes "handshake lib only source env l s0 = (Inr sess, l', s', out)"
  obtains r s g reply p ms out' where "read_store (e_read env) s0 = (Inr r, s)" "e_random env = Inr g"
    "reply_of lib env = Some reply"
    "authenticate lib only source env r (fold apply_op (e_before env) s) g reply l = (Inr p, l)"
    "handshake_reply lib source env g p ms l (fold apply_op (e_before env) s) = (Inr sess, l', s', out')"
proof -
  obtain r s where r: "read_store (e_read env) s0 = (Inr r, s)"
    using assms by (auto simp: handshake_def split: prod.split_asm sum.split_asm)
  obtain g where g: "e_random env = Inr g"
    using assms r by (auto simp: handshake_def split: sum.split_asm)
  obtain reply ms where v: "Option.bind (next_text (e_messages env))
      (\<lambda>(t, ms). map_option (\<lambda>v. (v, ms)) (g_parse lib t)) = Some (reply, ms)"
    using assms r g by (auto simp: handshake_def Let_def split: option.split_asm if_split_asm)
  let ?s = "fold apply_op (e_before env) s"
  obtain q l1 where a: "authenticate lib only source env r ?s g reply l = (q, l1)" by force
  obtain p where p: "q = Inr p"
    using assms r g v a by (cases q) (auto simp: handshake_def Let_def split: if_split_asm)
  have "l1 = l" using a p by (auto elim: authenticate_Inr)
  moreover have "reply_of lib env = Some reply"
    using v by (auto simp: reply_of_def bind_eq_Some_conv)
  moreover obtain q2 l2 s2 out2 where h: "handshake_reply lib source env g p ms l1 ?s = (q2, l2, s2, out2)"
    by (metis prod_cases4)
  moreover have "q2 = Inr sess \<and> l2 = l' \<and> s2 = s'"
    using assms r g v a p h by (auto simp: handshake_def Let_def split: if_split_asm)
  ultimately show ?thesis using that r g a p by blast
qed

text \<open>
  The session of a device \<open>d\<close> that proved \<open>k\<close>, committed on the store \<open>s2\<close> that the others had left.
\<close>

definition session_of ::
  "gw_lib \<Rightarrow> hs_env \<Rightarrow> bytes \<Rightarrow> bytes \<Rightarrow> device \<Rightarrow> string \<Rightarrow> mobile_store \<Rightarrow> session \<Rightarrow> mobile_store \<Rightarrow> bool" where
  "session_of lib env g pn d k s2 sess s' \<longleftrightarrow>
     ss_device sess = d_id d \<and> ss_profile sess = d_profile d
   \<and> (\<exists>r2 d2. load_registry (e_commit env) (reg_file s2) = Inr r2
        \<and> find_device (d_id d) r2 = Some d2 \<and> d_state d2 = d_state d)
   \<and> (\<exists>r' d'. reg_file s' = RegFile r' \<and> find_device (d_id d) r' = Some d' \<and> d_state d' = Active)
   \<and> (\<exists>ps. length (k @ ps) = 2 * KEY_LEN
        \<and> (ss_send sess, ss_receive sess)
            = session_keys (g_mac lib) (derive_keys (g_mac lib) (utf8 (k @ ps))) g pn
        \<and> map_of (key_files s') (d_id d) = Some (k @ ps))"

lemma finish_session_keys:
  "finish_session lib source d key g pn l = (sess, l') \<Longrightarrow>
     ss_device sess = d_id d \<and> ss_profile sess = d_profile d
     \<and> (ss_send sess, ss_receive sess)
         = session_keys (g_mac lib) (derive_keys (g_mac lib) (utf8 key)) g pn"
  by (auto simp: finish_session_def split: prod.split_asm)

lemma handshake_reply_device:
  "handshake_reply lib source env g p ms l s = (Inr sess, l', s', out) \<Longrightarrow> ss_device sess = d_id (p_device p)"
  by (auto simp: handshake_reply_def Let_def dest!: finish_session_keys
      split: if_split_asm prod.split_asm sum.split_asm)

lemma pairing_session:
  assumes h: "handshake_reply lib source env g p ms l s = (Inr sess, l', s', out)"
    and p: "p_pairing p" "d_state (p_device p) = Pending" "length (p_secret p) = KEY_LEN"
    and k: "key_was (d_id (p_device p)) (p_secret p) (fold apply_op (e_others env) s)"
  shows "session_of lib env g (p_nonce p) (p_device p) (p_secret p) (fold apply_op (e_others env) s) sess s'"
proof -
  let ?d = "p_device p" and ?k = "p_secret p" and ?s2 = "fold apply_op (e_others env) s"
  obtain ip ps s1 out1 l1 where
    g: "gateway_pairing lib env (derive_keys (g_mac lib) (utf8 ?k)) g (p_nonce p) (d_id ?d) ip ms s
        = (Inr ps, s1, out1)"
    and f: "finish_session lib source ?d (?k @ byte_string ps) g (p_nonce p) l = (sess, l1)"
    and s1: "s' = s1"
    using h p(1)
    by (auto simp: handshake_reply_def Let_def split: if_split_asm prod.split_asm sum.split_asm)
  note c = gateway_pairing_Inr [OF g]
  show ?thesis
  proof (rule paired_store)
    show "complete_pairing (e_commit env) (d_id ?d) (byte_string ps) ip ?s2 = (Inr (), s')"
      using c s1 by simp
    show "length (byte_string ps) = KEY_LEN" using c by simp
    fix r d b
    assume a: "load_registry (e_commit env) (reg_file ?s2) = Inr r"
      "find_device (d_id ?d) r = Some d" "d_state d = Pending"
      "\<exists>r' d'. reg_file s' = RegFile r' \<and> find_device (d_id ?d) r' = Some d' \<and> d_state d' = Active"
      and b: "map_of (key_files ?s2) (d_id ?d) = Some b" "length b = KEY_LEN"
      "map_of (key_files s') (d_id ?d) = Some (b @ byte_string ps)"
    have "b = ?k" using k b(1,2) by (auto simp: key_was_def KEY_LEN_def)
    then show ?thesis
      unfolding session_of_def using a b finish_session_keys [OF f] p(2,3) c
      by (intro conjI exI [of _ "byte_string ps"]) (auto simp: KEY_LEN_def)
  qed
qed

lemma paired_session:
  assumes h: "handshake_reply lib source env g p ms l s = (Inr sess, l', s', out)"
    and p: "\<not> p_pairing p" "d_state (p_device p) = Active" "length (p_secret p) = 2 * KEY_LEN"
    and k: "key_was (d_id (p_device p)) (p_secret p) (fold apply_op (e_others env) s)"
    and ok: "store_ok L (fold apply_op (e_others env) s)"
  shows "session_of lib env g (p_nonce p) (p_device p) (p_secret p) (fold apply_op (e_others env) s) sess s'"
proof -
  let ?d = "p_device p" and ?k = "p_secret p" and ?s2 = "fold apply_op (e_others env) s"
  obtain ip x l1 where
    c: "device_seen (e_commit env) (d_id ?d) ip ?s2 = (Inr x, s')"
    and f: "finish_session lib source ?d ?k g (p_nonce p) l = (sess, l1)"
    using h p(1)
    by (auto simp: handshake_reply_def Let_def split: if_split_asm prod.split_asm sum.split_asm)
  show ?thesis
  proof (rule device_seen_Inr [OF c])
    fix r d
    assume a: "load_registry (e_commit env) (reg_file ?s2) = Inr r"
      "find_device (d_id ?d) r = Some d" "d_state d = Active" "key_files s' = key_files ?s2"
      "\<exists>r' d'. reg_file s' = RegFile r' \<and> find_device (d_id ?d) r' = Some d' \<and> d_state d' = Active"
    have "map_of (key_files ?s2) (d_id ?d) \<noteq> None"
      using load_ok [OF a(1) ok] find_device_Some [OF a(2)] a(3)
      by (auto simp: reg_ok_def key_ok_def split: option.splits)
    then have "map_of (key_files s') (d_id ?d) = Some ?k"
      using k p(3) a(4) by (auto simp: key_was_def KEY_LEN_def)
    then show ?thesis
      unfolding session_of_def using a finish_session_keys [OF f] p(2,3)
      by (intro conjI exI [of _ "[]"]) auto
  qed
qed

text \<open>
  C5: A session is given only to a phone that proved the key of its device: when a handshake
  succeeds, on a store that the program's operations built, the device was in the registry
  and usable, of the gateway's profile if that has one, not held back by the limiter, and
  the reply's proof is the MAC of both nonces and the device id under the key file of that
  device, read when the reply came, of 32 bytes if it was pending and of 64 if paired.
  Whatever operations other tasks and processes made on the store meanwhile (but for a new
  device that happens to draw this device's id): at the commit the device was still in the
  state it proved itself in (a revoke or another pairing wins), afterwards it is active, and
  the session keys come from the 64-byte key that its file then holds.
\<close>
theorem handshake_authenticates:
  assumes "handshake lib only source env l s0 = (Inr sess, l', s', out)"
    and "store_run empty_store ops s0"
    and "store_run (snd (read_store (e_read env) s0)) (e_before env) s1"
    and "store_run s1 (e_others env) s2"
    and "list_all (\<lambda>a. \<not> creates (ss_device sess) a) (e_others env)"
  shows "\<exists>r g reply d k pn.
     fst (read_store (e_read env) s0) = Inr r \<and> e_random env = Inr g
   \<and> find_device (ss_device sess) r = Some d \<and> usable d (e_wall env)
   \<and> (only = None \<or> only = Some (d_profile d))
   \<and> (case source of Some ip \<Rightarrow> \<not> device_blocked l ip (d_id d) (e_now env) | None \<Rightarrow> True)
   \<and> reply_of lib env = Some reply \<and> proves_key lib g pn reply (d_id d) k
   \<and> map_of (key_files s1) (d_id d) = Some k
   \<and> length k = (if d_state d = Pending then KEY_LEN else 2 * KEY_LEN)
   \<and> session_of lib env g pn d k s2 sess s'"
proof (rule handshake_Inr [OF assms(1)])
  fix r s g reply p ms out'
  assume r: "read_store (e_read env) s0 = (Inr r, s)" "e_random env = Inr g"
    "reply_of lib env = Some reply"
    and a: "authenticate lib only source env r (fold apply_op (e_before env) s) g reply l = (Inr p, l)"
    and h: "handshake_reply lib source env g p ms l (fold apply_op (e_before env) s) = (Inr sess, l', s', out')"
  have s1: "fold apply_op (e_before env) s = s1"
    using store_run_fold [OF assms(3)] r(1) by simp
  have s2: "fold apply_op (e_others env) s1 = s2"
    using store_run_fold [OF assms(4)] by simp
  have "store_run s0 [OpRead (e_read env)] s" using r(1) by simp
  from store_run_append [OF assms(2) store_run_append [OF this store_run_append [OF _ assms(4)]]]
  obtain ops' where "store_run empty_store ops' s2" using assms(3) r(1) by auto
  then obtain L where ok: "store_ok L s2" using reachable_store_ok by blast
  show ?thesis
  proof (rule authenticate_Inr [OF a [unfolded s1]])
    assume i: "find_device (claimed_id reply) r = Some (p_device p)" "usable (p_device p) (e_wall env)"
      "only = None \<or> only = Some (d_profile (p_device p))"
      "case source of Some ip \<Rightarrow> \<not> device_blocked l ip (d_id (p_device p)) (e_now env) | None \<Rightarrow> True"
      "proves_key lib g (p_nonce p) reply (d_id (p_device p)) (p_secret p)"
      and k: "key_of_kind (e_secret env) (p_device p) s1 = Some (p_secret p)"
      and m: "p_pairing p = (d_state (p_device p) = Pending)"
    have st: "d_state (p_device p) = Pending \<or> d_state (p_device p) = Active"
      using i(2) by (auto simp: usable_def split: dev_state.split_asm)
    have dev: "ss_device sess = d_id (p_device p)"
      using handshake_reply_device [OF h] .
    have "key_was (d_id (p_device p)) (p_secret p) s1"
      using key_of_kind_Some [OF k] by (simp add: key_was_def)
    from key_was_run [OF assms(4) this] have was: "key_was (d_id (p_device p)) (p_secret p) s2"
      using assms(5) dev by simp
    have "session_of lib env g (p_nonce p) (p_device p) (p_secret p) s2 sess s'"
      using st pairing_session [OF h [unfolded s1]] paired_session [OF h [unfolded s1]] m
        key_of_kind_Some [OF k] was ok unfolding s2 by auto
    moreover have "ss_device sess = claimed_id reply"
      using find_device_Some [OF i(1)] dev by simp
    ultimately show ?thesis
      using r i key_of_kind_Some [OF k]
      by (intro exI [of _ r] exI [of _ g] exI [of _ reply] exI [of _ "p_device p"]
          exI [of _ "p_secret p"] exI [of _ "p_nonce p"]) simp
  qed
qed

definition toy_lib :: gw_lib where
  "toy_lib = \<lparr> g_mac = (\<lambda>k m. replicate 32 0), g_enc = toy_enc, g_dec = toy_dec, g_b64 = (\<lambda>b. ''b64''),
     g_unb64 = (\<lambda>t. Some (replicate 32 0)),
     g_parse = (\<lambda>b. Some (jobj [(''type'', JStr ''auth''), (''v'', JNum (JInt 1)),
       (''deviceId'', JStr ''d1''), (''phoneNonce'', JStr ''n''), (''proof'', JStr ''p'')])),
     g_print = (\<lambda>v. []), g_shown = (\<lambda>ip. ''192.0.2.7''), g_uuid = (\<lambda>t. True) \<rparr>"

definition toy_hs :: hs_env where
  "toy_hs = \<lparr> e_read = example_env ''d1'', e_secret = example_env ''d1'', e_commit = example_env ''d1'',
     e_random = Inr (replicate 32 1), e_sent_challenge = True, e_sent_ready = True,
     e_sent_ack = True, e_now = 0, e_wall = 0, e_messages = [WsControl, WsText []],
     e_before = [OpRead (example_env ''d1'')], e_others = [] \<rparr>"

definition toy_session :: session where
  "toy_session = \<lparr> ss_device = ''d1'', ss_profile = ''profile-1'', ss_send = replicate 32 0,
     ss_receive = replicate 32 0 \<rparr>"

lemma example_paired_eq: "example_paired = \<lparr> reg_file = RegFile example_registry,
    key_files = [(''d1'', example_secret CHR ''k'' @ example_secret CHR ''p'')] \<rparr>"
  unfolding example_paired_def example_created
  by (simp add: example_defs Let_def example_registry_def activate_def)

lemma toy_reply: "g_parse toy_lib b = Some (jobj [(''type'', JStr ''auth''), (''v'', JNum (JInt 1)),
       (''deviceId'', JStr ''d1''), (''phoneNonce'', JStr ''n''), (''proof'', JStr ''p'')])"
  by (simp add: toy_lib_def)

definition toy_device :: device where
  "toy_device = activate (example_env ''d1'') ''10.0.0.2''
     (new_device (example_env ''d1'') ''Phone'' ''profile-1'')"

lemma toy_env [simp]:
  "s_uuid (example_env i) j \<longleftrightarrow> j = i" "s_lock_err (example_env i) = None"
  "s_read_err (example_env i) = None" "s_save_err (example_env i) = None"
  "s_key_read_err (example_env i) = None"
  by (simp_all add: example_env_def)

lemma toy_device_sel [simp]: "d_id toy_device = ''d1''" "d_profile toy_device = ''profile-1''"
  "d_state toy_device = Active"
  by (simp_all add: toy_device_def activate_def new_device_def example_env_def)

lemma toy_find [simp]: "find_device ''d1'' example_registry = Some toy_device"
  by (simp add: find_device_def example_registry_def flip: toy_device_def)

lemma toy_load [simp]: "load_registry (example_env ''d1'') (reg_file example_paired) = Inr example_registry"
  by (simp add: load_registry_def example_paired_eq) (simp add: example_registry_def)

lemma toy_key: "key_of_kind (example_env ''d1'') toy_device example_paired
   = Some (example_secret CHR ''k'' @ example_secret CHR ''p'')"
  by (simp add: key_of_kind_def secret_def read_key_def example_paired_eq KEY_LEN_def
      example_secret_def)

lemma toy_steps [simp]: "device_blocked empty_limiter ip i n \<longleftrightarrow> False" "usable toy_device n"
  "from_b64url toy_lib 32 t = Some (replicate 32 0)"
  "verify_phone_proof (g_mac toy_lib) keys g pn i (replicate 32 0)"
  "session_keys (g_mac toy_lib) keys g pn = (replicate 32 0, replicate 32 0)"
  by (simp_all add: device_blocked_def waits_def empty_limiter_def usable_def from_b64url_def
      verify_phone_proof_def proof_mac_def session_keys_def hkdf_def Let_def toy_lib_def)

lemma toy_hs_sel [simp]: "e_read toy_hs = example_env ''d1''" "e_secret toy_hs = example_env ''d1''"
  "e_commit toy_hs = example_env ''d1''" "e_random toy_hs = Inr (replicate 32 1)"
  "e_sent_challenge toy_hs" "e_sent_ready toy_hs" "e_now toy_hs = 0" "e_wall toy_hs = 0"
  "e_messages toy_hs = [WsControl, WsText []]" "e_others toy_hs = []"
  "e_before toy_hs = [OpRead (example_env ''d1'')]"
  by (simp_all add: toy_hs_def)

lemma toy_auth:
  "authenticate toy_lib None (Some (IpV4 1)) toy_hs example_registry example_paired g
      (jobj [(''type'', JStr ''auth''), (''v'', JNum (JInt 1)),
       (''deviceId'', JStr ''d1''), (''phoneNonce'', JStr ''n''), (''proof'', JStr ''p'')]) empty_limiter
   = (Inr \<lparr> p_device = toy_device, p_secret = example_secret CHR ''k'' @ example_secret CHR ''p'',
        p_nonce = replicate 32 0, p_pairing = False \<rparr>, empty_limiter)"
  unfolding authenticate_def claimed_id_def jidx_def NONCE_LEN_def Let_def
  by (simp add: toy_key)

lemma toy_read: "read_store (example_env ''d1'') example_paired = (Inr example_registry, example_paired)"
  unfolding read_store_def toy_load by (simp add: example_paired_reg)

lemma toy_seen: "fst (device_seen (example_env ''d1'') ''d1'' ip example_paired) = Inr ()"
  unfolding device_seen_def update_store_def toy_load pure_change_def by simp

lemma toy_handshake:
  "fst (handshake toy_lib None (Some (IpV4 1)) toy_hs empty_limiter example_paired) = Inr toy_session"
proof -
  obtain s where seen: "device_seen (example_env ''d1'') ''d1'' ''192.0.2.7'' example_paired = (Inr (), s)"
    using toy_seen by (metis prod.collapse)
  have "g_shown toy_lib (IpV4 1) = ''192.0.2.7''" by (simp add: toy_lib_def)
  then have "fst (handshake_reply toy_lib (Some (IpV4 1)) toy_hs g
      \<lparr> p_device = toy_device, p_secret = k, p_nonce = n, p_pairing = False \<rparr> ms l example_paired)
      = Inr toy_session" for g k n ms l
    using seen
    by (simp add: handshake_reply_def Let_def finish_session_def toy_session_def
        split: prod.split)
  then show ?thesis
    unfolding handshake_def
    by (simp add: toy_reply toy_auth toy_read Let_def split: prod.split)
      (metis fst_conv)
qed

lemma handshake_authenticates_witness:
  "\<exists>r d. find_device ''d1'' r = Some d \<and> usable d 0 \<and> ss_profile toy_session = d_profile d"
proof -
  obtain l s out where
    "handshake toy_lib None (Some (IpV4 1)) toy_hs empty_limiter example_paired
       = (Inr toy_session, l, s, out)"
    using toy_handshake by (metis prod.collapse)
  from handshake_authenticates [OF this example_run, of example_paired example_paired]
  obtain r d where "find_device (ss_device toy_session) r = Some d" "usable d (e_wall toy_hs)"
    "ss_profile toy_session = d_profile d"
    by (auto simp: toy_read session_of_def)
  then show ?thesis by (auto simp: toy_session_def)
qed

section \<open>A phone that proves nothing learns nothing\<close>

text \<open>
  C24: Whoever cannot prove a key gets the same answer whatever device it claims: the
  challenge and then the close code 4401, whether the device does not exist, was revoked,
  has expired or has another key; nothing else is sent, and the store is as the others have
  left it. The one exception is a device that the limiter holds back for this source,
  answered with 4429 and only if the device exists.
\<close>
theorem unproven_learns_nothing:
  assumes "read_store (e_read env) s0 = (Inr r, s)" "e_random env = Inr g" "e_sent_challenge env"
    and "s1 = fold apply_op (e_before env) s"
    and "reply_of lib env = Some reply" "jidx reply ''type'' = JStr ''auth''" "jidx reply ''v'' = JNum (JInt 1)"
    and "\<And>k pn. map_of (key_files s1) (claimed_id reply) = Some k \<Longrightarrow>
           \<not> proves_key lib g pn reply (claimed_id reply) k"
  shows "\<exists>code l'. handshake lib only source env l s0
      = (Inl code, l', s1, [SentText (jobj [(''type'', JStr ''challenge''), (''v'', JNum (JInt 1)),
          (''gatewayNonce'', JStr (g_b64 lib g)), (''gateway'', JStr (gateway_id r))])])
    \<and> (code = CLOSE_UNAUTHORIZED \<or> code = CLOSE_RATE_LIMITED
        \<and> find_device (claimed_id reply) r \<noteq> None
        \<and> (\<exists>ip. source = Some ip
             \<and> device_blocked l ip (claimed_id reply) (e_now env)))"
proof -
  let ?i = "claimed_id reply"
  obtain ms where ms: "Option.bind (next_text (e_messages env))
      (\<lambda>(t, ms). map_option (\<lambda>v. (v, ms)) (g_parse lib t)) = Some (reply, ms)"
    using assms(5) by (auto simp: reply_of_def bind_eq_Some_conv)
  have no: "\<not> verify_phone_proof (g_mac lib) (derive_keys (g_mac lib) (utf8 k)) g pn ?i mc"
    if "find_device ?i r = Some d" "key_of_kind (e_secret env) d s1 = Some k"
      "Option.bind (as_str (jidx reply ''phoneNonce'')) (from_b64url lib NONCE_LEN) = Some pn"
      "Option.bind (as_str (jidx reply ''proof'')) (from_b64url lib 32) = Some mc" for d k pn mc
  proof
    assume v: "verify_phone_proof (g_mac lib) (derive_keys (g_mac lib) (utf8 k)) g pn ?i mc"
    have "d_id d = ?i" using find_device_Some [OF that(1)] by simp
    then have "proves_key lib g pn reply ?i k" "map_of (key_files s1) ?i = Some k"
      using v that key_of_kind_Some [OF that(2)]
      by (auto simp: proves_key_def verify_phone_proof_def phone_proof_def)
    then show False using assms(8) by blast
  qed
  have "fst (authenticate lib only source env r s1 g reply l) = Inl CLOSE_UNAUTHORIZED
      \<or> fst (authenticate lib only source env r s1 g reply l) = Inl CLOSE_RATE_LIMITED
        \<and> find_device ?i r \<noteq> None
        \<and> (\<exists>ip. source = Some ip \<and> device_blocked l ip ?i (e_now env))"
  proof (cases "find_device ?i r")
    case None
    then show ?thesis
      using assms(6,7) by (simp add: authenticate_def Let_def split: option.split)
  next
    case (Some d)
    then have "d_id d = ?i" using find_device_Some by simp
    then show ?thesis
      using assms(6,7) Some no [OF Some]
      by (auto simp: authenticate_def Let_def filter_opt_def split: option.split)
  qed
  then show ?thesis using assms(1-4) ms
    by (auto simp: handshake_def Let_def split: prod.split sum.split)
qed

definition toy_stranger :: json where
  "toy_stranger = jobj [(''type'', JStr ''auth''), (''v'', JNum (JInt 1)), (''deviceId'', JStr ''d9'')]"

lemma unproven_learns_nothing_witness:
  "fst (handshake (toy_lib\<lparr>g_parse := \<lambda>b. Some toy_stranger\<rparr>) None None toy_hs empty_limiter example_paired)
     = Inl CLOSE_UNAUTHORIZED"
proof -
  let ?lib = "toy_lib\<lparr>g_parse := \<lambda>b. Some toy_stranger\<rparr>"
  have i: "claimed_id toy_stranger = ''d9''"
    by (simp add: claimed_id_def jidx_def toy_stranger_def)
  have "reply_of ?lib toy_hs = Some toy_stranger" by (simp add: reply_of_def)
  moreover have "jidx toy_stranger ''type'' = JStr ''auth''" "jidx toy_stranger ''v'' = JNum (JInt 1)"
    by (simp_all add: jidx_def toy_stranger_def)
  moreover have "read_store (e_read toy_hs) example_paired = (Inr example_registry, example_paired)"
    by (simp add: toy_read)
  moreover have "map_of (key_files example_paired) (claimed_id toy_stranger) = None"
    by (simp add: i example_paired_eq)
  moreover have "example_paired = fold apply_op (e_before toy_hs) example_paired" by (simp add: toy_read)
  ultimately show ?thesis
    using unproven_learns_nothing [of toy_hs example_paired example_registry example_paired
        "replicate 32 1" example_paired ?lib toy_stranger None None empty_limiter]
    by auto
qed

end
