(* ===== verification/Gateway.thy ===== *)
theory Gateway
  imports GatewayHandshake MobilePolicy
begin

text \<open>
  What an authenticated phone can do (\<open>mobile/gateway.rs\<close>): the request loop of one connection
  and the requests it performs on the panel service and the device store. The panel service,
  the capture of a screenshot, the clock and the outcomes of store accesses are in a \<open>gw_env\<close>;
  a request gives its result, the panel calls it made in order, and the gateway's new state.
\<close>


section \<open>State and environment\<close>

record gw_env =
  w_store :: store_env
  w_panel :: "string \<Rightarrow> json \<Rightarrow> string \<Rightarrow> json result"
  w_capture :: "string \<Rightarrow> json result"
  w_now :: nat
  w_version :: string
  w_computer :: string

type_synonym inspections = "((string \<times> string) \<times> nat \<times> json result option) list"

record gateway =
  gw_store :: mobile_store
  gw_shots :: "(string \<times> nat) list"
  gw_inspections :: inspections

text \<open>An action: its result, the panel calls (operation, parameters, profile), the new state.\<close>

type_synonym call = "string \<times> json \<times> string"
type_synonym 'a act = "gateway \<Rightarrow> (refusal + 'a) \<times> call list \<times> gateway"

definition act_ok :: "'a \<Rightarrow> 'a act" where
  "act_ok x g = (Inr x, [], g)"

definition act_err :: "refusal \<Rightarrow> 'a act" where
  "act_err e g = (Inl e, [], g)"

definition act_bind :: "'a act \<Rightarrow> ('a \<Rightarrow> 'b act) \<Rightarrow> 'b act" where
  "act_bind m f g =
     (case m g of
        (Inl e, cs, g1) \<Rightarrow> (Inl e, cs, g1)
      | (Inr x, cs, g1) \<Rightarrow> (case f x g1 of (r, cs', g2) \<Rightarrow> (r, cs @ cs', g2)))"

text \<open>An access to the device store, whose error is refused as \<open>store\<close>.\<close>

definition store_act :: "(mobile_store \<Rightarrow> 'a result \<times> mobile_store) \<Rightarrow> 'a act" where
  "store_act f g =
     (case f (gw_store g) of
        (Inl m, s) \<Rightarrow> (Inl (Refusal ''store'' m), [], g\<lparr>gw_store := s\<rparr>)
      | (Inr x, s) \<Rightarrow> (Inr x, [], g\<lparr>gw_store := s\<rparr>))"

definition panel_error :: "string \<Rightarrow> refusal" where
  "panel_error message = Refusal ''panel'' message"

definition panel_call :: "gw_env \<Rightarrow> string \<Rightarrow> json \<Rightarrow> string \<Rightarrow> json act" where
  "panel_call env op params profile g =
     ((case w_panel env op params profile of Inl m \<Rightarrow> Inl (panel_error m) | Inr v \<Rightarrow> Inr v),
      [(op, params, profile)], g)"

section \<open>Access\<close>

definition device_allows_full_access :: "gw_env \<Rightarrow> string \<Rightarrow> mobile_store \<Rightarrow> bool \<times> mobile_store" where
  "device_allows_full_access env i s =
     (case read_store (w_store env) s of
        (Inl _, s1) \<Rightarrow> (False, s1)
      | (Inr r, s1) \<Rightarrow> (unwrap_or False (map_option d_full_access (find_device i r)), s1))"

definition row_elevated :: "json \<Rightarrow> bool" where
  "row_elevated row \<longleftrightarrow>
     elevated (unwrap_or [] (as_str (jidx row ''agentId'')))
       (as_str (jidx (jidx row ''options'') ''toolAccess'')) (jidx row ''fullAccess'' = JBool True)"

definition require_access :: "gw_env \<Rightarrow> session \<Rightarrow> json \<Rightarrow> unit act" where
  "require_access env sess row g =
     (if \<not> row_elevated row then act_ok () g
      else case device_allows_full_access env (ss_device sess) (gw_store g) of
        (allowed, s) \<Rightarrow>
          (if allowed then act_ok ()
           else act_err (Refusal ''accessTooHigh''
             ''This conversation runs with full access, commands or Pi tools. Allow it for this phone on the computer: chrome-use mobile access <device> full''))
            (g\<lparr>gw_store := s\<rparr>))"

definition row_with :: "string \<Rightarrow> string \<Rightarrow> json \<Rightarrow> json option" where
  "row_with list_name i list =
     Option.bind (as_array (jidx list list_name)) (find (\<lambda>r. jidx r ''id'' = JStr i))"

definition found :: "refusal \<Rightarrow> 'a option \<Rightarrow> 'a act" where
  "found e x = (case x of None \<Rightarrow> act_err e | Some v \<Rightarrow> act_ok v)"

definition conversation_row :: "gw_env \<Rightarrow> string \<Rightarrow> string \<Rightarrow> json act" where
  "conversation_row env profile i =
     act_bind (panel_call env ''conversationList'' (jobj []) profile) (\<lambda>list.
       found (Refusal ''notFound'' ''Conversation was not found in this profile'')
         (row_with ''conversations'' i list))"

definition schedule_row :: "gw_env \<Rightarrow> string \<Rightarrow> string \<Rightarrow> json act" where
  "schedule_row env profile i =
     act_bind (panel_call env ''scheduleList'' (jobj []) profile) (\<lambda>list.
       found (Refusal ''notFound'' ''Schedule not found'') (row_with ''schedules'' i list))"

section \<open>Requests\<close>

text \<open>What is looked up and required before an operation is forwarded.\<close>

definition panel_guard :: "gw_env \<Rightarrow> session \<Rightarrow> string \<Rightarrow> json \<Rightarrow> unit act" where
  "panel_guard env sess op params =
     (let profile = ss_profile sess;
          text = (\<lambda>k. unwrap_or [] (as_str (jidx params k)))
      in if op = ''conversationSend'' \<or> op = ''conversationSendDirect''
            \<or> (op = ''conversationRespond'' \<and> \<not> declines (jidx params ''decision''))
         then act_bind (conversation_row env profile (text ''conversationId'')) (require_access env sess)
         else if op = ''scheduleRun''
         then act_bind (schedule_row env profile (text ''id'')) (require_access env sess)
         else act_ok ())"

definition keep_access :: "string option \<Rightarrow> obj \<Rightarrow> obj" where
  "keep_access current options =
     (if map_of options ''toolAccess'' = None \<or> map_of options ''toolAccess'' = Some JNull
      then (case current of
              Some access \<Rightarrow> obj_insert ''toolAccess'' (JStr access) options
            | None \<Rightarrow> obj_remove ''toolAccess'' options)
      else options)"

definition set_options :: "gw_env \<Rightarrow> session \<Rightarrow> string \<Rightarrow> obj \<Rightarrow> json act" where
  "set_options env sess i options0 =
     act_bind (conversation_row env (ss_profile sess) i) (\<lambda>row.
     act_bind (require_access env sess row) (\<lambda>_.
       let agent = unwrap_or [] (as_str (jidx row ''agentId''));
           full = (jidx row ''fullAccess'' = JBool True);
           current_access = as_str (jidx (jidx row ''options'') ''toolAccess'');
           options = keep_access current_access options0;
           current = effective_rank agent current_access full;
           requested = effective_rank agent (Option.bind (map_of options ''toolAccess'') as_str) full
       in if current < requested
          then act_err (Refusal ''denied'' ''The phone cannot raise a conversation's tool access'')
          else if agent = ''pi'' \<and> 0 < requested
          then act_err (Refusal ''denied''
            ''Pi runs tools without asking, so from the phone it gets browser tools only (browserOnly)'')
          else panel_call env ''conversationSetOptions''
                 (jobj [(''conversationId'', JStr i), (''options'', JObj options)]) (ss_profile sess)))"

definition schedule_toggle :: "gw_env \<Rightarrow> session \<Rightarrow> string \<Rightarrow> bool \<Rightarrow> json act" where
  "schedule_toggle env sess i enabled =
     act_bind (panel_call env ''scheduleList'' (jobj []) (ss_profile sess)) (\<lambda>list.
     act_bind (found (Refusal ''notFound'' ''Schedule not found; the phone cannot create schedules'')
                (row_with ''schedules'' i list)) (\<lambda>row.
     act_bind (if enabled then require_access env sess row else act_ok ()) (\<lambda>_.
       panel_call env ''scheduleSave'' (jobj [(''id'', JStr i), (''enabled'', JBool enabled)])
         (ss_profile sess))))"

definition SCREENSHOT_INTERVAL :: nat where "SCREENSHOT_INTERVAL = 2000"
definition INSPECT_INTERVAL :: nat where "INSPECT_INTERVAL = 30000"

definition screenshot :: "gw_env \<Rightarrow> session \<Rightarrow> string \<Rightarrow> json act" where
  "screenshot env sess i g =
     (let recent = (\<lambda>at. w_now env - at < SCREENSHOT_INTERVAL)
      in if unwrap_or False (map_option recent (map_of (gw_shots g) i))
         then act_err (Refusal ''rateLimited'' ''One screenshot per conversation every 2 seconds'') g
         else act_bind (conversation_row env (ss_profile sess) i) (\<lambda>_.
                (case w_capture env i of
                   Inl m \<Rightarrow> act_err (Refusal ''screenshot'' m)
                 | Inr v \<Rightarrow> act_ok v))
              (g\<lparr>gw_shots := AList.update i (w_now env)
                   (filter (\<lambda>(c, at). recent at) (gw_shots g))\<rparr>))"

definition inspect :: "gw_env \<Rightarrow> session \<Rightarrow> string \<Rightarrow> json act" where
  "inspect env sess agent g =
     (let profile = ss_profile sess; key = (profile, agent);
          kept = filter (\<lambda>(k, at, r). w_now env - at < INSPECT_INTERVAL) (gw_inspections g);
          g0 = g\<lparr>gw_inspections := kept\<rparr>
      in case map_of kept key of
           Some (_, Some (Inr v)) \<Rightarrow> act_ok v g0
         | Some (_, Some (Inl m)) \<Rightarrow> act_err (panel_error m) g0
         | Some (_, None) \<Rightarrow>
             act_err (Refusal ''rateLimited'' ''This agent is already being inspected'') g0
         | None \<Rightarrow>
             (let params = jobj [(''agentId'', JStr agent)];
                  r = w_panel env ''agentInspect'' params profile
              in panel_call env ''agentInspect'' params profile
                   (g0\<lparr>gw_inspections := AList.update key (w_now env, Some r)
                         (AList.update key (w_now env, None) kept)\<rparr>)))"

definition hello :: "gw_env \<Rightarrow> session \<Rightarrow> json act" where
  "hello env sess =
     act_bind (store_act (read_store (w_store env))) (\<lambda>r.
       let d = find_device (ss_device sess) r
       in act_ok (jobj [(''computerName'', JStr (w_computer env)),
            (''gatewayVersion'', JStr (w_version env)),
            (''pushMutes'', JArr (map JStr (unwrap_or [] (map_option d_muted d)))),
            (''fullAccessAllowed'', JBool (unwrap_or False (map_option d_full_access d)))]))"

text \<open>\<open>subscribe\<close> and \<open>unsubscribe\<close> are answered by the loop and never come here; the
  code's \<open>unreachable!\<close> is the refusal of the last two equations.\<close>

fun perform :: "gw_env \<Rightarrow> session \<Rightarrow> phone_action \<Rightarrow> json act" where
  "perform env sess (Panel op params) =
     act_bind (panel_guard env sess op params) (\<lambda>_. panel_call env op params (ss_profile sess))"
| "perform env sess (SetOptions i options) = set_options env sess i options"
| "perform env sess (ScheduleToggle i enabled) = schedule_toggle env sess i enabled"
| "perform env sess (PushRegister token) =
     act_bind (store_act (register_token (w_store env) (ss_device sess) token)) (\<lambda>r.
       act_ok (case r of
         Some reason \<Rightarrow> jobj [(''registered'', JBool False), (''reason'', JStr reason)]
       | None \<Rightarrow> jobj [(''registered'', JBool True)]))"
| "perform env sess PushUnregister =
     act_bind (store_act (clear_relay_token (w_store env) (ss_device sess))) (\<lambda>_.
       act_ok (jobj [(''registered'', JBool False)]))"
| "perform env sess Hello = hello env sess"
| "perform env sess (PushMute i muted) =
     act_bind (store_act (set_mute (w_store env) (ss_device sess) i muted)) (\<lambda>all.
       act_ok (jobj [(''conversationId'', JStr i), (''muted'', JBool muted),
         (''pushMutes'', JArr (map JStr all))]))"
| "perform env sess (Inspect agent) = inspect env sess agent"
| "perform env sess (Screenshot i) = screenshot env sess i"
| "perform env sess (Subscribe i after) = act_err (Refusal ''unreachable'' ''handled inline'')"
| "perform env sess (Unsubscribe i) = act_err (Refusal ''unreachable'' ''handled inline'')"

section \<open>Which calls a request makes\<close>

named_theorems act_simps \<open>results of actions\<close>

lemma act_bind_calls:
  "act_bind m f g = (r, cs, g') \<longleftrightarrow>
     (\<exists>e. m g = (Inl e, cs, g') \<and> r = Inl e)
     \<or> (\<exists>x cs1 g1 cs2. m g = (Inr x, cs1, g1) \<and> f x g1 = (r, cs2, g') \<and> cs = cs1 @ cs2)"
  by (auto simp: act_bind_def split: prod.splits sum.splits)

lemma act_ok_iff [act_simps]: "act_ok x g = (r, cs, g') \<longleftrightarrow> r = Inr x \<and> cs = [] \<and> g' = g"
  by (auto simp: act_ok_def)

lemma act_err_iff [act_simps]: "act_err e g = (r, cs, g') \<longleftrightarrow> r = Inl e \<and> cs = [] \<and> g' = g"
  by (auto simp: act_err_def)

lemma panel_call_iff [act_simps]:
  "panel_call env op params profile g = (r, cs, g') \<longleftrightarrow> cs = [(op, params, profile)] \<and> g' = g
     \<and> r = (case w_panel env op params profile of Inl m \<Rightarrow> Inl (panel_error m) | Inr v \<Rightarrow> Inr v)"
  by (auto simp: panel_call_def)

lemma found_iff [act_simps]:
  "found e x g = (r, cs, g') \<longleftrightarrow> cs = [] \<and> g' = g \<and> ok_or e x = r"
  by (auto simp: found_def act_err_def act_ok_def split: option.split)

lemma store_act_calls: "store_act f g = (r, cs, g') \<Longrightarrow> cs = []"
  by (auto simp: store_act_def split: prod.splits sum.splits)

text \<open>The rows a request is judged by, as the panel service lists them.\<close>

definition listed_row :: "gw_env \<Rightarrow> string \<Rightarrow> string \<Rightarrow> string \<Rightarrow> string \<Rightarrow> json \<Rightarrow> bool" where
  "listed_row env profile operation list_name i row \<longleftrightarrow>
     (\<exists>list. w_panel env operation (jobj []) profile = Inr list \<and> row_with list_name i list = Some row)"

lemma conversation_row_iff:
  "conversation_row env profile i g = (r, cs, g') \<Longrightarrow>
     g' = g \<and> cs = [(''conversationList'', jobj [], profile)]
     \<and> (\<forall>row. r = Inr row \<longrightarrow> listed_row env profile ''conversationList'' ''conversations'' i row)"
  by (auto simp: conversation_row_def act_bind_calls act_simps listed_row_def split: sum.splits)

lemma schedule_row_iff:
  "schedule_row env profile i g = (r, cs, g') \<Longrightarrow>
     g' = g \<and> cs = [(''scheduleList'', jobj [], profile)]
     \<and> (\<forall>row. r = Inr row \<longrightarrow> listed_row env profile ''scheduleList'' ''schedules'' i row)"
  by (auto simp: schedule_row_def act_bind_calls act_simps listed_row_def split: sum.splits)

text \<open>What the device may do with a row.\<close>

definition may_use :: "gw_env \<Rightarrow> session \<Rightarrow> mobile_store \<Rightarrow> json \<Rightarrow> bool" where
  "may_use env sess s row \<longleftrightarrow>
     (row_elevated row \<longrightarrow> fst (device_allows_full_access env (ss_device sess) s))"

lemma require_access_iff:
  "require_access env sess row g = (r, cs, g') \<Longrightarrow>
     cs = [] \<and> (r = Inr () \<longrightarrow> may_use env sess (gw_store g) row)"
  by (auto simp: require_access_def act_simps may_use_def split: if_split_asm prod.split_asm)

text \<open>
  \<open>permitted\<close> says what must hold of a panel call: it is for the device's profile, and if it
  starts work, the conversation or schedule was listed there and the device may use it.
\<close>

definition permitted_row ::
  "gw_env \<Rightarrow> session \<Rightarrow> mobile_store \<Rightarrow> string \<Rightarrow> string \<Rightarrow> string \<Rightarrow> bool" where
  "permitted_row env sess s operation list_name i \<longleftrightarrow>
     (\<exists>row. listed_row env (ss_profile sess) operation list_name i row \<and> may_use env sess s row)"

definition permitted :: "gw_env \<Rightarrow> session \<Rightarrow> mobile_store \<Rightarrow> call \<Rightarrow> bool" where
  "permitted env sess s c =
     (case c of (op, params, profile) \<Rightarrow>
        profile = ss_profile sess
      \<and> (op \<in> {''conversationSend'', ''conversationSendDirect'', ''conversationSetOptions''}
         \<or> op = ''conversationRespond'' \<and> \<not> declines (jidx params ''decision'') \<longrightarrow>
           permitted_row env sess s ''conversationList'' ''conversations''
             (unwrap_or [] (as_str (jidx params ''conversationId''))))
      \<and> (op = ''scheduleRun'' \<or> op = ''scheduleSave'' \<and> jidx params ''enabled'' \<noteq> JBool False \<longrightarrow>
           permitted_row env sess s ''scheduleList'' ''schedules''
             (unwrap_or [] (as_str (jidx params ''id'')))))"

text \<open>Operations that only read, or that act on nothing a phone could not start.\<close>

lemma permitted_plain:
  "op \<notin> {''conversationSend'', ''conversationSendDirect'', ''conversationSetOptions'',
          ''conversationRespond'', ''scheduleRun'', ''scheduleSave''} \<Longrightarrow>
     permitted env sess s (op, params, ss_profile sess)"
  by (simp add: permitted_def)

lemma permitted_lists [simp]:
  "permitted env sess s (''conversationList'', params, ss_profile sess)"
  "permitted env sess s (''scheduleList'', params, ss_profile sess)"
  "permitted env sess s (''agentInspect'', params, ss_profile sess)"
  by (rule permitted_plain, simp)+

lemma access_to_row:
  assumes "act_bind (conversation_row env (ss_profile sess) i) (require_access env sess) g = (r, cs, g')"
  shows "(\<forall>c \<in> set cs. permitted env sess (gw_store g) c)
    \<and> (r = Inr () \<longrightarrow> permitted_row env sess (gw_store g) ''conversationList'' ''conversations'' i)"
  using assms unfolding act_bind_calls permitted_row_def
  by (elim disjE exE conjE) (auto dest!: conversation_row_iff require_access_iff)

lemma access_to_schedule:
  assumes "act_bind (schedule_row env (ss_profile sess) i) (require_access env sess) g = (r, cs, g')"
  shows "(\<forall>c \<in> set cs. permitted env sess (gw_store g) c)
    \<and> (r = Inr () \<longrightarrow> permitted_row env sess (gw_store g) ''scheduleList'' ''schedules'' i)"
  using assms unfolding act_bind_calls permitted_row_def
  by (elim disjE exE conjE) (auto dest!: schedule_row_iff require_access_iff)

lemma panel_guard_permitted:
  assumes "panel_guard env sess op params g = (r, cs, g')"
  shows "(\<forall>c \<in> set cs. permitted env sess (gw_store g) c)
    \<and> (r = Inr () \<longrightarrow> op \<noteq> ''scheduleSave'' \<longrightarrow> op \<noteq> ''conversationSetOptions'' \<longrightarrow>
         permitted env sess (gw_store g) (op, params, ss_profile sess))"
proof -
  consider (conversation) "op = ''conversationSend'' \<or> op = ''conversationSendDirect''
      \<or> (op = ''conversationRespond'' \<and> \<not> declines (jidx params ''decision''))"
    | (schedule) "op = ''scheduleRun''"
    | (declined) "op = ''conversationRespond''" "declines (jidx params ''decision'')"
    | (plain) "op \<notin> {''conversationSend'', ''conversationSendDirect'', ''conversationRespond'', ''scheduleRun''}"
    by blast
  then show ?thesis
  proof cases
    case conversation
    then have "act_bind (conversation_row env (ss_profile sess)
        (unwrap_or [] (as_str (jidx params ''conversationId'')))) (require_access env sess) g = (r, cs, g')"
      using assms by (simp add: panel_guard_def Let_def)
    from access_to_row [OF this] conversation show ?thesis by (auto simp: permitted_def)
  next
    case schedule
    then have "act_bind (schedule_row env (ss_profile sess)
        (unwrap_or [] (as_str (jidx params ''id'')))) (require_access env sess) g = (r, cs, g')"
      using assms by (simp add: panel_guard_def Let_def)
    from access_to_schedule [OF this] schedule show ?thesis by (auto simp: permitted_def)
  next
    case declined
    then have "cs = []" using assms by (simp add: panel_guard_def Let_def act_simps)
    then show ?thesis using declined by (simp add: permitted_def)
  next
    case plain
    then have "cs = []" using assms by (auto simp: panel_guard_def Let_def act_simps)
    moreover have "permitted env sess (gw_store g) (op, params, ss_profile sess)"
      if "op \<noteq> ''scheduleSave''" "op \<noteq> ''conversationSetOptions''"
      by (rule permitted_plain) (use plain that in simp)
    ultimately show ?thesis by simp
  qed
qed

lemma panel_permitted:
  assumes "perform env sess (Panel op params) g = (r, cs, g')"
    and "op \<noteq> ''scheduleSave''" "op \<noteq> ''conversationSetOptions''" "c \<in> set cs"
  shows "permitted env sess (gw_store g) c"
  using assms(1) unfolding perform.simps act_bind_calls
proof (elim disjE exE conjE)
  fix e assume "panel_guard env sess op params g = (Inl e, cs, g')"
  then show ?thesis using panel_guard_permitted assms(4) by blast
next
  fix x cs1 g1 cs2
  assume "panel_guard env sess op params g = (Inr x, cs1, g1)" "cs = cs1 @ cs2"
    "panel_call env op params (ss_profile sess) g1 = (r, cs2, g')"
  then show ?thesis using panel_guard_permitted assms(2-4) by (fastforce simp: act_simps)
qed

text \<open>The options sent to the panel, once the access they ask for has been compared.\<close>

definition options_bounded :: "json \<Rightarrow> obj \<Rightarrow> bool" where
  "options_bounded row options \<longleftrightarrow>
     (let agent = unwrap_or [] (as_str (jidx row ''agentId''));
          full = (jidx row ''fullAccess'' = JBool True);
          asked = effective_rank agent (Option.bind (map_of options ''toolAccess'') as_str) full
      in asked \<le> effective_rank agent (as_str (jidx (jidx row ''options'') ''toolAccess'')) full
         \<and> (agent = ''pi'' \<longrightarrow> asked = 0))"

lemma set_options_calls:
  assumes "set_options env sess i options0 g = (r, cs, g')"
  shows "cs = [(''conversationList'', jobj [], ss_profile sess)]
    \<or> (\<exists>row options. listed_row env (ss_profile sess) ''conversationList'' ''conversations'' i row
         \<and> may_use env sess (gw_store g) row \<and> options_bounded row options
         \<and> (\<forall>k. k \<noteq> ''toolAccess'' \<longrightarrow> map_of options k = map_of options0 k)
         \<and> cs = [(''conversationList'', jobj [], ss_profile sess), (''conversationSetOptions'',
              jobj [(''conversationId'', JStr i), (''options'', JObj options)], ss_profile sess)])"
proof -
  have keep: "\<forall>k. k \<noteq> ''toolAccess'' \<longrightarrow> map_of (keep_access a options0) k = map_of options0 k" for a
    by (auto simp: keep_access_def map_of_obj_insert map_of_obj_remove split: option.split)
  from assms show ?thesis
    unfolding set_options_def act_bind_calls
  proof (elim disjE exE conjE)
    fix row cs1 g1 cs2 x cs3 g2 cs4
    assume row: "conversation_row env (ss_profile sess) i g = (Inr row, cs1, g1)"
      and acc: "require_access env sess row g1 = (Inr x, cs3, g2)"
      and rest: "(let agent = unwrap_or [] (as_str (jidx row ''agentId''));
           full = (jidx row ''fullAccess'' = JBool True);
           current_access = as_str (jidx (jidx row ''options'') ''toolAccess'');
           options = keep_access current_access options0;
           current = effective_rank agent current_access full;
           requested = effective_rank agent (Option.bind (map_of options ''toolAccess'') as_str) full
       in if current < requested
          then act_err (Refusal ''denied'' ''The phone cannot raise a conversation's tool access'')
          else if agent = ''pi'' \<and> 0 < requested
          then act_err (Refusal ''denied''
            ''Pi runs tools without asking, so from the phone it gets browser tools only (browserOnly)'')
          else panel_call env ''conversationSetOptions''
                 (jobj [(''conversationId'', JStr i), (''options'', JObj options)]) (ss_profile sess)) g2
          = (r, cs4, g')"
      and cs: "cs = cs1 @ cs2" "cs2 = cs3 @ cs4"
    note r = conversation_row_iff [OF row] and a = require_access_iff [OF acc]
    let ?options = "keep_access (as_str (jidx (jidx row ''options'') ''toolAccess'')) options0"
    have "cs4 = [] \<or> options_bounded row ?options \<and> cs4 = [(''conversationSetOptions'',
        jobj [(''conversationId'', JStr i), (''options'', JObj ?options)], ss_profile sess)]"
      using rest by (auto simp: Let_def act_simps options_bounded_def split: if_split_asm)
    then show ?thesis
    proof
      assume "cs4 = []"
      then show ?thesis using r a cs by simp
    next
      assume "options_bounded row ?options \<and> cs4 = [(''conversationSetOptions'',
        jobj [(''conversationId'', JStr i), (''options'', JObj ?options)], ss_profile sess)]"
      then show ?thesis
        using r a cs keep by (intro disjI2 exI [of _ row] exI [of _ ?options]) simp
    qed
  qed (auto dest!: conversation_row_iff require_access_iff)
qed

lemma set_options_permitted:
  assumes "set_options env sess i options0 g = (r, cs, g')" "c \<in> set cs"
  shows "permitted env sess (gw_store g) c"
  using set_options_calls [OF assms(1)]
proof (elim disjE exE conjE)
  fix row options
  assume "listed_row env (ss_profile sess) ''conversationList'' ''conversations'' i row"
    "may_use env sess (gw_store g) row"
    "cs = [(''conversationList'', jobj [], ss_profile sess), (''conversationSetOptions'',
       jobj [(''conversationId'', JStr i), (''options'', JObj options)], ss_profile sess)]"
  then show ?thesis
    using assms(2) by (auto simp: permitted_def permitted_row_def jidx_def)
qed (use assms(2) in simp)

lemma schedule_toggle_permitted:
  assumes "schedule_toggle env sess i enabled g = (r, cs, g')" "c \<in> set cs"
  shows "permitted env sess (gw_store g) c"
  using assms(1) unfolding schedule_toggle_def act_bind_calls
proof (elim disjE exE conjE)
  fix list cs1 g1 cs2 row cs3 g2 cs4 x cs5 g3 cs6
  assume l: "panel_call env ''scheduleList'' (jobj []) (ss_profile sess) g = (Inr list, cs1, g1)"
    and f: "found (Refusal ''notFound'' ''Schedule not found; the phone cannot create schedules'')
      (row_with ''schedules'' i list) g1 = (Inr row, cs3, g2)"
    and a: "(if enabled then require_access env sess row else act_ok ()) g2 = (Inr x, cs5, g3)"
    and p: "panel_call env ''scheduleSave'' (jobj [(''id'', JStr i), (''enabled'', JBool enabled)])
      (ss_profile sess) g3 = (r, cs6, g')"
    and cs: "cs = cs1 @ cs2" "cs2 = cs3 @ cs4" "cs4 = cs5 @ cs6"
  have "listed_row env (ss_profile sess) ''scheduleList'' ''schedules'' i row" "g2 = g"
    using l f by (auto simp: act_simps listed_row_def split: sum.split_asm)
  moreover have "cs5 = [] \<and> (enabled \<longrightarrow> may_use env sess (gw_store g2) row)"
    using a by (auto simp: act_simps dest: require_access_iff split: if_split_asm)
  ultimately show ?thesis
    using l f p cs assms(2)
    by (auto simp: act_simps permitted_def permitted_row_def jidx_def)
qed (use assms(2) in \<open>auto simp: act_simps dest: require_access_iff split: if_split_asm sum.split_asm\<close>)

lemma other_permitted:
  assumes "perform env sess a g = (r, cs, g')" "c \<in> set cs"
    and "\<And>op params. a \<noteq> Panel op params"
  shows "permitted env sess (gw_store g) c"
proof (cases a)
  case (Panel op params)
  then show ?thesis using assms(3) by blast
next
  case (SetOptions i options)
  then show ?thesis using assms(1,2) set_options_permitted by simp
next
  case (ScheduleToggle i enabled)
  then show ?thesis using assms(1,2) schedule_toggle_permitted by simp
next
  case (Inspect agent)
  then show ?thesis
    using assms(1,2)
    by (auto simp: inspect_def Let_def act_simps split: option.split_asm sum.split_asm)
next
  case (Screenshot i)
  then show ?thesis
    using assms(1,2)
    by (auto simp: screenshot_def Let_def act_bind_calls act_simps dest!: conversation_row_iff
        split: if_split_asm sum.split_asm)
next
  case (PushRegister token)
  then show ?thesis
    using assms(1,2) by (auto simp: act_bind_calls act_simps dest!: store_act_calls)
next
  case PushUnregister
  then show ?thesis
    using assms(1,2) by (auto simp: act_bind_calls act_simps dest!: store_act_calls)
next
  case Hello
  then show ?thesis
    using assms(1,2) by (auto simp: act_bind_calls act_simps hello_def Let_def dest!: store_act_calls)
next
  case (PushMute i muted)
  then show ?thesis
    using assms(1,2) by (auto simp: act_bind_calls act_simps dest!: store_act_calls)
qed (use assms(1,2) in \<open>simp_all add: act_simps\<close>)

lemma no_panel_set:
  assumes "phone_check uuid op params = Inr (Panel cop cparams)"
  shows "cop \<noteq> ''scheduleSave'' \<and> cop \<noteq> ''conversationSetOptions''"
proof -
  have c: "cop = op"
    using accepts_onlyD [OF phone_check_closed assms] by (simp add: closed_panel_def)
  have "phone_check uuid ''scheduleSave'' params = check_schedule_save uuid ''scheduleSave'' params"
    "phone_check uuid ''conversationSetOptions'' params = check_set_options uuid ''conversationSetOptions'' params"
    by (simp_all add: phone_check_def)
  moreover have "check_schedule_save uuid op params \<noteq> Inr (Panel cop cparams)"
    "check_set_options uuid op params \<noteq> Inr (Panel cop cparams)"
    unfolding check_schedule_save_def check_set_options_def and_then_Inr_iff
    by (simp_all only: sum.inject phone_action.distinct HOL.simp_thms)
  ultimately show ?thesis using c assms by metis
qed

lemma action_permitted:
  assumes "phone_check uuid op params = Inr action"
    and "perform env sess action g = (r, calls, g')" "c \<in> set calls"
  shows "permitted env sess (gw_store g) c"
proof (cases "\<exists>cop cparams. action = Panel cop cparams")
  case True
  then show ?thesis using panel_permitted no_panel_set assms by blast
next
  case False
  then show ?thesis using other_permitted [OF assms(2,3)] by blast
qed

text \<open>
  C8: Whatever an authenticated phone sends, each panel call made for it is for its own
  profile, and a call that starts work (sending to a conversation, approving a request,
  changing its options, running a schedule or turning it on) is made only for a conversation
  or schedule that the panel lists in that profile, and only if that one stays within what a
  phone may start, or the computer allowed this phone full access, as the store says at that
  moment.
\<close>
theorem phone_acts_within_access:
  assumes "phone_check (g_uuid lib) op params = Inr action"
    and "perform env sess action g = (r, calls, g')" "c \<in> set calls"
  shows "permitted env sess (gw_store g) c"
  using action_permitted [OF assms] .

definition toy_row :: json where
  "toy_row = jobj [(''id'', JStr ''u1''), (''agentId'', JStr ''claude''),
     (''options'', jobj [(''toolAccess'', JStr ''writeFiles'')])]"

definition toy_gw_env :: gw_env where
  "toy_gw_env = \<lparr> w_store = example_env ''d1'',
     w_panel = (\<lambda>op params profile. Inr (jobj [(''conversations'', JArr [toy_row])])),
     w_capture = (\<lambda>i. Inr JNull), w_now = 0, w_version = ''1.0'', w_computer = ''Mac'' \<rparr>"

definition toy_gateway :: gateway where
  "toy_gateway = \<lparr> gw_store = \<lparr> reg_file = NoFile, key_files = [] \<rparr>, gw_shots = [],
     gw_inspections = [] \<rparr>"

definition toy_send :: json where
  "toy_send = jobj [(''conversationId'', JStr ''u1''), (''messageId'', JStr ''m1''), (''text'', JStr ''hi'')]"

lemma toy_send_check: "phone_check (g_uuid toy_lib) ''conversationSend'' toy_send
    = Inr (Panel ''conversationSend'' toy_send)"
  by code_simp

lemma toy_send_calls: "fst (snd (perform toy_gw_env toy_session (Panel ''conversationSend'' toy_send) toy_gateway))
    = [(''conversationList'', jobj [], ''profile-1''), (''conversationSend'', toy_send, ''profile-1'')]"
  by code_simp

lemma phone_acts_within_access_witness:
  "permitted toy_gw_env toy_session (gw_store toy_gateway) (''conversationSend'', toy_send, ''profile-1'')"
proof -
  obtain r g' where "perform toy_gw_env toy_session (Panel ''conversationSend'' toy_send) toy_gateway
      = (r, [(''conversationList'', jobj [], ''profile-1''), (''conversationSend'', toy_send, ''profile-1'')], g')"
    using toy_send_calls by (metis prod.collapse)
  from phone_acts_within_access [OF toy_send_check this] show ?thesis by simp
qed

text \<open>
  C11: A phone never raises a conversation's tool access: the options it has set on a
  conversation, completed with the access that was in force where it names none, give at
  most the access the panel lists for that conversation, none at all for Pi; every other
  option is sent as it came.
\<close>
theorem options_never_raised:
  assumes "perform env sess (SetOptions i options0) g = (r, calls, g')"
    and "(''conversationSetOptions'', params, profile) \<in> set calls"
  shows "\<exists>row options. listed_row env (ss_profile sess) ''conversationList'' ''conversations'' i row
    \<and> params = jobj [(''conversationId'', JStr i), (''options'', JObj options)]
    \<and> options_bounded row options
    \<and> (\<forall>k. k \<noteq> ''toolAccess'' \<longrightarrow> map_of options k = map_of options0 k)"
proof -
  have "set_options env sess i options0 g = (r, calls, g')" using assms(1) by simp
  from set_options_calls [OF this] show ?thesis
  proof (elim disjE exE conjE)
    fix row options
    assume "calls = [(''conversationList'', jobj [], ss_profile sess), (''conversationSetOptions'',
         jobj [(''conversationId'', JStr i), (''options'', JObj options)], ss_profile sess)]"
      and row: "listed_row env (ss_profile sess) ''conversationList'' ''conversations'' i row"
        "options_bounded row options"
        "\<forall>k. k \<noteq> ''toolAccess'' \<longrightarrow> map_of options k = map_of options0 k"
    then have "params = jobj [(''conversationId'', JStr i), (''options'', JObj options)]"
      using assms(2) by auto
    then show ?thesis using row by (intro exI [of _ row] exI [of _ options]) simp
  qed (use assms(2) in simp)
qed

lemma toy_options_calls:
  "fst (snd (perform toy_gw_env toy_session (SetOptions ''u1'' [(''effort'', JStr ''high'')]) toy_gateway))
    = [(''conversationList'', jobj [], ''profile-1''), (''conversationSetOptions'',
        jobj [(''conversationId'', JStr ''u1''),
          (''options'', JObj [(''effort'', JStr ''high''), (''toolAccess'', JStr ''writeFiles'')])], ''profile-1'')]"
  by code_simp

lemma options_never_raised_witness:
  "\<exists>row. listed_row toy_gw_env ''profile-1'' ''conversationList'' ''conversations'' ''u1'' row"
proof -
  obtain r g' where
    "perform toy_gw_env toy_session (SetOptions ''u1'' [(''effort'', JStr ''high'')]) toy_gateway
      = (r, [(''conversationList'', jobj [], ''profile-1''), (''conversationSetOptions'',
        jobj [(''conversationId'', JStr ''u1''),
          (''options'', JObj [(''effort'', JStr ''high''), (''toolAccess'', JStr ''writeFiles'')])], ''profile-1'')], g')"
    using toy_options_calls by (metis prod.collapse)
  from options_never_raised [OF this] show ?thesis
    by (auto simp: toy_session_def)
qed

end
