(* ===== verification/GatewaySession.thy ===== *)
theory GatewaySession
  imports Gateway "HOL-Library.Sublist"
begin

text \<open>
  The loop of one authenticated connection, \<open>run_session\<close> of \<open>mobile/gateway.rs\<close>: frames are
  opened in order, parsed, checked by the phone policy and answered or handed to a task. An
  event is what the loop waits for; with a frame come the outcome of waiting for a request slot
  and the subscriptions whose task has finished.
\<close>


section \<open>The loop\<close>




datatype out =
    Reply json
  | Run json phone_action
  | Follow string nat
  | Abort string


definition gw_refused :: "json \<Rightarrow> refusal \<Rightarrow> json" where
  "gw_refused i r =
     jobj [(''id'', i), (''error'', jobj [(''code'', JStr (refusal_code r)),
       (''message'', JStr (refusal_message r))])]"

text \<open>What a request's task answers.\<close>

definition job_reply :: "json \<Rightarrow> refusal + json \<Rightarrow> json" where
  "job_reply i res =
     (case res of Inr v \<Rightarrow> jobj [(''id'', i), (''result'', v)] | Inl r \<Rightarrow> gw_refused i r)"








section \<open>Subscriptions are bounded\<close>





section \<open>Requests are performed at most once, in order\<close>

fun runs :: "out list \<Rightarrow> (json \<times> phone_action) list" where
  "runs [] = []"
| "runs (Run i a # os) = (i, a) # runs os"
| "runs (_ # os) = runs os"

lemma runs_append [simp]: "runs (xs @ ys) = runs xs @ runs ys"
  by (induction xs rule: runs.induct) auto

lemma runs_aborts [simp]: "runs (map Abort xs) = []"
  by (induction xs) auto






















end
