(* ===== verification/Spec2Isabelle.thy ===== *)
theory Spec2Isabelle
  imports SitePolicy ActionPolicy MobilePolicy HandoffWait MobileStore MobileCrypto RelayProps TrackedRequests PageReloads Expect CommandProps Approval GatewaySession
begin

text \<open>
  A model of \<^bold>\<open>chrome-use\<close>, the command-line tool (\<open>cli/src\<close>, Rust) that lets coding
  agents work in the user's own Chrome, and the theorems that make its parts correct.

  \<^bold>\<open>The program.\<close> A command line (\<open>main.rs\<close>, \<open>commands.rs\<close>) is parsed to a JSON command and sent
  to the session's daemon (\<open>native/daemon.rs\<close>), which dispatches it by its action
  (\<open>native/actions.rs\<close>) to handlers that talk to Chrome over CDP, directly or through a relay
  (\<open>native/relay.rs\<close>) shared by the daemons and the browser extension. Before a command is sent the
  session's owner is checked (\<open>ownership.rs\<close>); before an action runs, the action policy and the
  site policy are (\<open>native/policy.rs\<close>, \<open>native/site_policy.rs\<close>). The agent panel
  (\<open>agent_panel\<close>) hosts the agents and answers their approval requests; a paired phone reaches it
  through the gateway of \<open>mobile\<close>.

  \<^bold>\<open>Theories.\<close>
  \<^item> \<open>Prelude\<close>: results with an error side (\<open>'a result\<close>), Rust strings as UTF-8 bytes, and three
    locales. \<open>kv_store\<close> is a map with insert and remove; the association lists of the relay and of
    the device store and the JSON objects of \<open>Json\<close> interpret it. \<open>bounded_log\<close> and its extension
    \<open>total_log\<close> are logs that keep their newest entries; the daemon's log of page reloads and its
    log of requests interpret them.
  \<^item> \<open>Json\<close>, \<open>Url\<close>: \<open>serde_json\<close> values, and what the code reads of a parsed URL.
  \<^item> \<open>SitePolicy\<close>, \<open>ActionPolicy\<close>: field kinds, host patterns, the layered decision; the
    deny, confirm and allow lists.
  \<^item> \<open>Ownership\<close>, \<open>HandoffWait\<close>: the owner sidecar with handoff, resume and guard; the polling
    loop of \<open>session handoff --wait\<close>.
  \<^item> \<open>MobilePolicy\<close>, \<open>MobileStore\<close>, \<open>MobileCrypto\<close>: what a phone may ask for, the paired
    devices and their key files, the handshake proofs and the encrypted channel.
  \<^item> \<open>Relay\<close>, \<open>RelayExt\<close>, \<open>RelayProps\<close>: the relay's state, its client commands, the messages of the
    extension, and what holds over any sequence of both (\<open>relay_run\<close>).
  \<^item> \<open>TrackedRequests\<close>, \<open>PageReloads\<close>: the daemon's two logs and the handlers that read them.
  \<^item> \<open>CommandLine\<close>, \<open>PageCommands\<close>, \<open>SessionCommands\<close>, \<open>CommandProps\<close>: the lexical layer of
    the command line, two families of parsers, and what holds of every command they accept.
  \<^item> \<open>Expect\<close>: the assertion verb from its words to its verdict.
  \<^item> \<open>Approval\<close>: the answers given to an agent's approval request.

  \<^bold>\<open>Correspondence.\<close> A Rust struct is a record, an enum a datatype, a \<open>Result\<close> a sum with the
  error on the left, an early return a branch. A function that changes \<open>&mut self\<close> returns the
  changed record. Definitions keep the names of the source; a longer function is split along its
  arms, and the split is composed again in the definition that carries the function's name.
  Time, randomness, the file system, the browser's answers and crates (URL and UUID parsers,
  regular expressions, HMAC, AES-GCM) are arguments: records of outcomes (\<open>store_env\<close>,
  \<open>tick\<close>, \<open>page_view\<close>) or functions, over all of which the theorems quantify. Where a theorem
  needs more of one (that decryption undoes encryption, say), this is a premise with a witness.

  \<^bold>\<open>What the lemmas show.\<close> For each state: an invariant that every operation keeps
  (\<open>store_invariant\<close>, \<open>relay_invariant\<close>) and what may not happen in any run
  (\<open>pairing_one_shot\<close>, \<open>reply_only_to_asker\<close>, \<open>handoff_holds\<close>, \<open>replay_refused\<close>,
  \<open>nonces_never_repeat\<close>). For each decision: exactly when it falls which way (\<open>decide_deny_iff\<close>,
  \<open>check_allow_iff\<close>, \<open>expect_end_to_end\<close>, \<open>request_detail_errors\<close>). For optimised code:
  equality with a reference (\<open>edit_distance_least\<close>, \<open>request_log_refines\<close>). For loops: that they
  end and why (\<open>wait_returns\<close>, \<open>expect_verdict\<close>).

  \<^bold>\<open>Bounds and fuel.\<close> Strings are byte lists. Sequence numbers of the encrypted channel are 64-bit
  words; numbers whose overflow would need more than \<open>2 ^ 63\<close> milliseconds or events (clocks, log
  positions) are naturals. Numbers read from a command line have the range their parser enforces.
  The relay's walks over parents and iframes are \<open>function\<close>s with a termination proof: the first
  keeps the code's visited set and is measured by the sessions it has not seen, the second by the
  entries it has not removed. A polling loop recurses over the list of what its polls saw and is
  \<open>None\<close> when the list ends with the loop still waiting; that a list long enough to pass the
  deadline always gives an outcome is a theorem (\<open>wait_returns\<close>, \<open>expect_verdict\<close>).

  \<^bold>\<open>Not modelled.\<close> The handlers that only send CDP commands and wait for the browser
  (\<open>native/actions.rs\<close>, \<open>browser.rs\<close>, \<open>element.rs\<close>, \<open>interaction.rs\<close>), whose outcome is Chrome's;
  the rendering of snapshots; the remaining parsers of \<open>commands.rs\<close>; printing; processes, sockets and
  the tokio tasks around the relay and the gateway, whose state changes happen under one lock and
  are the steps of the models; the agent panel's service; adapters for web sites; installation.
\<close>

section \<open>The phone, the device store and the gateway together\<close>

lemma full_access_needs_grant:
  assumes run: "store_run empty_store ops s"
    and allows: "fst (device_allows_full_access env i s)"
  shows "list_ex (grants_access i) ops"
proof (rule ccontr)
  assume "\<not> list_ex (grants_access i) ops"
  then have none: "list_all (\<lambda>a. \<not> grants_access i a) ops"
    by (simp add: list_ex_iff list_all_iff)
  obtain r s1 where r: "read_store (w_store env) s = (Inr r, s1)"
    using allows by (auto simp: device_allows_full_access_def split: prod.split_asm sum.split_asm)
  then obtain d where d: "find_device i r = Some d" "d_full_access d"
    using allows by (auto simp: device_allows_full_access_def unwrap_or_def split: option.split_asm)
  have load: "load_registry (w_store env) (reg_file s) = Inr r"
    using r by (auto simp: read_store_def split: option.split_asm sum.split_asm if_split_asm)
  have "d \<in> set (devices r)" "d_id d = i" using find_device_Some [OF d(1)] by auto
  then have "d \<in> store_devices s"
    using load_devices [OF load] by (auto simp: store_devices_def split: reg_file.split_asm)
  then show False
    using full_access_run [OF run _ d(2)] none \<open>d_id d = i\<close>
    by (auto simp: store_devices_def empty_store_def)
qed

text \<open>
  C2: A phone that the computer's owner never allowed full access starts no work beyond what
  a phone may start: for a device store built from nothing by any operations (pairings,
  tokens, mutes, revocations, with any failures) among which no grant for this device is,
  whatever the phone asks, the conversations it sends to, approves for or changes and the
  schedules it runs or turns on run without full access, without commands, and for Pi
  without tools.
\<close>
theorem phone_needs_the_computer:
  assumes "store_run empty_store ops (gw_store g)" "\<not> list_ex (grants_access (ss_device sess)) ops"
    and "phone_check (g_uuid lib) op params = Inr action"
    and "perform env sess action g = (res, calls, g')" "(cop, cparams, profile) \<in> set calls"
  shows "(cop \<in> {''conversationSend'', ''conversationSendDirect'', ''conversationSetOptions''}
         \<or> cop = ''conversationRespond'' \<and> \<not> declines (jidx cparams ''decision'') \<longrightarrow>
       (\<exists>row. listed_row env (ss_profile sess) ''conversationList'' ''conversations''
                (unwrap_or [] (as_str (jidx cparams ''conversationId''))) row \<and> \<not> row_elevated row))
    \<and> (cop = ''scheduleRun'' \<or> cop = ''scheduleSave'' \<and> jidx cparams ''enabled'' \<noteq> JBool False \<longrightarrow>
       (\<exists>row. listed_row env (ss_profile sess) ''scheduleList'' ''schedules''
                (unwrap_or [] (as_str (jidx cparams ''id''))) row \<and> \<not> row_elevated row))"
proof -
  have "\<not> fst (device_allows_full_access env (ss_device sess) (gw_store g))"
    using full_access_needs_grant [OF assms(1)] assms(2) by blast
  then have "permitted_row env sess (gw_store g) lister list_name i \<longleftrightarrow>
      (\<exists>row. listed_row env (ss_profile sess) lister list_name i row \<and> \<not> row_elevated row)"
    for lister list_name i
    by (simp add: permitted_row_def may_use_def)
  with action_permitted [OF assms(3-5)] show ?thesis by (simp add: permitted_def)
qed

lemma phone_needs_the_computer_witness:
  "\<exists>row. listed_row toy_gw_env ''profile-1'' ''conversationList'' ''conversations'' ''u1'' row
     \<and> \<not> row_elevated row"
proof -
  let ?g = "toy_gateway\<lparr>gw_store := empty_store\<rparr>"
  have "fst (snd (perform toy_gw_env toy_session (Panel ''conversationSend'' toy_send) ?g))
    = [(''conversationList'', jobj [], ''profile-1''), (''conversationSend'', toy_send, ''profile-1'')]"
    by code_simp
  then obtain r g' where p: "perform toy_gw_env toy_session (Panel ''conversationSend'' toy_send) ?g
      = (r, [(''conversationList'', jobj [], ''profile-1''), (''conversationSend'', toy_send, ''profile-1'')], g')"
    by (metis prod.collapse)
  have run: "store_run empty_store [] (gw_store ?g)" by simp
  have "unwrap_or [] (as_str (jidx toy_send ''conversationId'')) = ''u1''"
    by (simp add: toy_send_def jidx_def)
  then show ?thesis
    using phone_needs_the_computer [OF run _ toy_send_check p, of "''conversationSend''" toy_send "''profile-1''"]
    by (simp add: toy_session_def)
qed

end
